(* ===== verification/Prelude.thy ===== *)
theory Prelude imports Main begin

text \<open>
  Shared vocabulary of the development.

  The services are asynchronous TypeScript: a method either returns a value or throws, and
  every call that leaves the process (MySQL, Redis, Kafka, HTTP) may fail.  A method is modelled
  as an effect: a function from a state and a list of fault decisions to an outcome
  (\<open>Inl\<close> the exception, \<open>Inr\<close> the value), the new state and the decisions that are left.
  One decision is consumed by each call that leaves the process, in call order, so a theorem
  that holds for every decision list holds for every pattern of outages.  State changes made
  before an exception persist, as they do in the code.

  The collection \<open>keeps\<close> holds the rules by which an invariant of a composed method is
  reduced to its calls.
\<close>

named_theorems keeps "rules that reduce preservation of an invariant to the calls of a method"

section \<open>Faults and effects\<close>

text \<open>
  \<open>FailBefore\<close>: the call had no effect and throws.  \<open>FailAfter\<close>: the call took effect but
  its answer was lost (a command timeout), so the caller sees an exception all the same.
\<close>

datatype fault = NoFault | FailBefore | FailAfter

type_synonym ('s, 'e, 'a) eff = "'s \<times> fault list \<Rightarrow> ('e + 'a) \<times> 's \<times> fault list"

definition ret :: "'a \<Rightarrow> ('s, 'e, 'a) eff" where
  "ret x = (\<lambda>(s, fs). (Inr x, s, fs))"

definition throw :: "'e \<Rightarrow> ('s, 'e, 'a) eff" where
  "throw e = (\<lambda>(s, fs). (Inl e, s, fs))"

definition bnd :: "('s, 'e, 'a) eff \<Rightarrow> ('a \<Rightarrow> ('s, 'e, 'b) eff) \<Rightarrow> ('s, 'e, 'b) eff" where
  "bnd m k w = (case m w of (Inl e, w') \<Rightarrow> (Inl e, w') | (Inr x, w') \<Rightarrow> k x w')"

text \<open>Reading and writing memory of the process itself cannot fail.\<close>

definition gets :: "('s \<Rightarrow> 'a) \<Rightarrow> ('s, 'e, 'a) eff" where
  "gets f = (\<lambda>(s, fs). (Inr (f s), s, fs))"

definition modify :: "('s \<Rightarrow> 's) \<Rightarrow> ('s, 'e, unit) eff" where
  "modify f = (\<lambda>(s, fs). (Inr (), f s, fs))"

text \<open>\<open>try { m } catch (e) { h e }\<close>\<close>

definition try_catch :: "('s, 'e, 'a) eff \<Rightarrow> ('e \<Rightarrow> ('s, 'e, 'a) eff) \<Rightarrow> ('s, 'e, 'a) eff" where
  "try_catch m h w = (case m w of (Inl e, w') \<Rightarrow> h e w' | (Inr x, w') \<Rightarrow> (Inr x, w'))"

text \<open>A call that leaves the process: it reads and writes the state, or fails with \<open>e\<close>.\<close>

definition external :: "'e \<Rightarrow> ('s \<Rightarrow> 'a \<times> 's) \<Rightarrow> ('s, 'e, 'a) eff" where
  "external e f = (\<lambda>(s, fs). case fs of
      [] \<Rightarrow> (Inr (fst (f s)), snd (f s), [])
    | NoFault # r \<Rightarrow> (Inr (fst (f s)), snd (f s), r)
    | FailBefore # r \<Rightarrow> (Inl e, s, r)
    | FailAfter # r \<Rightarrow> (Inl e, snd (f s), r))"

text \<open>The same for a call that the remote side may itself reject with an exception.\<close>

definition external_try :: "'e \<Rightarrow> ('s \<Rightarrow> ('e + 'a) \<times> 's) \<Rightarrow> ('s, 'e, 'a) eff" where
  "external_try e f = bnd (external e f) (\<lambda>r. case r of Inl x \<Rightarrow> throw x | Inr a \<Rightarrow> ret a)"

text \<open>\<open>for (const x of xs) { body x }\<close>\<close>

fun foreach :: "'x list \<Rightarrow> ('x \<Rightarrow> ('s, 'e, unit) eff) \<Rightarrow> ('s, 'e, unit) eff" where
  "foreach [] body = ret ()"
| "foreach (x # xs) body = bnd (body x) (\<lambda>_. foreach xs body)"

text \<open>A method of a component run on the part of the state it owns.\<close>

definition zoom :: "('t \<Rightarrow> 's) \<Rightarrow> ('s \<Rightarrow> 't \<Rightarrow> 't) \<Rightarrow> ('s, 'e, 'a) eff \<Rightarrow> ('t, 'e, 'a) eff" where
  "zoom get put m = (\<lambda>(t, fs). case m (get t, fs) of (r, s, fs') \<Rightarrow> (r, put s t, fs'))"

abbreviation outcome :: "('e + 'a) \<times> 's \<times> fault list \<Rightarrow> 'e + 'a" where
  "outcome r \<equiv> fst r"

abbreviation final :: "('e + 'a) \<times> 's \<times> fault list \<Rightarrow> 's" where
  "final r \<equiv> fst (snd r)"

section \<open>Computing with effects\<close>

lemma ret_apply [simp]: "ret x (s, fs) = (Inr x, s, fs)"
  by (simp add: ret_def)

lemma throw_apply [simp]: "throw e (s, fs) = (Inl e, s, fs)"
  by (simp add: throw_def)

lemma gets_apply [simp]: "gets f (s, fs) = (Inr (f s), s, fs)"
  by (simp add: gets_def)

lemma modify_apply [simp]: "modify f (s, fs) = (Inr (), f s, fs)"
  by (simp add: modify_def)

lemma bnd_Inr: "m w = (Inr x, w') \<Longrightarrow> bnd m k w = k x w'"
  by (simp add: bnd_def)

lemma bnd_Inl: "m w = (Inl e, w') \<Longrightarrow> bnd m k w = (Inl e, w')"
  by (simp add: bnd_def)

lemma bnd_ret [simp]: "bnd (ret x) k = k x"
  by (rule ext) (simp add: bnd_def ret_def split: prod.splits)

lemma external_simps [simp]:
  "external e f (s, []) = (Inr (fst (f s)), snd (f s), [])"
  "external e f (s, NoFault # r) = (Inr (fst (f s)), snd (f s), r)"
  "external e f (s, FailBefore # r) = (Inl e, s, r)"
  "external e f (s, FailAfter # r) = (Inl e, snd (f s), r)"
  by (simp_all add: external_def)

lemma external_cases:
  obtains (ok) r where "external e f (s, fs) = (Inr (fst (f s)), snd (f s), r)"
  | (before) r where "external e f (s, fs) = (Inl e, s, r)"
  | (after) r where "external e f (s, fs) = (Inl e, snd (f s), r)"
proof (cases fs)
  case Nil
  then show ?thesis by (intro ok) simp
next
  case (Cons g r)
  then show ?thesis
    by (cases g) (auto intro: ok before after)
qed

section \<open>Invariants of effects\<close>

definition keeps_inv :: "('s \<Rightarrow> bool) \<Rightarrow> ('s, 'e, 'a) eff \<Rightarrow> bool" where
  "keeps_inv I m \<longleftrightarrow> (\<forall>s fs. I s \<longrightarrow> I (final (m (s, fs))))"

lemma keeps_invI: "(\<And>s fs. I s \<Longrightarrow> I (final (m (s, fs)))) \<Longrightarrow> keeps_inv I m"
  by (simp add: keeps_inv_def)

lemma keeps_invD: "keeps_inv I m \<Longrightarrow> I s \<Longrightarrow> I (final (m (s, fs)))"
  by (simp add: keeps_inv_def)

lemma keeps_ret [keeps]: "keeps_inv I (ret x)"
  by (simp add: keeps_inv_def)

lemma keeps_throw [keeps]: "keeps_inv I (throw e)"
  by (simp add: keeps_inv_def)

lemma keeps_gets [keeps]: "keeps_inv I (gets f)"
  by (simp add: keeps_inv_def)

lemma keeps_modify [keeps]: "(\<And>s. I s \<Longrightarrow> I (f s)) \<Longrightarrow> keeps_inv I (modify f)"
  by (simp add: keeps_inv_def)

lemma keeps_bnd [keeps]:
  assumes m: "keeps_inv I m" and k: "\<And>x. keeps_inv I (k x)"
  shows "keeps_inv I (bnd m k)"
proof (rule keeps_invI)
  fix s fs assume s: "I s"
  obtain r s' fs' where w: "m (s, fs) = (r, s', fs')" by (cases "m (s, fs)") auto
  with keeps_invD [OF m s, of fs] have "I s'" by simp
  with w show "I (final (bnd m k (s, fs)))"
    by (cases r) (auto simp: bnd_def intro: keeps_invD [OF k])
qed

lemma keeps_try [keeps]:
  assumes m: "keeps_inv I m" and h: "\<And>e. keeps_inv I (h e)"
  shows "keeps_inv I (try_catch m h)"
proof (rule keeps_invI)
  fix s fs assume s: "I s"
  obtain r s' fs' where w: "m (s, fs) = (r, s', fs')" by (cases "m (s, fs)") auto
  with keeps_invD [OF m s, of fs] have "I s'" by simp
  with w show "I (final (try_catch m h (s, fs)))"
    by (cases r) (auto simp: try_catch_def intro: keeps_invD [OF h])
qed

lemma keeps_external [keeps]:
  assumes "\<And>s. I s \<Longrightarrow> I (snd (f s))"
  shows "keeps_inv I (external e f)"
proof (rule keeps_invI)
  fix s fs assume s: "I s"
  show "I (final (external e f (s, fs)))"
    by (rule external_cases [where e = e and f = f and s = s and fs = fs])
      (simp_all add: s assms)
qed

lemma keeps_external_try [keeps]:
  assumes "\<And>s. I s \<Longrightarrow> I (snd (f s))"
  shows "keeps_inv I (external_try e f)"
  unfolding external_try_def
  by (intro keeps_bnd keeps_external assms) (auto split: sum.split intro: keeps_ret keeps_throw)

lemma keeps_foreach [keeps]:
  "(\<And>x. keeps_inv I (body x)) \<Longrightarrow> keeps_inv I (foreach xs body)"
  by (induction xs) (auto intro: keeps_ret keeps_bnd)

lemma keeps_if [keeps]:
  "(b \<Longrightarrow> keeps_inv I m) \<Longrightarrow> (\<not> b \<Longrightarrow> keeps_inv I n) \<Longrightarrow> keeps_inv I (if b then m else n)"
  by simp

lemma keeps_option [keeps]:
  "(x = None \<Longrightarrow> keeps_inv I m) \<Longrightarrow> (\<And>a. x = Some a \<Longrightarrow> keeps_inv I (k a)) \<Longrightarrow>
   keeps_inv I (case x of None \<Rightarrow> m | Some a \<Rightarrow> k a)"
  by (cases x) simp_all

lemma keeps_sum [keeps]:
  "(\<And>a. x = Inl a \<Longrightarrow> keeps_inv I (m a)) \<Longrightarrow> (\<And>a. x = Inr a \<Longrightarrow> keeps_inv I (k a)) \<Longrightarrow>
   keeps_inv I (case x of Inl a \<Rightarrow> m a | Inr a \<Rightarrow> k a)"
  by (cases x) simp_all

lemma keeps_pair [keeps]:
  "(\<And>a b. x = (a, b) \<Longrightarrow> keeps_inv I (k a b)) \<Longrightarrow> keeps_inv I (case x of (a, b) \<Rightarrow> k a b)"
  by (cases x) simp

lemma keeps_let [keeps]:
  "(\<And>x. x = t \<Longrightarrow> keeps_inv I (k x)) \<Longrightarrow> keeps_inv I (let x = t in k x)"
  by simp

lemma keeps_zoom [keeps]:
  assumes "keeps_inv J m" and "\<And>t. I t \<Longrightarrow> J (get t)"
    and "\<And>t s. I t \<Longrightarrow> J s \<Longrightarrow> I (put s t)"
  shows "keeps_inv I (zoom get put m)"
proof (rule keeps_invI)
  fix t fs assume t: "I t"
  obtain r s fs' where w: "m (get t, fs) = (r, s, fs')" by (cases "m (get t, fs)") auto
  with keeps_invD [OF assms(1) assms(2) [OF t], of fs] have "J s" by simp
  with t w show "I (final (zoom get put m (t, fs)))"
    by (simp add: zoom_def assms(3))
qed

section \<open>Success is fault-free\<close>

text \<open>
  A method without a recovering \<open>catch\<close> that returns a value has met no fault, so its result is
  the one it computes with no faults at all.
\<close>

named_theorems honest "rules that reduce a method to its run without faults"

definition honest :: "('s, 'e, 'a) eff \<Rightarrow> bool" where
  "honest m \<longleftrightarrow> (\<forall>s fs x s' fs'. m (s, fs) = (Inr x, s', fs') \<longrightarrow> m (s, []) = (Inr x, s', []))"

lemma honestI: "(\<And>s fs x s' fs'. m (s, fs) = (Inr x, s', fs') \<Longrightarrow> m (s, []) = (Inr x, s', [])) \<Longrightarrow> honest m"
  unfolding honest_def by blast

lemma honestD: "honest m \<Longrightarrow> m (s, fs) = (Inr x, s', fs') \<Longrightarrow> m (s, []) = (Inr x, s', [])"
  unfolding honest_def by blast

lemma honest_ret [honest]: "honest (ret x)"
  by (simp add: honest_def)

lemma honest_throw [honest]: "honest (throw e)"
  by (simp add: honest_def)

lemma honest_gets [honest]: "honest (gets f)"
  by (simp add: honest_def)

lemma honest_modify [honest]: "honest (modify f)"
  by (simp add: honest_def)

lemma honest_external [honest]: "honest (external e f)"
proof (rule honestI)
  fix s fs x s' fs'
  assume "external e f (s, fs) = (Inr x, s', fs')"
  then show "external e f (s, []) = (Inr x, s', [])"
    by (cases rule: external_cases [where e = e and f = f and s = s and fs = fs]) simp_all
qed

lemma honest_bnd [honest]:
  assumes m: "honest m" and k: "\<And>x. honest (k x)"
  shows "honest (bnd m k)"
proof (rule honestI)
  fix s fs y s' fs'
  assume r: "bnd m k (s, fs) = (Inr y, s', fs')"
  then obtain x t gs where w: "m (s, fs) = (Inr x, t, gs)" "k x (t, gs) = (Inr y, s', fs')"
    by (cases "m (s, fs)"; cases "fst (m (s, fs))") (auto simp: bnd_def)
  then show "bnd m k (s, []) = (Inr y, s', [])"
    using honestD [OF m w(1)] honestD [OF k w(2)] by (simp add: bnd_def)
qed

lemma honest_sum [honest]:
  "(\<And>a. honest (m a)) \<Longrightarrow> (\<And>a. honest (k a)) \<Longrightarrow> honest (case x of Inl a \<Rightarrow> m a | Inr a \<Rightarrow> k a)"
  by (cases x) simp_all

lemma honest_external_try [honest]: "honest (external_try e f)"
  unfolding external_try_def by (intro honest)

lemma honest_if [honest]: "honest m \<Longrightarrow> honest n \<Longrightarrow> honest (if b then m else n)"
  by simp

lemma honest_option [honest]:
  "honest m \<Longrightarrow> (\<And>a. honest (k a)) \<Longrightarrow> honest (case x of None \<Rightarrow> m | Some a \<Rightarrow> k a)"
  by (cases x) simp_all

lemma honest_let [honest]: "(\<And>x. honest (k x)) \<Longrightarrow> honest (let x = t in k x)"
  by simp

lemma honest_pair [honest]: "(\<And>a b. honest (k a b)) \<Longrightarrow> honest (case x of (a, b) \<Rightarrow> k a b)"
  by (cases x) simp

text \<open>A handler that rethrows (possibly another exception) does not recover.\<close>

lemma honest_rethrow [honest]:
  assumes m: "honest m" and h: "\<And>e w. isl (fst (h e w))"
  shows "honest (try_catch m h)"
proof (rule honestI)
  fix s fs y s' fs'
  assume r: "try_catch m h (s, fs) = (Inr y, s', fs')"
  have "\<not> isl (fst (m (s, fs)))"
    using r h by (cases "m (s, fs)"; cases "fst (m (s, fs))") (auto simp: try_catch_def, metis fst_conv sum.disc(2))
  with r have "m (s, fs) = (Inr y, s', fs')"
    by (cases "m (s, fs)"; cases "fst (m (s, fs))") (auto simp: try_catch_def)
  then show "try_catch m h (s, []) = (Inr y, s', [])"
    using honestD [OF m] by (simp add: try_catch_def)
qed

lemma bnd_external_nil [simp]: "bnd (external e f) k (s, []) = k (fst (f s)) (snd (f s), [])"
  by (simp add: bnd_def)

lemma bnd_external_try_nil [simp]:
  "bnd (external_try e f) k (s, []) = (case f s of
     (Inl x, s') \<Rightarrow> (Inl x, s', []) | (Inr a, s') \<Rightarrow> k a (s', []))"
  by (cases "f s"; cases "fst (f s)") (auto simp: external_try_def bnd_def)

lemma external_try_nil [simp]: "external_try e f (s, []) = (fst (f s), snd (f s), [])"
  by (cases "f s"; cases "fst (f s)") (auto simp: external_try_def)

lemma bnd_assoc: "bnd (bnd m k) l = bnd m (\<lambda>x. bnd (k x) l)"
  by (rule ext) (simp add: bnd_def split: prod.splits sum.splits)

lemma bnd_throw [simp]: "bnd (throw e) k = throw e"
  by (rule ext) (simp add: bnd_def throw_def split: prod.splits)

text \<open>
  And when such a method throws, the exception is the failure \<open>d\<close> of a call or the one it throws
  with no faults.
\<close>

named_theorems candid "rules that reduce the exceptions of a method to its run without faults"

definition candid :: "'e \<Rightarrow> ('s, 'e, 'a) eff \<Rightarrow> bool" where
  "candid d m \<longleftrightarrow> (\<forall>s fs e s' fs'. m (s, fs) = (Inl e, s', fs') \<longrightarrow> e = d \<or> fst (m (s, [])) = Inl e)"

lemma candidI:
  "(\<And>s fs e s' fs'. m (s, fs) = (Inl e, s', fs') \<Longrightarrow> e = d \<or> fst (m (s, [])) = Inl e) \<Longrightarrow> candid d m"
  unfolding candid_def by blast

lemma candidD: "candid d m \<Longrightarrow> m (s, fs) = (Inl e, s', fs') \<Longrightarrow> e = d \<or> fst (m (s, [])) = Inl e"
  unfolding candid_def by blast

lemma candid_ret [candid]: "candid d (ret x)"
  by (simp add: candid_def)

lemma candid_throw [candid]: "candid d (throw e)"
  by (simp add: candid_def)

lemma candid_external [candid]: "candid d (external d f)"
proof (rule candidI)
  fix s fs e s' fs'
  assume "external d f (s, fs) = (Inl e, s', fs')"
  then show "e = d \<or> fst (external d f (s, [])) = Inl e"
    by (cases rule: external_cases [where e = d and f = f and s = s and fs = fs]) simp_all
qed

lemma candid_bnd [candid]:
  assumes h: "honest m" and m: "candid d m" and k: "\<And>x. candid d (k x)"
  shows "candid d (bnd m k)"
proof (rule candidI)
  fix s fs e s' fs'
  assume r: "bnd m k (s, fs) = (Inl e, s', fs')"
  obtain q t gs where w: "m (s, fs) = (q, t, gs)" by (cases "m (s, fs)")
  show "e = d \<or> fst (bnd m k (s, [])) = Inl e"
  proof (cases q)
    case (Inl e')
    with r w have "m (s, fs) = (Inl e, t, gs)" by (simp add: bnd_def)
    from candidD [OF m this] show ?thesis
      by (cases "m (s, [])") (auto simp: bnd_def)
  next
    case (Inr x)
    with w have "m (s, []) = (Inr x, t, [])" by (auto intro: honestD [OF h])
    moreover from r w Inr have "k x (t, gs) = (Inl e, s', fs')" by (simp add: bnd_def)
    from candidD [OF k this] have "e = d \<or> fst (k x (t, [])) = Inl e" .
    ultimately show ?thesis by (simp add: bnd_def)
  qed
qed

lemma candid_sum [candid]:
  "(\<And>a. candid d (m a)) \<Longrightarrow> (\<And>a. candid d (k a)) \<Longrightarrow> candid d (case x of Inl a \<Rightarrow> m a | Inr a \<Rightarrow> k a)"
  by (cases x) simp_all

lemma candid_external_try [candid]: "candid d (external_try d f)"
  unfolding external_try_def by (intro candid honest)

lemma candid_if [candid]: "candid d m \<Longrightarrow> candid d n \<Longrightarrow> candid d (if b then m else n)"
  by simp

lemma candid_option [candid]:
  "candid d m \<Longrightarrow> (\<And>a. candid d (k a)) \<Longrightarrow> candid d (case x of None \<Rightarrow> m | Some a \<Rightarrow> k a)"
  by (cases x) simp_all

lemma candid_let [candid]: "(\<And>x. candid d (k x)) \<Longrightarrow> candid d (let x = t in k x)"
  by simp

lemma candid_pair [candid]: "(\<And>a b. candid d (k a b)) \<Longrightarrow> candid d (case x of (a, b) \<Rightarrow> k a b)"
  by (cases x) simp

text \<open>Translating exceptions keeps this when the failure of a call is passed on.\<close>

lemma candid_translate [candid]:
  assumes m: "candid d m" and h: "\<And>e w. h e w = throw (g e) w" and d: "g d = d"
  shows "candid d (try_catch m h)"
proof (rule candidI)
  fix s fs e s' fs'
  assume r: "try_catch m h (s, fs) = (Inl e, s', fs')"
  then obtain e0 where e0: "m (s, fs) = (Inl e0, s', fs')" "e = g e0"
    by (cases "m (s, fs)"; cases "fst (m (s, fs))") (auto simp: try_catch_def h)
  from candidD [OF m e0(1)] show "e = d \<or> fst (try_catch m h (s, [])) = Inl e"
    using e0(2) d by (cases "m (s, [])") (auto simp: try_catch_def h)
qed

section \<open>Every deviation costs a fault\<close>

text \<open>
  A method that meets no fault behaves as it does without any.  This holds for recovering handlers
  too, so it counts how many outages a retry loop can survive.
\<close>

named_theorems fair "rules that show that a method deviates only by consuming a fault"

definition nfaults :: "fault list \<Rightarrow> nat" where
  "nfaults fs = length (filter (\<lambda>f. f \<noteq> NoFault) fs)"

lemma nfaults_simps [simp]:
  "nfaults [] = 0" "nfaults (NoFault # fs) = nfaults fs"
  "nfaults (FailBefore # fs) = Suc (nfaults fs)" "nfaults (FailAfter # fs) = Suc (nfaults fs)"
  by (simp_all add: nfaults_def)

definition fair :: "('s, 'e, 'a) eff \<Rightarrow> bool" where
  "fair m \<longleftrightarrow> (\<forall>s fs r s' fs'. m (s, fs) = (r, s', fs') \<longrightarrow>
     nfaults fs' \<le> nfaults fs \<and> (nfaults fs' = nfaults fs \<longrightarrow> m (s, []) = (r, s', [])))"

lemma fairI:
  "(\<And>s fs r s' fs'. m (s, fs) = (r, s', fs') \<Longrightarrow>
     nfaults fs' \<le> nfaults fs \<and> (nfaults fs' = nfaults fs \<longrightarrow> m (s, []) = (r, s', []))) \<Longrightarrow> fair m"
  unfolding fair_def by blast

lemma fairD:
  assumes "fair m" "m (s, fs) = (r, s', fs')"
  shows "nfaults fs' \<le> nfaults fs" "nfaults fs' = nfaults fs \<Longrightarrow> m (s, []) = (r, s', [])"
  using assms unfolding fair_def by blast+

lemma fair_ret [fair]: "fair (ret x)"
  by (simp add: fair_def)

lemma fair_throw [fair]: "fair (throw e)"
  by (simp add: fair_def)

lemma fair_gets [fair]: "fair (gets f)"
  by (simp add: fair_def)

lemma fair_modify [fair]: "fair (modify f)"
  by (simp add: fair_def)

lemma fair_external [fair]: "fair (external e f)"
proof (rule fairI)
  fix s fs r s' fs'
  assume "external e f (s, fs) = (r, s', fs')"
  then show "nfaults fs' \<le> nfaults fs \<and> (nfaults fs' = nfaults fs \<longrightarrow> external e f (s, []) = (r, s', []))"
    by (auto simp: external_def split: list.splits fault.splits)
qed

lemma fair_bnd [fair]:
  assumes m: "fair m" and k: "\<And>x. fair (k x)"
  shows "fair (bnd m k)"
proof (rule fairI)
  fix s fs r s' fs'
  assume r: "bnd m k (s, fs) = (r, s', fs')"
  obtain q t gs where w: "m (s, fs) = (q, t, gs)" by (cases "m (s, fs)")
  note m' = fairD [OF m w]
  show "nfaults fs' \<le> nfaults fs \<and> (nfaults fs' = nfaults fs \<longrightarrow> bnd m k (s, []) = (r, s', []))"
  proof (cases q)
    case (Inl e)
    with w r m' show ?thesis by (auto simp: bnd_def)
  next
    case (Inr x)
    with w r have "k x (t, gs) = (r, s', fs')" by (simp add: bnd_def)
    note k' = fairD [OF k this]
    have "nfaults fs' = nfaults fs \<Longrightarrow> m (s, []) = (q, t, []) \<and> k x (t, []) = (r, s', [])"
      using m' k' by auto
    with m'(1) k'(1) Inr show ?thesis by (auto simp: bnd_def)
  qed
qed

lemma fair_try [fair]:
  assumes m: "fair m" and h: "\<And>e. fair (h e)"
  shows "fair (try_catch m h)"
proof (rule fairI)
  fix s fs r s' fs'
  assume r: "try_catch m h (s, fs) = (r, s', fs')"
  obtain q t gs where w: "m (s, fs) = (q, t, gs)" by (cases "m (s, fs)")
  note m' = fairD [OF m w]
  show "nfaults fs' \<le> nfaults fs \<and> (nfaults fs' = nfaults fs \<longrightarrow> try_catch m h (s, []) = (r, s', []))"
  proof (cases q)
    case (Inr x)
    with w r m' show ?thesis by (auto simp: try_catch_def)
  next
    case (Inl e)
    with w r have "h e (t, gs) = (r, s', fs')" by (simp add: try_catch_def)
    note h' = fairD [OF h this]
    have "nfaults fs' = nfaults fs \<Longrightarrow> m (s, []) = (q, t, []) \<and> h e (t, []) = (r, s', [])"
      using m' h' by auto
    with m'(1) h'(1) Inl show ?thesis by (auto simp: try_catch_def)
  qed
qed

lemma fair_sum [fair]:
  "(\<And>a. fair (m a)) \<Longrightarrow> (\<And>a. fair (k a)) \<Longrightarrow> fair (case x of Inl a \<Rightarrow> m a | Inr a \<Rightarrow> k a)"
  by (cases x) simp_all

lemma fair_external_try [fair]: "fair (external_try e f)"
  unfolding external_try_def by (intro fair)

lemma fair_if [fair]: "fair m \<Longrightarrow> fair n \<Longrightarrow> fair (if b then m else n)"
  by simp

lemma fair_option [fair]:
  "fair m \<Longrightarrow> (\<And>a. fair (k a)) \<Longrightarrow> fair (case x of None \<Rightarrow> m | Some a \<Rightarrow> k a)"
  by (cases x) simp_all

lemma fair_let [fair]: "(\<And>x. fair (k x)) \<Longrightarrow> fair (let x = t in k x)"
  by simp

lemma fair_pair [fair]: "(\<And>a b. fair (k a b)) \<Longrightarrow> fair (case x of (a, b) \<Rightarrow> k a b)"
  by (cases x) simp

lemma fair_foreach [fair]: "(\<And>x. fair (body x)) \<Longrightarrow> fair (foreach xs body)"
  by (induction xs) (auto intro: fair_ret fair_bnd)

lemma fair_zoom [fair]:
  assumes "fair m"
  shows "fair (zoom get put m)"
proof (rule fairI)
  fix t fs r t' fs'
  assume r: "zoom get put m (t, fs) = (r, t', fs')"
  then obtain s' where s': "m (get t, fs) = (r, s', fs')" "t' = put s' t"
    by (cases "m (get t, fs)") (auto simp: zoom_def)
  with fairD [OF assms s'(1)] show "nfaults fs' \<le> nfaults fs \<and>
      (nfaults fs' = nfaults fs \<longrightarrow> zoom get put m (t, []) = (r, t', []))"
    by (auto simp: zoom_def)
qed

lemma fair_nil:
  assumes "fair m"
  shows "snd (snd (m (s, []))) = []"
proof -
  obtain r s' fs' where w: "m (s, []) = (r, s', fs')" by (cases "m (s, [])")
  from fairD [OF assms w] w show ?thesis by simp
qed

lemma try_ret_unit: "outcome (try_catch m (\<lambda>e. ret ()) w) = Inr ()" for m :: "('s, 'e, unit) eff"
  by (cases "m w"; cases "fst (m w)") (auto simp: try_catch_def ret_def)

section \<open>Loops whose body never throws\<close>

lemma foreach_never_throws:
  assumes "\<And>x w. outcome (body x w) = Inr ()"
  shows "outcome (foreach xs body w) = Inr ()"
proof (induction xs arbitrary: w)
  case (Cons x xs)
  from assms [of x w] have "body x w = (Inr (), snd (body x w))" by (metis prod.collapse)
  then show ?case using Cons by (simp add: bnd_Inr)
qed (simp add: ret_def split_beta)

lemma foreach_Cons_final:
  "outcome (body x w) = Inr () \<Longrightarrow> foreach (x # xs) body w = foreach xs body (snd (body x w))"
  by (metis bnd_Inr foreach.simps(2) prod.collapse)

lemma foreach_others:
  assumes "\<And>x w. outcome (body x w) = Inr ()"
    and "\<And>x s fs. x \<in> set xs \<Longrightarrow> ob (final (body x (s, fs))) = ob s"
  shows "ob (final (foreach xs body (s, fs))) = ob s"
  using assms(2)
proof (induction xs arbitrary: s fs)
  case (Cons x xs)
  obtain s1 gs where w: "snd (body x (s, fs)) = (s1, gs)" by (cases "snd (body x (s, fs))")
  have "ob (final (foreach xs body (s1, gs))) = ob s1" by (rule Cons) (simp add: Cons.prems)
  moreover have "foreach (x # xs) body (s, fs) = foreach xs body (s1, gs)"
    using foreach_Cons_final [of body x "(s, fs)" xs, OF assms(1)] w by simp
  ultimately show ?case using Cons.prems [of x s fs] w by simp
qed simp

text \<open>
  The one element that concerns an observation: a loop over elements of different pairs observes
  what its element does, from a state in which the observation is still the initial one.
\<close>

lemma foreach_focus:
  assumes never: "\<And>x w. outcome (body x w) = Inr ()"
    and other: "\<And>x s fs. f x \<noteq> f p \<Longrightarrow> ob (final (body x (s, fs))) = ob s"
    and I: "\<And>x. x \<in> set xs \<Longrightarrow> keeps_inv I (body x)"
  shows "distinct (map f xs) \<Longrightarrow> p \<in> set xs \<Longrightarrow> I s \<Longrightarrow>
    \<exists>s0 gs. I s0 \<and> ob s0 = ob s \<and> ob (final (foreach xs body (s, fs))) = ob (final (body p (s0, gs))) \<and>
      (fs = [] \<longrightarrow> (\<forall>x. fair (body x)) \<longrightarrow> gs = [])"
  using I
proof (induction xs arbitrary: s fs)
  case (Cons x xs)
  obtain s1 gs where w: "snd (body x (s, fs)) = (s1, gs)" by (cases "snd (body x (s, fs))")
  have run: "foreach (x # xs) body (s, fs) = foreach xs body (s1, gs)"
    using foreach_Cons_final [of body x "(s, fs)" xs, OF never] w by simp
  show ?case
  proof (cases "x = p")
    case True
    with Cons.prems(1) have "f p \<notin> f ` set xs" by simp
    then have "f y \<noteq> f p" if "y \<in> set xs" for y
      using that by (metis image_eqI)
    then have "ob (final (foreach xs body (s1, gs))) = ob s1"
      by (intro foreach_others [OF never] other)
    with True w Cons.prems(3) show ?thesis
      unfolding run by (intro exI [of _ s] exI [of _ fs]) simp
  next
    case False
    with Cons.prems have p: "p \<in> set xs" "f x \<noteq> f p" by auto
    have s1: "I s1" using keeps_invD [OF Cons.prems(4) Cons.prems(3), of x fs] w by simp
    have ob1: "ob s1 = ob s" using other [OF p(2), of s fs] w by simp
    have "distinct (map f xs)" "\<And>y. y \<in> set xs \<Longrightarrow> keeps_inv I (body y)"
      using Cons.prems(1,4) by simp_all
    from Cons.IH [OF this(1) p(1) s1 this(2), of gs]
    obtain s0 hs where "I s0" "ob s0 = ob s1"
        "ob (final (foreach xs body (s1, gs))) = ob (final (body p (s0, hs)))"
        "gs = [] \<longrightarrow> (\<forall>x. fair (body x)) \<longrightarrow> hs = []" by meson
    moreover have "fs = [] \<Longrightarrow> fair (body x) \<Longrightarrow> gs = []" using fair_nil [of "body x" s] w by simp
    ultimately show ?thesis
      unfolding run using ob1 by (intro exI [of _ s0] exI [of _ hs]) simp
  qed
qed simp

end
