(* ===== verification/Js_Lib.thy ===== *)
theory Js_Lib imports Prelude begin

text \<open>
  The parts of the JavaScript standard library the services use on identifiers and keys:
  \<open>String(n)\<close>, \<open>Number(s)\<close>, \<open>padStart\<close>, \<open>trim\<close>, \<open>split\<close>, and the pattern
  \<open>/^[+-]?\d+$/\<close> that \<open>ParseLongPipe\<close>, \<open>UserId\<close> and \<open>parseLongStrict\<close> share.

  Numbers that serve as identifiers, counters and epoch milliseconds are \<open>int\<close>.  This is
  exact for the safe integers (absolute value below \<open>2 ^ 53\<close>), the range the code itself
  relies on (comment of \<open>user-id.decorator.ts\<close>): there \<open>String\<close> is plain decimal and
  \<open>Number\<close> is its inverse.  Larger identifiers, which JavaScript rounds, are out of scope.
  Strings are \<open>char list\<close>, one character per code unit.
\<close>

section \<open>Decimal rendering\<close>

definition digit_char :: "nat \<Rightarrow> char" where
  "digit_char d = char_of (48 + d)"

definition is_digit :: "char \<Rightarrow> bool" where
  "is_digit c \<longleftrightarrow> 48 \<le> (of_char c :: nat) \<and> (of_char c :: nat) \<le> 57"

definition digit_value :: "char \<Rightarrow> nat" where
  "digit_value c = of_char c - 48"

fun nat_dec :: "nat \<Rightarrow> string" where
  "nat_dec n = (if n < 10 then [digit_char n] else nat_dec (n div 10) @ [digit_char (n mod 10)])"

declare nat_dec.simps [simp del]

definition dec :: "int \<Rightarrow> string" where
  "dec n = (if n < 0 then CHR ''-'' # nat_dec (nat (- n)) else nat_dec (nat n))"

definition dec_value :: "string \<Rightarrow> nat" where
  "dec_value s = foldl (\<lambda>a c. 10 * a + digit_value c) 0 s"

section \<open>The integer pattern and Number()\<close>

definition digits1 :: "string \<Rightarrow> bool" where
  "digits1 s \<longleftrightarrow> s \<noteq> [] \<and> list_all is_digit s"

definition LONG_PATTERN :: "string \<Rightarrow> bool" where
  "LONG_PATTERN s = (case s of
      [] \<Rightarrow> False
    | c # r \<Rightarrow> if c = CHR ''+'' \<or> c = CHR ''-'' then digits1 r else digits1 s)"

definition js_Number :: "string \<Rightarrow> int" where
  "js_Number s = (case s of
      [] \<Rightarrow> 0
    | c # r \<Rightarrow> if c = CHR ''-'' then - int (dec_value r)
               else if c = CHR ''+'' then int (dec_value r) else int (dec_value s))"

section \<open>Other string functions\<close>

definition padStart :: "string \<Rightarrow> nat \<Rightarrow> char \<Rightarrow> string" where
  "padStart s w c = replicate (w - length s) c @ s"

definition is_space :: "char \<Rightarrow> bool" where
  "is_space c \<longleftrightarrow> (of_char c :: nat) \<in> {9, 10, 11, 12, 13, 32, 160}"

text \<open>\<open>s.trim() === ''\<close>\<close>

definition blank :: "string \<Rightarrow> bool" where
  "blank s \<longleftrightarrow> list_all is_space s"

fun split_on :: "char \<Rightarrow> string \<Rightarrow> string list" where
  "split_on x [] = [[]]"
| "split_on x (c # cs) =
     (if c = x then [] # split_on x cs
      else (case split_on x cs of [] \<Rightarrow> [[c]] | w # ws \<Rightarrow> (c # w) # ws))"

section \<open>Laws\<close>

lemma of_char_digit [simp]: "d < 10 \<Longrightarrow> (of_char (digit_char d) :: nat) = 48 + d"
  by (simp add: digit_char_def)

lemma is_digit_digit_char [simp]: "d < 10 \<Longrightarrow> is_digit (digit_char d)"
  by (simp add: is_digit_def)

lemma digit_value_digit_char [simp]: "d < 10 \<Longrightarrow> digit_value (digit_char d) = d"
  by (simp add: digit_value_def)

lemma list_all_nat_dec: "list_all is_digit (nat_dec n)"
  by (induction n rule: nat_dec.induct) (subst nat_dec.simps, simp)

lemma nat_dec_ne [simp]: "nat_dec n \<noteq> []"
  by (subst nat_dec.simps) simp

lemma digits1_nat_dec [simp]: "digits1 (nat_dec n)"
  by (simp add: digits1_def list_all_nat_dec)

lemma dec_value_snoc [simp]: "dec_value (s @ [c]) = 10 * dec_value s + digit_value c"
  by (simp add: dec_value_def)

lemma dec_value_nat_dec [simp]: "dec_value (nat_dec n) = n"
proof (induction n rule: nat_dec.induct)
  case (1 n)
  show ?case
  proof (cases "n < 10")
    case True
    then show ?thesis by (subst nat_dec.simps) (simp add: dec_value_def)
  next
    case False
    with 1 show ?thesis by (subst nat_dec.simps) simp
  qed
qed

lemma not_digit [simp]:
  "\<not> is_digit CHR ''-''" "\<not> is_digit CHR ''+''" "\<not> is_digit CHR '':''"
  by (simp_all add: is_digit_def)

lemma digits1_head: "digits1 (c # r) \<Longrightarrow> c \<noteq> CHR ''-'' \<and> c \<noteq> CHR ''+''"
  by (auto simp: digits1_def)

lemma nat_dec_head: "nat_dec n = c # r \<Longrightarrow> c \<noteq> CHR ''-'' \<and> c \<noteq> CHR ''+''"
  by (metis digits1_head digits1_nat_dec)

lemma LONG_PATTERN_dec [simp]: "LONG_PATTERN (dec n)"
  by (auto simp: LONG_PATTERN_def dec_def split: list.split dest: nat_dec_head)
    (metis digits1_nat_dec)

lemma js_Number_dec [simp]: "js_Number (dec n) = n"
proof (cases "n < 0")
  case True
  then show ?thesis by (simp add: js_Number_def dec_def)
next
  case False
  obtain c r where cr: "nat_dec (nat n) = c # r" by (cases "nat_dec (nat n)") auto
  with False have "js_Number (dec n) = int (dec_value (nat_dec (nat n)))"
    using nat_dec_head [OF cr] by (simp add: js_Number_def dec_def)
  with False show ?thesis by simp
qed

lemma dec_inject [simp]: "dec m = dec n \<longleftrightarrow> m = n"
  by (metis js_Number_dec)

lemma dec_ne [simp]: "dec n \<noteq> []"
  by (simp add: dec_def)

lemma colon_notin_nat_dec [simp]: "CHR '':'' \<notin> set (nat_dec n)"
  using list_all_nat_dec [of n] not_digit(3) by (auto simp: list_all_iff simp del: not_digit)

lemma colon_notin_dec [simp]: "CHR '':'' \<notin> set (dec n)"
  by (simp add: dec_def)

lemma split_on_none: "x \<notin> set s \<Longrightarrow> split_on x s = [s]"
  by (induction s) auto

lemma split_on_append: "x \<notin> set s \<Longrightarrow> split_on x (s @ x # t) = s # split_on x t"
  by (induction s) auto

lemma length_split_on: "length (split_on x s) = Suc (count_list s x)"
  by (induction s) (auto split: list.split)

lemma length_padStart: "length s \<le> w \<Longrightarrow> length (padStart s w c) = w"
  by (simp add: padStart_def)

lemma append_colon_inject:
  "CHR '':'' \<notin> set a \<Longrightarrow> CHR '':'' \<notin> set b \<Longrightarrow>
   a @ CHR '':'' # c = b @ CHR '':'' # d \<longleftrightarrow> a = b \<and> c = d"
proof (induction a arbitrary: b)
  case Nil
  then show ?case by (cases b) auto
next
  case (Cons x a)
  then show ?case by (cases b) auto
qed

end
