(* ===== verification/Errors.thy ===== *)
theory Errors imports Js_Lib begin

text \<open>
  The exceptions the services throw and distinguish: the classes of
  \<open>libs/common/src/api/errors.ts\<close>, the domain exceptions of server-c, and the shapes of the
  library exceptions the code inspects (a driver error with \<open>errno\<close> and \<open>sqlMessage\<close>, an HTTP
  error with \<open>response.status\<close>, a Nest \<open>HttpException\<close>, an open circuit).  \<open>Connection_Error\<close>
  stands for a failed call to MySQL, Redis or Kafka.
\<close>

datatype message_field = No_Message | One_Message string | Many_Messages "string list"

datatype http_body = Body_String string | Body_Object message_field

datatype exn =
    Plain_Error string
  | InvalidArgumentError string
  | InvalidStateError string
  | MissingHeaderError string
  | TypeMismatchError string
  | ValidationFailedError "(string \<times> string) list"
  | MalformedBodyError
  | CouponNotFoundError string
  | EventNotFoundError string
  | OptimisticLockFailureError string
  | DuplicateUserCouponError string
  | QueryFailedError int string
  | ResponseError int
  | HttpException int http_body string
  | BrokenCircuitError
  | Connection_Error string

text \<open>The failure of a statement on MySQL.\<close>

definition mysql_down :: exn where
  "mysql_down = Connection_Error ''mysql''"

end
