(* ===== verification/Js_Date.thy ===== *)
theory Js_Date imports Js_Lib begin

text \<open>
  \<open>libs/common/src/api/local-date-time.ts\<close>: the two renderings of a \<open>Date\<close>.  A \<open>Date\<close> is
  its time value, epoch milliseconds as an \<open>int\<close> (an invalid date never reaches this code: the
  values come from \<open>new Date()\<close>, from DATETIME columns and from a stored epoch).  The UTC
  components follow the ECMAScript definitions of Day, YearFromTime, MonthFromTime and
  DateFromTime on the proleptic Gregorian calendar.  Both renderings are inverted by reference
  readers (\<open>read_local\<close>, \<open>read_instant\<close>), which proves them injective: no two instants share a
  wire representation.
\<close>

section \<open>UTC components of a Date\<close>

definition day_of :: "int \<Rightarrow> int" where
  "day_of t = t div 86400000"

definition ms_of_day :: "int \<Rightarrow> int" where
  "ms_of_day t = t mod 86400000"

definition leap :: "int \<Rightarrow> bool" where
  "leap y \<longleftrightarrow> y mod 4 = 0 \<and> (y mod 100 \<noteq> 0 \<or> y mod 400 = 0)"

definition day_from_year :: "int \<Rightarrow> int" where
  "day_from_year y =
     365 * (y - 1970) + (y - 1969) div 4 - (y - 1901) div 100 + (y - 1601) div 400"

text \<open>The year a day number falls in: an estimate from the mean year, corrected by one.\<close>

definition year_of_day :: "int \<Rightarrow> int" where
  "year_of_day d = (let y = 1970 + (400 * d) div 146097 in
     if day_from_year (y + 1) \<le> d then y + 1 else if d < day_from_year y then y - 1 else y)"

definition month_start :: "bool \<Rightarrow> int \<Rightarrow> int" where
  "month_start l m = (if m = 0 then 0 else if m = 1 then 31 else
     (if l then 1 else 0) +
     (if m = 2 then 59 else if m = 3 then 90 else if m = 4 then 120 else if m = 5 then 151
      else if m = 6 then 181 else if m = 7 then 212 else if m = 8 then 243
      else if m = 9 then 273 else if m = 10 then 304 else 334))"

text \<open>Month index 0..11 of a day within its year.\<close>

definition month_of_yday :: "bool \<Rightarrow> int \<Rightarrow> int" where
  "month_of_yday l d =
     (if d < month_start l 1 then 0 else if d < month_start l 2 then 1
      else if d < month_start l 3 then 2 else if d < month_start l 4 then 3
      else if d < month_start l 5 then 4 else if d < month_start l 6 then 5
      else if d < month_start l 7 then 6 else if d < month_start l 8 then 7
      else if d < month_start l 9 then 8 else if d < month_start l 10 then 9
      else if d < month_start l 11 then 10 else 11)"

definition getUTCFullYear :: "int \<Rightarrow> int" where
  "getUTCFullYear t = year_of_day (day_of t)"

definition yday :: "int \<Rightarrow> int" where
  "yday t = day_of t - day_from_year (getUTCFullYear t)"

definition getUTCMonth :: "int \<Rightarrow> int" where
  "getUTCMonth t = month_of_yday (leap (getUTCFullYear t)) (yday t)"

definition getUTCDate :: "int \<Rightarrow> int" where
  "getUTCDate t = yday t - month_start (leap (getUTCFullYear t)) (getUTCMonth t) + 1"

definition getUTCHours :: "int \<Rightarrow> int" where
  "getUTCHours t = ms_of_day t div 3600000"

definition getUTCMinutes :: "int \<Rightarrow> int" where
  "getUTCMinutes t = ms_of_day t div 60000 mod 60"

definition getUTCSeconds :: "int \<Rightarrow> int" where
  "getUTCSeconds t = ms_of_day t div 1000 mod 60"

definition getUTCMilliseconds :: "int \<Rightarrow> int" where
  "getUTCMilliseconds t = ms_of_day t mod 1000"

section \<open>The renderings\<close>

definition pad :: "nat \<Rightarrow> int \<Rightarrow> string" where
  "pad w n = padStart (dec n) w CHR ''0''"

definition toLocalDateTimeString :: "int \<Rightarrow> string" where
  "toLocalDateTimeString t =
     (let ss = getUTCSeconds t; ms = getUTCMilliseconds t;
          out = pad 4 (getUTCFullYear t) @ ''-'' @ pad 2 (getUTCMonth t + 1) @ ''-'' @
                pad 2 (getUTCDate t) @ ''T'' @ pad 2 (getUTCHours t) @ '':'' @
                pad 2 (getUTCMinutes t);
          out = (if ss \<noteq> 0 \<or> ms \<noteq> 0 then out @ '':'' @ pad 2 ss else out)
      in if ms \<noteq> 0 then out @ ''.'' @ pad 3 ms else out)"

definition toLocalDateTimeStringOrNull :: "int option \<Rightarrow> string option" where
  "toLocalDateTimeStringOrNull v =
     (case v of None \<Rightarrow> None | Some t \<Rightarrow> Some (toLocalDateTimeString t))"

text \<open>\<open>Date.prototype.toISOString\<close>: years outside 0..9999 take a sign and six digits.\<close>

definition iso_year :: "int \<Rightarrow> string" where
  "iso_year y = (if 0 \<le> y \<and> y \<le> 9999 then pad 4 y
     else if y < 0 then ''-'' @ pad 6 (- y) else ''+'' @ pad 6 y)"

definition toISOString :: "int \<Rightarrow> string" where
  "toISOString t = iso_year (getUTCFullYear t) @ ''-'' @ pad 2 (getUTCMonth t + 1) @ ''-'' @
     pad 2 (getUTCDate t) @ ''T'' @ pad 2 (getUTCHours t) @ '':'' @ pad 2 (getUTCMinutes t) @
     '':'' @ pad 2 (getUTCSeconds t) @ ''.'' @ pad 3 (getUTCMilliseconds t) @ ''Z''"

text \<open>\<open>String.prototype.replace\<close> with a string pattern: the first occurrence.\<close>

fun replace_first :: "string \<Rightarrow> string \<Rightarrow> string \<Rightarrow> string" where
  "replace_first p r s =
     (if take (length p) s = p then r @ drop (length p) s
      else (case s of [] \<Rightarrow> [] | c # cs \<Rightarrow> c # replace_first p r cs))"

declare replace_first.simps [simp del]

definition toInstantString :: "int \<Rightarrow> string" where
  "toInstantString t = (let iso = toISOString t in
     if getUTCMilliseconds t = 0 then replace_first ''.000Z'' ''Z'' iso else iso)"

section \<open>Calendar facts\<close>

lemma div_bracket:
  fixes a k :: int
  assumes "0 < k"
  shows "k * (a div k) \<le> a" "a \<le> k * (a div k) + (k - 1)"
proof -
  have "k * (a div k) + a mod k = a" by (rule mult_div_mod_eq)
  moreover have "0 \<le> a mod k" "a mod k < k" using assms by simp_all
  ultimately have "k * (a div k) \<le> a \<and> a \<le> k * (a div k) + (k - 1)"
    by (intro conjI; linarith)
  then show "k * (a div k) \<le> a" "a \<le> k * (a div k) + (k - 1)" by simp_all
qed

lemma div_plus_1:
  fixes a k :: int
  assumes "0 < k"
  shows "(a + 1) div k = a div k + (if (a + 1) mod k = 0 then 1 else 0)"
proof (cases "(a + 1) mod k = 0")
  case True
  then obtain c where c: "a + 1 = k * c" by auto
  then have "a = k * (c - 1) + (k - 1)" by (simp add: algebra_simps)
  then have "a div k = c - 1" using assms by (simp add: div_pos_pos_trivial)
  with c True assms show ?thesis by simp
next
  case False
  let ?q = "(a + 1) div k" let ?r = "(a + 1) mod k"
  have "0 \<le> ?r" "?r < k" using assms by simp_all
  with False have r: "0 \<le> ?r - 1" "?r - 1 < k" by linarith+
  have "a = (?r - 1) + k * ?q" using mult_div_mod_eq [of k "a + 1"] by linarith
  then have "a div k = ((?r - 1) + k * ?q) div k" by simp
  also have "\<dots> = ?q" using r assms by (simp add: div_pos_pos_trivial)
  finally show ?thesis using False by simp
qed

lemma mod_shift: "k dvd c \<Longrightarrow> (y - c) mod k = y mod k" for y c k :: int
  by (simp add: mod_eq_dvd_iff)

lemma leap_sum:
  fixes a b c y :: int
  assumes "p100 \<Longrightarrow> p4" "p400 \<Longrightarrow> p100"
  shows "365 * (y + 1 - 1970) + (a + (if p4 then 1 else 0)) - (b + (if p100 then 1 else 0)) +
      (c + (if p400 then 1 else 0)) =
    365 * (y - 1970) + a - b + c + 365 + (if p4 \<and> (\<not> p100 \<or> p400) then 1 else 0)"
  using assms by (cases p4; cases p100; cases p400) simp_all

lemma day_from_year_Suc: "day_from_year (y + 1) = day_from_year y + 365 + (if leap y then 1 else 0)"
proof -
  have 4: "(y + 1 - 1969) div 4 = (y - 1969) div 4 + (if y mod 4 = 0 then 1 else 0)"
    using div_plus_1 [of 4 "y - 1969"] mod_shift [of 4 1968 y] by simp
  have 100: "(y + 1 - 1901) div 100 = (y - 1901) div 100 + (if y mod 100 = 0 then 1 else 0)"
    using div_plus_1 [of 100 "y - 1901"] mod_shift [of 100 1900 y] by simp
  have 400: "(y + 1 - 1601) div 400 = (y - 1601) div 400 + (if y mod 400 = 0 then 1 else 0)"
    using div_plus_1 [of 400 "y - 1601"] mod_shift [of 400 1600 y] by simp
  have "y mod 100 mod 4 = y mod 4" "y mod 400 mod 100 = y mod 100"
    by (simp_all add: mod_mod_cancel)
  then have "y mod 100 = 0 \<Longrightarrow> y mod 4 = 0" "y mod 400 = 0 \<Longrightarrow> y mod 100 = 0"
    by (metis mod_0)+
  then show ?thesis
    unfolding day_from_year_def 4 100 400 leap_def by (rule leap_sum)
qed

lemma day_from_year_bounds:
  "400 * day_from_year y \<le> 146097 * (y - 1970) + 800"
  "146097 * (y - 1970) - 800 \<le> 400 * day_from_year y"
proof -
  define a b c where "a = (y - 1969) div 4" "b = (y - 1901) div 100" "c = (y - 1601) div 400"
  note abc = this
  have a: "400 * a \<le> 100 * y - 196900" "100 * y - 197200 \<le> 400 * a"
    using div_bracket [of 4 "y - 1969"] by (simp_all add: abc)
  have b: "400 * b \<le> 4 * y - 7604" "4 * y - 8000 \<le> 400 * b"
    using div_bracket [of 100 "y - 1901"] by (simp_all add: abc)
  have c: "400 * c \<le> y - 1601" "y - 2000 \<le> 400 * c"
    using div_bracket [of 400 "y - 1601"] by (simp_all add: abc)
  have d: "400 * day_from_year y = 146000 * y - 287620000 + 400 * a - 400 * b + 400 * c"
    by (simp add: day_from_year_def abc algebra_simps)
  show "400 * day_from_year y \<le> 146097 * (y - 1970) + 800"
    unfolding d using a(1) b(2) c(1) by simp
  show "146097 * (y - 1970) - 800 \<le> 400 * day_from_year y"
    unfolding d using a(2) b(1) c(2) by simp
qed

lemma year_estimate:
  assumes "146097 * (y - 1970) \<le> 400 * d" "400 * d \<le> 146097 * (y - 1970) + 146096"
  shows "day_from_year (y - 1) \<le> d" "d < day_from_year (y + 2)"
  using assms day_from_year_bounds(1) [of "y - 1"] day_from_year_bounds(2) [of "y + 2"]
  by (simp_all add: algebra_simps)

lemma year_of_day_brackets:
  "day_from_year (year_of_day d) \<le> d \<and> d < day_from_year (year_of_day d + 1)"
proof -
  define y where "y = 1970 + (400 * d) div 146097"
  have y: "146097 * (y - 1970) \<le> 400 * d" "400 * d \<le> 146097 * (y - 1970) + 146096"
    using div_bracket [of 146097 "400 * d"] by (simp_all add: y_def)
  show ?thesis
    using year_estimate [OF y] unfolding year_of_day_def Let_def y_def [symmetric]
    by (auto simp: add.assoc)
qed

lemma yday_bounds: "0 \<le> yday t \<and> yday t < 365 + (if leap (getUTCFullYear t) then 1 else 0)"
  using year_of_day_brackets [of "day_of t"] day_from_year_Suc [of "getUTCFullYear t"]
  by (auto simp: yday_def getUTCFullYear_def)

lemma month_bounds: "0 \<le> month_of_yday l d \<and> month_of_yday l d \<le> 11"
  by (simp add: month_of_yday_def)

lemma month_start_values:
  "month_start l 0 = 0" "month_start l 1 = 31"
  "month_start l 2 = (if l then 60 else 59)" "month_start l 3 = (if l then 91 else 90)"
  "month_start l 4 = (if l then 121 else 120)" "month_start l 5 = (if l then 152 else 151)"
  "month_start l 6 = (if l then 182 else 181)" "month_start l 7 = (if l then 213 else 212)"
  "month_start l 8 = (if l then 244 else 243)" "month_start l 9 = (if l then 274 else 273)"
  "month_start l 10 = (if l then 305 else 304)" "month_start l 11 = (if l then 335 else 334)"
  by (simp_all add: month_start_def)

lemma mday_bounds:
  assumes "0 \<le> d" "d < 365 + (if l then 1 else 0)"
  shows "0 \<le> d - month_start l (month_of_yday l d) \<and> d - month_start l (month_of_yday l d) \<le> 30"
proof (cases l)
  case True
  with assms show ?thesis
    unfolding month_of_yday_def by (simp split: if_split add: month_start_values)
next
  case False
  with assms show ?thesis
    unfolding month_of_yday_def by (simp split: if_split add: month_start_values)
qed

lemma getUTCMonth_bounds: "0 \<le> getUTCMonth t \<and> getUTCMonth t \<le> 11"
  by (simp add: getUTCMonth_def month_bounds)

lemma getUTCDate_bounds: "1 \<le> getUTCDate t \<and> getUTCDate t \<le> 31"
  using mday_bounds [of "yday t" "leap (getUTCFullYear t)"] yday_bounds [of t]
  by (auto simp: getUTCDate_def getUTCMonth_def)

lemma div_minute_hour: "m div 3600000 = m div 60000 div 60" "m div 60000 = m div 1000 div 60"
  for m :: int by (simp_all add: zdiv_zmult2_eq [symmetric])

lemma time_bounds:
  "0 \<le> getUTCHours t \<and> getUTCHours t \<le> 23"
  "0 \<le> getUTCMinutes t \<and> getUTCMinutes t \<le> 59"
  "0 \<le> getUTCSeconds t \<and> getUTCSeconds t \<le> 59"
  "0 \<le> getUTCMilliseconds t \<and> getUTCMilliseconds t \<le> 999"
proof -
  have m: "0 \<le> ms_of_day t" "ms_of_day t < 86400000" by (simp_all add: ms_of_day_def)
  show "0 \<le> getUTCHours t \<and> getUTCHours t \<le> 23"
    using m div_bracket [of 3600000 "ms_of_day t"] by (simp add: getUTCHours_def)
  show "0 \<le> getUTCMinutes t \<and> getUTCMinutes t \<le> 59"
    using pos_mod_bound [of 60 "ms_of_day t div 60000"] by (simp add: getUTCMinutes_def)
  show "0 \<le> getUTCSeconds t \<and> getUTCSeconds t \<le> 59"
    using pos_mod_bound [of 60 "ms_of_day t div 1000"] by (simp add: getUTCSeconds_def)
  show "0 \<le> getUTCMilliseconds t \<and> getUTCMilliseconds t \<le> 999"
    using pos_mod_bound [of 1000 "ms_of_day t"] by (simp add: getUTCMilliseconds_def)
qed

section \<open>Back to the time value\<close>

definition make_time :: "int \<Rightarrow> int \<Rightarrow> int \<Rightarrow> int \<Rightarrow> int \<Rightarrow> int \<Rightarrow> int \<Rightarrow> int" where
  "make_time y mo d h mi s ms =
     (day_from_year y + month_start (leap y) (mo - 1) + d - 1) * 86400000 +
     h * 3600000 + mi * 60000 + s * 1000 + ms"

lemma ms_of_day_split:
  "ms_of_day t = getUTCHours t * 3600000 + getUTCMinutes t * 60000 + getUTCSeconds t * 1000 +
     getUTCMilliseconds t"
  unfolding getUTCHours_def getUTCMinutes_def getUTCSeconds_def getUTCMilliseconds_def
    div_minute_hour
  using mult_div_mod_eq [of 1000 "ms_of_day t"] mult_div_mod_eq [of 60 "ms_of_day t div 1000"]
    mult_div_mod_eq [of 60 "ms_of_day t div 1000 div 60"]
  by linarith

lemma make_time_components:
  "make_time (getUTCFullYear t) (getUTCMonth t + 1) (getUTCDate t) (getUTCHours t)
     (getUTCMinutes t) (getUTCSeconds t) (getUTCMilliseconds t) = t"
proof -
  have "day_of t * 86400000 + ms_of_day t = t" by (simp add: day_of_def ms_of_day_def)
  then show ?thesis
    by (simp add: make_time_def getUTCDate_def yday_def ms_of_day_split)
qed

section \<open>Reading the fixed-width fields\<close>

lemma dec_value_zeros: "dec_value (replicate k CHR ''0'' @ s) = dec_value s"
proof (induction k)
  case (Suc k)
  then show ?case by (simp add: dec_value_def digit_value_def)
qed simp

lemma length_nat_dec: "0 < w \<Longrightarrow> n < 10 ^ w \<Longrightarrow> length (nat_dec n) \<le> w"
proof (induction w arbitrary: n)
  case (Suc w)
  show ?case
  proof (cases "n < 10")
    case True
    then show ?thesis by (subst nat_dec.simps) simp
  next
    case False
    with Suc.prems have "0 < w" by (cases w) auto
    moreover from Suc.prems have "n div 10 < 10 ^ w" by auto
    ultimately have "length (nat_dec (n div 10)) \<le> w" by (rule Suc.IH)
    with False show ?thesis by (subst nat_dec.simps) simp
  qed
qed simp

lemma length_pad:
  assumes "0 < w" "0 \<le> n" "n < 10 ^ w"
  shows "length (pad w n) = w"
proof -
  from assms have "nat n < 10 ^ w" by (simp add: nat_less_iff)
  then have "length (nat_dec (nat n)) \<le> w" using assms(1) by (intro length_nat_dec)
  with assms show ?thesis by (simp add: pad_def dec_def length_padStart)
qed

lemma dec_value_pad: "0 \<le> n \<Longrightarrow> int (dec_value (pad w n)) = n"
  by (simp add: pad_def padStart_def dec_def dec_value_zeros)

lemma take_pad: "0 < w \<Longrightarrow> 0 \<le> n \<Longrightarrow> n < 10 ^ w \<Longrightarrow> take w (pad w n @ r) = pad w n"
  by (simp add: length_pad)

lemma drop_pad:
  "0 < w \<Longrightarrow> 0 \<le> n \<Longrightarrow> n < 10 ^ w \<Longrightarrow> drop k (pad w n @ r) = (if k \<le> w then drop k (pad w n) @ r else drop (k - w) r)"
  by (simp add: length_pad)

definition field :: "nat \<Rightarrow> nat \<Rightarrow> string \<Rightarrow> int" where
  "field i w s = int (dec_value (take w (drop i s)))"

text \<open>The reference reader of the \<open>LocalDateTime\<close> form: seconds and milliseconds are optional.\<close>

definition read_local :: "string \<Rightarrow> int" where
  "read_local s = make_time (field 0 4 s) (field 5 2 s) (field 8 2 s) (field 11 2 s) (field 14 2 s)
     (if length s \<le> 16 then 0 else field 17 2 s) (if length s \<le> 19 then 0 else field 20 3 s)"

text \<open>And of the \<open>Instant\<close> form: a trailing \<open>Z\<close>, milliseconds optional.\<close>

definition read_instant :: "string \<Rightarrow> int" where
  "read_instant s = make_time (field 0 4 s) (field 5 2 s) (field 8 2 s) (field 11 2 s) (field 14 2 s)
     (field 17 2 s) (if length s \<le> 20 then 0 else field 20 3 s)"

definition four_digit_year :: "int \<Rightarrow> bool" where
  "four_digit_year t \<longleftrightarrow> 0 \<le> getUTCFullYear t \<and> getUTCFullYear t \<le> 9999"

lemma length_pads:
  assumes "four_digit_year t"
  shows "length (pad 4 (getUTCFullYear t)) = 4" "length (pad 2 (getUTCMonth t + 1)) = 2"
    "length (pad 2 (getUTCDate t)) = 2" "length (pad 2 (getUTCHours t)) = 2"
    "length (pad 2 (getUTCMinutes t)) = 2" "length (pad 2 (getUTCSeconds t)) = 2"
    "length (pad 3 (getUTCMilliseconds t)) = 3"
  using assms getUTCMonth_bounds [of t] getUTCDate_bounds [of t] time_bounds [of t]
  by (auto simp: four_digit_year_def intro!: length_pad)

lemma values_pads:
  assumes "four_digit_year t"
  shows "int (dec_value (pad 4 (getUTCFullYear t))) = getUTCFullYear t"
    "int (dec_value (pad 2 (getUTCMonth t + 1))) = getUTCMonth t + 1"
    "int (dec_value (pad 2 (getUTCDate t))) = getUTCDate t"
    "int (dec_value (pad 2 (getUTCHours t))) = getUTCHours t"
    "int (dec_value (pad 2 (getUTCMinutes t))) = getUTCMinutes t"
    "int (dec_value (pad 2 (getUTCSeconds t))) = getUTCSeconds t"
    "int (dec_value (pad 3 (getUTCMilliseconds t))) = getUTCMilliseconds t"
  using assms getUTCMonth_bounds [of t] getUTCDate_bounds [of t] time_bounds [of t]
  by (auto simp: four_digit_year_def intro!: dec_value_pad)

lemma pad_2_0 [simp]: "length (pad 2 0) = 2" "dec_value (pad 2 0) = 0"
  using length_pad [of 2 0] dec_value_pad [of 0 2] by simp_all

lemma read_local_toLocalDateTimeString:
  assumes "four_digit_year t"
  shows "read_local (toLocalDateTimeString t) = t"
proof -
  note s = length_pads [OF assms] values_pads [OF assms]
  have "read_local (toLocalDateTimeString t) =
    make_time (getUTCFullYear t) (getUTCMonth t + 1) (getUTCDate t) (getUTCHours t)
     (getUTCMinutes t) (getUTCSeconds t) (getUTCMilliseconds t)"
    by (cases "getUTCMilliseconds t = 0"; cases "getUTCSeconds t = 0")
      (simp_all add: read_local_def toLocalDateTimeString_def field_def Let_def s)
  then show ?thesis by (simp add: make_time_components)
qed

lemma replace_first_suffix:
  "p \<noteq> [] \<Longrightarrow> hd p \<notin> set s \<Longrightarrow> replace_first p r (s @ p) = s @ r"
proof (induction s)
  case Nil
  then show ?case by (subst replace_first.simps) simp
next
  case (Cons c s)
  then have "take (length p) ((c # s) @ p) \<noteq> p" by (cases p) auto
  with Cons show ?case by (subst replace_first.simps) simp
qed

lemma dot_notin_pad: "0 \<le> n \<Longrightarrow> CHR ''.'' \<notin> set (pad w n)"
  using list_all_nat_dec [of "nat n"]
  by (auto simp: pad_def padStart_def dec_def list_all_iff is_digit_def)

text \<open>The instant without its milliseconds, which both forms of \<open>toInstantString\<close> start with.\<close>

definition instant_seconds :: "int \<Rightarrow> string" where
  "instant_seconds t = pad 4 (getUTCFullYear t) @ ''-'' @ pad 2 (getUTCMonth t + 1) @ ''-'' @
     pad 2 (getUTCDate t) @ ''T'' @ pad 2 (getUTCHours t) @ '':'' @ pad 2 (getUTCMinutes t) @
     '':'' @ pad 2 (getUTCSeconds t)"

lemma toInstantString_form:
  assumes "four_digit_year t"
  shows "toInstantString t = instant_seconds t @
    (if getUTCMilliseconds t = 0 then ''Z'' else ''.'' @ pad 3 (getUTCMilliseconds t) @ ''Z'')"
proof -
  have "CHR ''.'' \<notin> set (instant_seconds t)"
    using assms getUTCMonth_bounds [of t] getUTCDate_bounds [of t] time_bounds [of t]
    by (simp add: instant_seconds_def four_digit_year_def dot_notin_pad)
  then have "replace_first ''.000Z'' ''Z'' (instant_seconds t @ ''.000Z'') = instant_seconds t @ ''Z''"
    by (intro replace_first_suffix) simp_all
  moreover have "pad 3 0 = ''000''" by code_simp
  ultimately show ?thesis using assms
    by (simp add: toInstantString_def toISOString_def iso_year_def four_digit_year_def
        instant_seconds_def Let_def)
qed

lemma read_instant_toInstantString:
  assumes "four_digit_year t"
  shows "read_instant (toInstantString t) = t"
proof -
  note s = length_pads [OF assms] values_pads [OF assms]
  have "read_instant (toInstantString t) =
    make_time (getUTCFullYear t) (getUTCMonth t + 1) (getUTCDate t) (getUTCHours t)
     (getUTCMinutes t) (getUTCSeconds t) (getUTCMilliseconds t)"
    by (cases "getUTCMilliseconds t = 0")
      (simp_all add: read_instant_def toInstantString_form [OF assms] instant_seconds_def
        field_def s)
  then show ?thesis by (simp add: make_time_components)
qed

end
