(* ===== verification/Json.thy ===== *)
theory Json imports Js_Lib begin

text \<open>
  \<open>JSON.stringify\<close> and \<open>JSON.parse\<close> of the JavaScript library, on the values the services
  exchange: objects, arrays, strings, integers, booleans and \<open>null\<close>.  An object is its list of
  properties in insertion order; parsing a repeated key overwrites the first one in place.
  Numerals with a fraction or an exponent and escapes above \<open>\u00ff\<close> do not occur in what the
  services write; the parser rejects them.  \<open>JSON_parse\<close> recurses on fuel: every second call
  consumes a character, so twice the length of the input is enough.
\<close>

datatype json =
    JNull
  | JBool bool
  | JNum int
  | JStr string
  | JArr "json list"
  | JObj "(string \<times> json) list"

section \<open>stringify\<close>

definition hex_digit :: "nat \<Rightarrow> char" where
  "hex_digit d = (if d < 10 then char_of (48 + d) else char_of (87 + d))"

abbreviation (input) dquote :: char where
  "dquote \<equiv> CHR 0x22"

abbreviation (input) backslash :: char where
  "backslash \<equiv> CHR 0x5C"

definition esc_char :: "char \<Rightarrow> string" where
  "esc_char c =
    (if c = dquote \<or> c = backslash then [backslash, c]
     else if c = CHR 0x08 then [backslash, CHR ''b'']
     else if c = CHR 0x09 then [backslash, CHR ''t'']
     else if c = CHR 0x0A then [backslash, CHR ''n'']
     else if c = CHR 0x0C then [backslash, CHR ''f'']
     else if c = CHR 0x0D then [backslash, CHR ''r'']
     else if (of_char c :: nat) < 32 then
       [backslash, CHR ''u'', CHR ''0'', CHR ''0'',
        hex_digit (of_char c div 16), hex_digit (of_char c mod 16)]
     else [c])"

definition quote :: "string \<Rightarrow> string" where
  "quote s = dquote # concat (map esc_char s) @ [dquote]"

fun join :: "string list \<Rightarrow> string" where
  "join [] = []"
| "join [s] = s"
| "join (s # t # r) = s @ CHR '','' # join (t # r)"

fun JSON_stringify :: "json \<Rightarrow> string" where
  "JSON_stringify JNull = ''null''"
| "JSON_stringify (JBool b) = (if b then ''true'' else ''false'')"
| "JSON_stringify (JNum n) = dec n"
| "JSON_stringify (JStr s) = quote s"
| "JSON_stringify (JArr xs) = ''['' @ join (map JSON_stringify xs) @ '']''"
| "JSON_stringify (JObj kvs) =
     CHR ''{'' # join (map (\<lambda>(k, v). quote k @ CHR '':'' # JSON_stringify v) kvs) @ ''}''"

section \<open>parse\<close>

definition is_ws :: "char \<Rightarrow> bool" where
  "is_ws c \<longleftrightarrow> (of_char c :: nat) \<in> {9, 10, 13, 32}"

definition skip_ws :: "string \<Rightarrow> string" where
  "skip_ws s = dropWhile is_ws s"

definition hex_value :: "char \<Rightarrow> nat option" where
  "hex_value c = (let n = (of_char c :: nat) in
     if 48 \<le> n \<and> n \<le> 57 then Some (n - 48)
     else if 97 \<le> n \<and> n \<le> 102 then Some (n - 87)
     else if 65 \<le> n \<and> n \<le> 70 then Some (n - 55)
     else None)"

definition unescape :: "char \<Rightarrow> char option" where
  "unescape c = (if c = dquote \<or> c = backslash \<or> c = CHR ''/'' then Some c
     else if c = CHR ''b'' then Some (CHR 0x08) else if c = CHR ''t'' then Some (CHR 0x09)
     else if c = CHR ''n'' then Some (CHR 0x0A) else if c = CHR ''f'' then Some (CHR 0x0C)
     else if c = CHR ''r'' then Some (CHR 0x0D) else None)"

definition hex4 :: "char \<Rightarrow> char \<Rightarrow> char \<Rightarrow> char \<Rightarrow> char option" where
  "hex4 a b c d = (if a \<noteq> CHR ''0'' \<or> b \<noteq> CHR ''0'' then None
     else (case (hex_value c, hex_value d) of
         (Some x, Some y) \<Rightarrow> Some (char_of (16 * x + y))
       | _ \<Rightarrow> None))"

definition cons_fst :: "char \<Rightarrow> (string \<times> string) option \<Rightarrow> (string \<times> string) option" where
  "cons_fst c r = map_option (\<lambda>(s, t). (c # s, t)) r"

text \<open>The characters after the opening quote, up to the closing one.\<close>

fun parse_str :: "string \<Rightarrow> (string \<times> string) option" where
  "parse_str [] = None"
| "parse_str (c # cs) =
    (if c = dquote then Some ([], cs)
     else if c = backslash then
       (case cs of
          [] \<Rightarrow> None
        | e # r \<Rightarrow>
            if e = CHR ''u'' then
              (case r of
                 h1 # h2 # h3 # h4 # r' \<Rightarrow>
                   (case hex4 h1 h2 h3 h4 of None \<Rightarrow> None | Some x \<Rightarrow> cons_fst x (parse_str r'))
               | _ \<Rightarrow> None)
            else (case unescape e of None \<Rightarrow> None | Some x \<Rightarrow> cons_fst x (parse_str r)))
     else if (of_char c :: nat) < 32 then None
     else cons_fst c (parse_str cs))"

text \<open>An integer numeral without leading zeros.\<close>

definition parse_nat :: "string \<Rightarrow> (nat \<times> string) option" where
  "parse_nat s = (let ds = takeWhile is_digit s; r = dropWhile is_digit s in
     if ds = [] \<or> (hd ds = CHR ''0'' \<and> tl ds \<noteq> []) then None
     else if r \<noteq> [] \<and> hd r \<in> {CHR ''.'', CHR ''e'', CHR ''E''} then None
     else Some (dec_value ds, r))"

definition parse_num :: "string \<Rightarrow> (json \<times> string) option" where
  "parse_num s = (case s of
      [] \<Rightarrow> None
    | c # cs \<Rightarrow>
        if c = CHR ''-'' then map_option (\<lambda>(n, r). (JNum (- int n), r)) (parse_nat cs)
        else map_option (\<lambda>(n, r). (JNum (int n), r)) (parse_nat s))"

definition literal :: "string \<Rightarrow> json \<Rightarrow> string \<Rightarrow> (json \<times> string) option" where
  "literal w v s = (if take (length w) s = w then Some (v, drop (length w) s) else None)"

definition obj_put :: "string \<Rightarrow> json \<Rightarrow> (string \<times> json) list \<Rightarrow> (string \<times> json) list" where
  "obj_put k v kvs = (if k \<in> fst ` set kvs
     then map (\<lambda>(k', v'). if k' = k then (k', v) else (k', v')) kvs else kvs @ [(k, v)])"

definition obj_of :: "(string \<times> json) list \<Rightarrow> (string \<times> json) list" where
  "obj_of kvs = foldl (\<lambda>o' (k, v). obj_put k v o') [] kvs"

fun parse_value :: "nat \<Rightarrow> string \<Rightarrow> (json \<times> string) option"
  and parse_elems :: "nat \<Rightarrow> string \<Rightarrow> (json list \<times> string) option"
  and parse_members :: "nat \<Rightarrow> string \<Rightarrow> ((string \<times> json) list \<times> string) option" where
  "parse_value 0 s = None"
| "parse_value (Suc f) s = (case skip_ws s of
      [] \<Rightarrow> None
    | c # cs \<Rightarrow>
        if c = CHR ''n'' then literal ''null'' JNull (c # cs)
        else if c = CHR ''t'' then literal ''true'' (JBool True) (c # cs)
        else if c = CHR ''f'' then literal ''false'' (JBool False) (c # cs)
        else if c = dquote then map_option (\<lambda>(s, r). (JStr s, r)) (parse_str cs)
        else if c = CHR ''['' then
          (case skip_ws cs of
             [] \<Rightarrow> None
           | d # ds \<Rightarrow> if d = CHR '']'' then Some (JArr [], ds)
               else map_option (\<lambda>(xs, r). (JArr xs, r)) (parse_elems f (d # ds)))
        else if c = CHR ''{'' then
          (case skip_ws cs of
             [] \<Rightarrow> None
           | d # ds \<Rightarrow> if d = CHR ''}'' then Some (JObj [], ds)
               else map_option (\<lambda>(kvs, r). (JObj (obj_of kvs), r)) (parse_members f (d # ds)))
        else parse_num (c # cs))"
| "parse_elems 0 s = None"
| "parse_elems (Suc f) s = (case parse_value f s of
      None \<Rightarrow> None
    | Some (v, r) \<Rightarrow> (case skip_ws r of
        [] \<Rightarrow> None
      | c # cs \<Rightarrow>
          if c = CHR '','' then map_option (\<lambda>(vs, r). (v # vs, r)) (parse_elems f cs)
          else if c = CHR '']'' then Some ([v], cs) else None))"
| "parse_members 0 s = None"
| "parse_members (Suc f) s = (case skip_ws s of
      [] \<Rightarrow> None
    | q # qs \<Rightarrow> if q \<noteq> dquote then None else
      (case parse_str qs of
         None \<Rightarrow> None
       | Some (k, r) \<Rightarrow> (case skip_ws r of
           [] \<Rightarrow> None
         | c # cs \<Rightarrow> if c \<noteq> CHR '':'' then None else
           (case parse_value f cs of
              None \<Rightarrow> None
            | Some (v, r) \<Rightarrow> (case skip_ws r of
                [] \<Rightarrow> None
              | d # ds \<Rightarrow>
                  if d = CHR '','' then map_option (\<lambda>(kvs, r). ((k, v) # kvs, r)) (parse_members f ds)
                  else if d = CHR ''}'' then Some ([(k, v)], ds) else None)))))"

definition JSON_parse :: "string \<Rightarrow> json option" where
  "JSON_parse s = (case parse_value (2 * length s + 2) s of
      None \<Rightarrow> None
    | Some (v, r) \<Rightarrow> if skip_ws r = [] then Some v else None)"

section \<open>Round trip\<close>

text \<open>Objects as the services build them: no property twice.\<close>

fun wf_json :: "json \<Rightarrow> bool" where
  "wf_json (JArr xs) = list_all wf_json xs"
| "wf_json (JObj kvs) = (distinct (map fst kvs) \<and> list_all (\<lambda>(k, v). wf_json v) kvs)"
| "wf_json _ = True"

lemma hex_value_digit: "d < 16 \<Longrightarrow> hex_value (hex_digit d) = Some d"
  by (auto simp: hex_value_def hex_digit_def Let_def)

lemma hex4_digits:
  "hex4 CHR ''0'' CHR ''0'' (hex_digit ((of_char c :: nat) div 16)) (hex_digit (of_char c mod 16)) = Some c"
proof -
  have "(of_char c :: nat) < 256" by simp
  then have "(of_char c :: nat) div 16 < 16" by linarith
  then show ?thesis by (simp add: hex4_def hex_value_digit)
qed

lemma esc_char_parse: "parse_str (esc_char c @ r) = cons_fst c (parse_str r)"
proof -
  let ?S = "{CHR 0x08, CHR 0x09, CHR 0x0A, CHR 0x0C, CHR 0x0D}"
  consider "c = dquote \<or> c = backslash" | "c \<in> ?S"
    | "c \<notin> ?S" "c \<noteq> dquote \<and> c \<noteq> backslash" "(of_char c :: nat) < 32"
    | "c \<notin> ?S" "c \<noteq> dquote \<and> c \<noteq> backslash" "\<not> (of_char c :: nat) < 32"
    by blast
  then show ?thesis
  proof cases
    case 1
    then show ?thesis by (auto simp: esc_char_def unescape_def)
  next
    case 2
    then show ?thesis by (auto simp: esc_char_def unescape_def)
  next
    case 3
    then have "esc_char c = [backslash, CHR ''u'', CHR ''0'', CHR ''0'',
        hex_digit (of_char c div 16), hex_digit (of_char c mod 16)]"
      by (simp add: esc_char_def)
    then show ?thesis by (simp add: hex4_digits)
  next
    case 4
    then have "esc_char c = [c]" by (simp add: esc_char_def)
    with 4 show ?thesis by simp
  qed
qed

lemma parse_str_quote: "parse_str (concat (map esc_char s) @ dquote # r) = Some (s, r)"
  by (induction s) (simp_all add: esc_char_parse cons_fst_def)

text \<open>What may follow a numeral.\<close>

definition num_stop :: "string \<Rightarrow> bool" where
  "num_stop r \<longleftrightarrow> (case r of [] \<Rightarrow> True | c # _ \<Rightarrow> c \<in> {CHR '','', CHR '']'', CHR ''}''})"

lemma num_stopD:
  assumes "num_stop r"
  shows "takeWhile is_digit r = []" "dropWhile is_digit r = r"
    "r \<noteq> [] \<Longrightarrow> hd r \<notin> {CHR ''.'', CHR ''e'', CHR ''E''}"
  using assms by (auto simp: num_stop_def is_digit_def split: list.splits)

lemma nat_dec_zero: "hd (nat_dec n) = CHR ''0'' \<Longrightarrow> tl (nat_dec n) = []"
proof (induction n rule: nat_dec.induct)
  case (1 n)
  show ?case
  proof (cases "n < 10")
    case True
    then show ?thesis by (subst nat_dec.simps) simp
  next
    case False
    then have s: "nat_dec n = nat_dec (n div 10) @ [digit_char (n mod 10)]"
      by (subst nat_dec.simps) simp
    with 1 False have "tl (nat_dec (n div 10)) = []" "hd (nat_dec (n div 10)) = CHR ''0''"
      by auto
    then have "nat_dec (n div 10) = ''0''" by (cases "nat_dec (n div 10)") auto
    then have "dec_value (nat_dec (n div 10)) = 0" by (simp add: dec_value_def digit_value_def)
    with False show ?thesis by simp
  qed
qed

lemma parse_nat_dec: "num_stop r \<Longrightarrow> parse_nat (nat_dec n @ r) = Some (n, r)"
  using list_all_nat_dec [of n] nat_dec_zero [of n] num_stopD(3) [of r]
  by (auto simp: parse_nat_def Let_def num_stopD takeWhile_append dropWhile_append list_all_iff)

lemma parse_num_dec: "num_stop r \<Longrightarrow> parse_num (dec n @ r) = Some (JNum n, r)"
  using parse_nat_dec [of r "nat n"] nat_dec_head [of "nat n"]
  by (cases "nat_dec (nat n)") (auto simp: parse_num_def dec_def parse_nat_dec)

text \<open>The first character of a rendering decides the branch of the parser.\<close>

definition val_head :: "char \<Rightarrow> bool" where
  "val_head c \<longleftrightarrow> \<not> is_ws c \<and> c \<noteq> CHR '']'' \<and> c \<noteq> CHR ''}'' \<and> c \<noteq> CHR '',''"

lemma digit_no_ws: "is_digit c \<Longrightarrow> val_head c \<and> c \<notin> {CHR ''n'', CHR ''t'', CHR ''f'', dquote, CHR ''['', CHR ''{''}"
  by (auto simp: is_digit_def val_head_def is_ws_def)

lemma dec_head: "\<exists>c r. dec n = c # r \<and> val_head c \<and> c \<notin> {CHR ''n'', CHR ''t'', CHR ''f'', dquote, CHR ''['', CHR ''{''}"
proof (cases "n < 0")
  case True
  then show ?thesis by (simp add: dec_def val_head_def is_ws_def)
next
  case False
  obtain c r where "nat_dec (nat n) = c # r" by (cases "nat_dec (nat n)") auto
  moreover with list_all_nat_dec [of "nat n"] have "is_digit c" by simp
  ultimately show ?thesis using False digit_no_ws by (simp add: dec_def)
qed

lemma quote_Cons: "quote s = dquote # concat (map esc_char s) @ [dquote]"
  by (simp add: quote_def)

lemma stringify_head: "\<exists>c r. JSON_stringify v = c # r \<and> val_head c"
proof (cases v)
  case (JNum n)
  with dec_head [of n] show ?thesis by auto
qed (simp_all add: quote_def val_head_def is_ws_def)

lemma skip_ws_head: "val_head c \<Longrightarrow> skip_ws (c # r) = c # r"
  by (simp add: skip_ws_def val_head_def)

lemma skip_ws_stop [simp]:
  "skip_ws (CHR '','' # r) = CHR '','' # r" "skip_ws (CHR '']'' # r) = CHR '']'' # r"
  "skip_ws (CHR ''}'' # r) = CHR ''}'' # r" "skip_ws (CHR '':'' # r) = CHR '':'' # r"
  "skip_ws (dquote # r) = dquote # r" "skip_ws (CHR ''['' # r) = CHR ''['' # r"
  "skip_ws (CHR ''{'' # r) = CHR ''{'' # r" "skip_ws [] = []"
  by (simp_all add: skip_ws_def is_ws_def)

lemma num_stop_simps [simp]:
  "num_stop []" "num_stop (CHR '','' # r)" "num_stop (CHR '']'' # r)" "num_stop (CHR ''}'' # r)"
  by (simp_all add: num_stop_def)

lemma parse_value_head:
  assumes "val_head c" "c \<notin> {CHR ''n'', CHR ''t'', CHR ''f'', dquote, CHR ''['', CHR ''{''}"
  shows "parse_value (Suc f) (c # cs) = parse_num (c # cs)"
  using assms(2) unfolding parse_value.simps skip_ws_head [OF assms(1)] by simp

lemma obj_of_distinct: "distinct (map fst kvs) \<Longrightarrow> obj_of kvs = kvs"
proof (induction kvs rule: rev_induct)
  case (snoc kv kvs)
  then show ?case
    by (cases kv) (auto simp: obj_of_def obj_put_def)
qed (simp add: obj_of_def)

definition member_text :: "string \<times> json \<Rightarrow> string" where
  "member_text = (\<lambda>(k, v). quote k @ CHR '':'' # JSON_stringify v)"

lemma parse_num_value:
  assumes "num_stop r"
  shows "parse_value (Suc f) (dec n @ r) = Some (JNum n, r)"
proof -
  from dec_head [of n] obtain c cs where c: "dec n = c # cs" "val_head c"
      "c \<notin> {CHR ''n'', CHR ''t'', CHR ''f'', dquote, CHR ''['', CHR ''{''}"
    by (elim exE conjE)
  have "parse_value (Suc f) (dec n @ r) = parse_num (dec n @ r)"
    unfolding c(1) append_Cons by (rule parse_value_head [OF c(2,3)])
  with assms show ?thesis by (simp only: parse_num_dec)
qed

lemma parse_elems_join:
  assumes v: "\<And>v f r. v \<in> set xs \<Longrightarrow> 2 * length (JSON_stringify v) \<le> f \<Longrightarrow> num_stop r \<Longrightarrow>
      parse_value f (JSON_stringify v @ r) = Some (v, r)"
    and "xs \<noteq> []" "2 * length (join (map JSON_stringify xs)) + 1 \<le> f"
  shows "parse_elems f (join (map JSON_stringify xs) @ CHR '']'' # r) = Some (xs, r)"
  using assms
proof (induction xs arbitrary: f)
  case (Cons x xs)
  from Cons.prems(3) obtain g where f: "f = Suc g" by (cases f) auto
  show ?case
  proof (cases xs)
    case Nil
    with Cons.prems f show ?thesis by simp
  next
    case (Cons y ys)
    then have j: "join (map JSON_stringify (x # xs)) = JSON_stringify x @ CHR '','' # join (map JSON_stringify xs)"
      by simp
    have "parse_elems g (join (map JSON_stringify xs) @ CHR '']'' # r) = Some (xs, r)"
      using Cons.prems f j Cons by (intro Cons.IH) auto
    moreover have "parse_value g (JSON_stringify x @ CHR '','' # join (map JSON_stringify xs) @ CHR '']'' # r)
        = Some (x, CHR '','' # join (map JSON_stringify xs) @ CHR '']'' # r)"
      using Cons.prems(3) f j by (intro Cons.prems(1)) auto
    ultimately show ?thesis unfolding f j by simp
  qed
qed simp

lemma JSON_stringify_obj:
  "JSON_stringify (JObj kvs) = CHR ''{'' # join (map member_text kvs) @ ''}''"
  by (simp add: member_text_def)

lemma parse_member:
  assumes "parse_value g (JSON_stringify v @ r) = Some (v, r)"
  shows "parse_members (Suc g) (member_text (k, v) @ r) =
    (case skip_ws r of [] \<Rightarrow> None
      | d # ds \<Rightarrow> if d = CHR '','' then map_option (\<lambda>(kvs, r). ((k, v) # kvs, r)) (parse_members g ds)
                  else if d = CHR ''}'' then Some ([(k, v)], ds) else None)"
  using assms by (simp add: member_text_def quote_Cons parse_str_quote)

lemma parse_members_join:
  assumes v: "\<And>v f r. v \<in> snd ` set kvs \<Longrightarrow> 2 * length (JSON_stringify v) \<le> f \<Longrightarrow> num_stop r \<Longrightarrow>
      parse_value f (JSON_stringify v @ r) = Some (v, r)"
    and "kvs \<noteq> []" "2 * length (join (map member_text kvs)) + 1 \<le> f"
  shows "parse_members f (join (map member_text kvs) @ CHR ''}'' # r) = Some (kvs, r)"
  using assms
proof (induction kvs arbitrary: f)
  case (Cons kv kvs)
  obtain k v where kv: "kv = (k, v)" by (cases kv)
  from Cons.prems(3) obtain g where f: "f = Suc g" by (cases f) auto
  have len: "length (JSON_stringify v) \<le> length (member_text kv)"
    by (simp add: kv member_text_def)
  show ?case
  proof (cases kvs)
    case Nil
    with Cons.prems(3) f len have "2 * length (JSON_stringify v) \<le> g" by simp
    with Cons.prems(1) kv have "parse_value g (JSON_stringify v @ CHR ''}'' # r) = Some (v, CHR ''}'' # r)"
      by simp
    then show ?thesis by (simp add: Nil f kv parse_member del: parse_members.simps)
  next
    case (Cons y ys)
    let ?t = "join (map member_text kvs) @ CHR ''}'' # r"
    have j: "join (map member_text (kv # kvs)) = member_text kv @ CHR '','' # join (map member_text kvs)"
      using Cons by simp
    have "parse_members g ?t = Some (kvs, r)"
      using Cons.prems f j Cons by (intro Cons.IH) auto
    moreover have "parse_value g (JSON_stringify v @ CHR '','' # ?t) = Some (v, CHR '','' # ?t)"
      using Cons.prems(3) f j kv len by (intro Cons.prems(1)) auto
    ultimately show ?thesis unfolding f j by (simp add: kv parse_member del: parse_members.simps)
  qed
qed simp

lemma join_head:
  assumes "\<forall>s \<in> set ss. \<exists>c r. s = c # r \<and> val_head c" "ss \<noteq> []"
  shows "\<exists>c r. join ss = c # r \<and> val_head c"
  using assms by (induction ss rule: join.induct) auto

lemma member_text_head: "\<exists>c r. member_text kv = c # r \<and> val_head c"
  by (cases kv) (simp add: member_text_def quote_def val_head_def is_ws_def)

lemma parse_value_arr:
  assumes "parse_elems f (join (map JSON_stringify xs) @ CHR '']'' # r) = Some (xs, r)" "xs \<noteq> []"
  shows "parse_value (Suc f) (JSON_stringify (JArr xs) @ r) = Some (JArr xs, r)"
proof -
  have "\<exists>c t. join (map JSON_stringify xs) = c # t \<and> val_head c"
    using assms(2) stringify_head by (intro join_head) auto
  then obtain c t where c: "join (map JSON_stringify xs) = c # t" "val_head c" by blast
  then have "c \<noteq> CHR '']''" by (simp add: val_head_def)
  with c assms(1) show ?thesis by (simp add: skip_ws_head del: parse_elems.simps)
qed

lemma parse_value_obj:
  assumes "parse_members f (join (map member_text kvs) @ CHR ''}'' # r) = Some (kvs, r)"
    and "kvs \<noteq> []" "distinct (map fst kvs)"
  shows "parse_value (Suc f) (JSON_stringify (JObj kvs) @ r) = Some (JObj kvs, r)"
proof -
  have "\<exists>c t. join (map member_text kvs) = c # t \<and> val_head c"
    using assms(2) member_text_head by (intro join_head) auto
  then obtain c t where c: "join (map member_text kvs) = c # t" "val_head c" by blast
  then have "c \<noteq> CHR ''}''" by (simp add: val_head_def)
  with c assms(1,3) show ?thesis
    unfolding JSON_stringify_obj
    by (simp add: skip_ws_head obj_of_distinct del: parse_members.simps)
qed

lemma parse_value_stringify:
  "wf_json v \<Longrightarrow> 2 * length (JSON_stringify v) \<le> f \<Longrightarrow> num_stop r \<Longrightarrow>
   parse_value f (JSON_stringify v @ r) = Some (v, r)"
proof (induction v arbitrary: f r)
  case JNull
  then show ?case by (cases f) (simp_all add: skip_ws_def is_ws_def literal_def)
next
  case (JBool b)
  then show ?case by (cases f; cases b) (simp_all add: skip_ws_def is_ws_def literal_def)
next
  case (JNum n)
  then show ?case by (cases f) (simp_all add: parse_num_value del: parse_value.simps(2))
next
  case (JStr s)
  then show ?case by (cases f) (simp_all add: quote_Cons parse_str_quote)
next
  case (JArr xs)
  then obtain g where f: "f = Suc g" by (cases f) auto
  show ?case
  proof (cases "xs = []")
    case True
    then show ?thesis by (simp add: f)
  next
    case False
    have "parse_elems g (join (map JSON_stringify xs) @ CHR '']'' # r) = Some (xs, r)"
      using JArr.prems f False
      by (intro parse_elems_join JArr.IH) (auto simp: list_all_iff)
    then show ?thesis unfolding f using False by (rule parse_value_arr)
  qed
next
  case (JObj kvs)
  then obtain g where f: "f = Suc g" by (cases f) auto
  show ?case
  proof (cases "kvs = []")
    case True
    then show ?thesis by (simp add: f)
  next
    case False
    have "parse_members g (join (map member_text kvs) @ CHR ''}'' # r) = Some (kvs, r)"
    proof (rule parse_members_join)
      fix v f r
      assume v: "v \<in> snd ` set kvs" and p: "2 * length (JSON_stringify v) \<le> f" "num_stop r"
      from v obtain kv where kv: "kv \<in> set kvs" "v = snd kv" by blast
      with JObj.prems(1) have "wf_json v" by (auto simp: list_all_iff)
      then show "parse_value f (JSON_stringify v @ r) = Some (v, r)"
        using JObj.IH [OF kv(1), of v] p kv(2) by (cases kv) (auto simp: snds.simps)
    next
      show "2 * length (join (map member_text kvs)) + 1 \<le> g"
        using JObj.prems(2) f unfolding JSON_stringify_obj by simp
    qed (rule False)
    then show ?thesis
      unfolding f using False JObj.prems(1) by (intro parse_value_obj) auto
  qed
qed

lemma JSON_parse_stringify:
  assumes "wf_json v"
  shows "JSON_parse (JSON_stringify v) = Some v"
  using parse_value_stringify [OF assms, of "2 * length (JSON_stringify v) + 2" "[]"]
  by (simp add: JSON_parse_def del: parse_value.simps)

declare parse_value.simps [simp del] parse_elems.simps [simp del] parse_members.simps [simp del]
  JSON_stringify.simps [simp del]

end
