(* ===== verification/Wire.thy ===== *)
theory Wire imports Errors Js_Date Json begin

text \<open>
  The wire vocabulary of \<open>libs/common/src/coupon\<close>: the status enums, the coupon code value
  object, the two Kafka payloads with their checks, and the acceptance result of server-b.
  The checks run on a parsed JSON value, whose properties may be missing, \<open>null\<close> or of another
  type than the interface says; the typed payload is what the rest of the code reads after the
  check.  A check accepts some values whose identifiers are not JSON numbers (\<open>"5" > 0\<close> holds in
  JavaScript); the services never write such a value and the typed reader skips it.
\<close>

section \<open>Status enums\<close>

datatype acceptance_status = ACCEPTED | DUPLICATE | ACC_SOLD_OUT | INTERNAL_ERROR

datatype result_status = R_SUCCESS | R_SOLD_OUT | R_FAILED

fun acceptance_wire :: "acceptance_status \<Rightarrow> string" where
  "acceptance_wire ACCEPTED = ''ACCEPTED''"
| "acceptance_wire DUPLICATE = ''DUPLICATE''"
| "acceptance_wire ACC_SOLD_OUT = ''SOLD_OUT''"
| "acceptance_wire INTERNAL_ERROR = ''INTERNAL_ERROR''"

fun result_wire :: "result_status \<Rightarrow> string" where
  "result_wire R_SUCCESS = ''SUCCESS''"
| "result_wire R_SOLD_OUT = ''SOLD_OUT''"
| "result_wire R_FAILED = ''FAILED''"

definition COUPON_ISSUE_RESULT_STATUSES :: "result_status list" where
  "COUPON_ISSUE_RESULT_STATUSES = [R_SUCCESS, R_SOLD_OUT, R_FAILED]"

section \<open>Coupon codes\<close>

definition CODE_LENGTH :: nat where
  "CODE_LENGTH = 12"

definition ALPHABET :: string where
  "ALPHABET = ''ABCDEFGHJKMNPQRSTVWXYZ0123456789''"

fun check_chars :: "string \<Rightarrow> (exn + unit)" where
  "check_chars [] = Inr ()"
| "check_chars (ch # r) =
     (if ch \<notin> set ALPHABET
      then Inl (InvalidArgumentError (''couponCode contains invalid character: '' @ [ch]))
      else check_chars r)"

definition CouponCode_of :: "string option \<Rightarrow> exn + string" where
  "CouponCode_of v = (case v of
      None \<Rightarrow> Inl (Plain_Error ''couponCode value must not be null'')
    | Some value \<Rightarrow>
        if length value \<noteq> CODE_LENGTH
        then Inl (InvalidArgumentError (''couponCode length must be '' @ dec (int CODE_LENGTH) @
                    '' but was '' @ dec (int (length value))))
        else (case check_chars value of Inl e \<Rightarrow> Inl e | Inr _ \<Rightarrow> Inr value))"

text \<open>\<open>rnd i\<close> is the result of the i-th call \<open>randomInt(ALPHABET.length)\<close>.\<close>

fun generate_loop :: "(nat \<Rightarrow> nat) \<Rightarrow> nat \<Rightarrow> nat \<Rightarrow> string \<Rightarrow> string" where
  "generate_loop rnd i 0 out = out"
| "generate_loop rnd i (Suc k) out = generate_loop rnd (Suc i) k (out @ [ALPHABET ! rnd i])"

definition CouponCode_generate :: "(nat \<Rightarrow> nat) \<Rightarrow> string" where
  "CouponCode_generate rnd = generate_loop rnd 0 CODE_LENGTH []"

definition valid_rnd :: "(nat \<Rightarrow> nat) \<Rightarrow> bool" where
  "valid_rnd rnd \<longleftrightarrow> (\<forall>i. rnd i < length ALPHABET)"

section \<open>Kafka payloads\<close>

text \<open>\<open>p.name\<close>: \<open>None\<close> is \<open>undefined\<close>.\<close>

definition jprop :: "string \<Rightarrow> json \<Rightarrow> json option" where
  "jprop name p = (case p of JObj kvs \<Rightarrow> map_of kvs name | _ \<Rightarrow> None)"

text \<open>\<open>x == null\<close>\<close>

definition nullish :: "json option \<Rightarrow> bool" where
  "nullish f \<longleftrightarrow> (case f of None \<Rightarrow> True | Some JNull \<Rightarrow> True | _ \<Rightarrow> False)"

text \<open>\<open>x > 0\<close>: strings and booleans are converted first, anything else is \<open>NaN\<close> or 0.\<close>

definition js_positive :: "json option \<Rightarrow> bool" where
  "js_positive f = (case f of
      Some (JNum n) \<Rightarrow> 0 < n
    | Some (JBool b) \<Rightarrow> b
    | Some (JStr s) \<Rightarrow> LONG_PATTERN s \<and> 0 < js_Number s
    | _ \<Rightarrow> False)"

text \<open>\<open>${x}\<close>\<close>

definition show_jprop :: "json option \<Rightarrow> string" where
  "show_jprop f = (case f of
      None \<Rightarrow> ''undefined'' | Some (JStr s) \<Rightarrow> s | Some v \<Rightarrow> JSON_stringify v)"

record issue_request =
  rq_requestId :: string
  rq_userId :: int
  rq_eventId :: int
  rq_couponTypeId :: int
  rq_requestedAt :: string

record issue_result =
  rs_requestId :: string
  rs_userId :: int
  rs_eventId :: int
  rs_couponTypeId :: int
  rs_status :: result_status
  rs_couponCode :: "string option"
  rs_processedAt :: string

definition type_error :: exn where
  "type_error = Plain_Error ''TypeError''"

definition assertIssueRequestPayload :: "json \<Rightarrow> exn + unit" where
  "assertIssueRequestPayload p =
    (if p = JNull then Inl type_error
     else if nullish (jprop ''requestId'' p) then Inl (Plain_Error ''requestId'')
     else (case jprop ''requestId'' p of
       Some (JStr r) \<Rightarrow>
         if blank r then Inl (InvalidArgumentError ''requestId must not be blank'')
         else if \<not> js_positive (jprop ''userId'' p)
         then Inl (InvalidArgumentError
                (''userId must be positive: '' @ show_jprop (jprop ''userId'' p)))
         else if \<not> js_positive (jprop ''eventId'' p)
         then Inl (InvalidArgumentError
                (''eventId must be positive: '' @ show_jprop (jprop ''eventId'' p)))
         else if \<not> js_positive (jprop ''couponTypeId'' p)
         then Inl (InvalidArgumentError
                (''couponTypeId must be positive: '' @ show_jprop (jprop ''couponTypeId'' p)))
         else if nullish (jprop ''requestedAt'' p) then Inl (Plain_Error ''requestedAt'')
         else Inr ()
     | _ \<Rightarrow> Inl type_error))"

definition assertIssueResultPayload :: "json \<Rightarrow> exn + unit" where
  "assertIssueResultPayload p =
    (if p = JNull then Inl type_error
     else if nullish (jprop ''requestId'' p) then Inl (Plain_Error ''requestId'')
     else if nullish (jprop ''status'' p) then Inl (Plain_Error ''status'')
     else if jprop ''status'' p \<notin> (\<lambda>s. Some (JStr (result_wire s))) ` set COUPON_ISSUE_RESULT_STATUSES
     then Inl (Plain_Error (''unknown status: '' @ show_jprop (jprop ''status'' p)))
     else if jprop ''status'' p = Some (JStr ''SUCCESS'') \<and> nullish (jprop ''couponCode'' p)
     then Inl (Plain_Error ''couponCode (status=SUCCESS)'')
     else if nullish (jprop ''processedAt'' p) then Inl (Plain_Error ''processedAt'')
     else Inr ())"

text \<open>The object a service passes to \<open>JSON.stringify\<close>, properties in the order of the code.\<close>

definition request_json :: "issue_request \<Rightarrow> json" where
  "request_json p = JObj
    [(''requestId'', JStr (rq_requestId p)), (''userId'', JNum (rq_userId p)),
     (''eventId'', JNum (rq_eventId p)), (''couponTypeId'', JNum (rq_couponTypeId p)),
     (''requestedAt'', JStr (rq_requestedAt p))]"

definition result_json :: "issue_result \<Rightarrow> json" where
  "result_json p = JObj
    [(''requestId'', JStr (rs_requestId p)), (''userId'', JNum (rs_userId p)),
     (''eventId'', JNum (rs_eventId p)), (''couponTypeId'', JNum (rs_couponTypeId p)),
     (''status'', JStr (result_wire (rs_status p))),
     (''couponCode'', (case rs_couponCode p of None \<Rightarrow> JNull | Some c \<Rightarrow> JStr c)),
     (''processedAt'', JStr (rs_processedAt p))]"

text \<open>The parsed value seen at the type of the interface.\<close>

definition request_of :: "json \<Rightarrow> issue_request option" where
  "request_of p =
    (case (jprop ''requestId'' p, jprop ''userId'' p, jprop ''eventId'' p, jprop ''couponTypeId'' p,
           jprop ''requestedAt'' p) of
       (Some (JStr r), Some (JNum u), Some (JNum e), Some (JNum c), Some (JStr t)) \<Rightarrow>
         Some \<lparr>rq_requestId = r, rq_userId = u, rq_eventId = e, rq_couponTypeId = c,
               rq_requestedAt = t\<rparr>
     | _ \<Rightarrow> None)"

definition result_of :: "json \<Rightarrow> issue_result option" where
  "result_of p =
    (case (jprop ''requestId'' p, jprop ''userId'' p, jprop ''eventId'' p, jprop ''couponTypeId'' p,
           jprop ''processedAt'' p) of
       (Some (JStr r), Some (JNum u), Some (JNum e), Some (JNum c), Some (JStr t)) \<Rightarrow>
         (case (filter (\<lambda>s. jprop ''status'' p = Some (JStr (result_wire s)))
                  COUPON_ISSUE_RESULT_STATUSES) of
            [] \<Rightarrow> None
          | s # _ \<Rightarrow> Some \<lparr>rs_requestId = r, rs_userId = u, rs_eventId = e, rs_couponTypeId = c,
              rs_status = s,
              rs_couponCode = (case jprop ''couponCode'' p of Some (JStr c) \<Rightarrow> Some c | _ \<Rightarrow> None),
              rs_processedAt = t\<rparr>)
     | _ \<Rightarrow> None)"

section \<open>The acceptance result of server-b\<close>

record acceptance =
  ac_requestId :: "string option"
  ac_status :: acceptance_status
  ac_message :: "string option"

definition acceptance_accepted :: "string \<Rightarrow> acceptance" where
  "acceptance_accepted r = \<lparr>ac_requestId = Some r, ac_status = ACCEPTED, ac_message = None\<rparr>"

definition acceptance_duplicate :: "string \<Rightarrow> acceptance" where
  "acceptance_duplicate r = \<lparr>ac_requestId = Some r, ac_status = DUPLICATE,
     ac_message = Some ''already requested for this coupon type''\<rparr>"

definition acceptance_soldOut :: acceptance where
  "acceptance_soldOut = \<lparr>ac_requestId = None, ac_status = ACC_SOLD_OUT,
     ac_message = Some ''coupon sold out''\<rparr>"

definition acceptance_internalError :: "string \<Rightarrow> acceptance" where
  "acceptance_internalError reason = \<lparr>ac_requestId = None, ac_status = INTERNAL_ERROR,
     ac_message = Some reason\<rparr>"

section \<open>Laws\<close>

lemma result_wire_inject [simp]: "result_wire a = result_wire b \<longleftrightarrow> a = b"
  by (cases a; cases b) simp_all

lemma check_chars_Inr: "check_chars v = Inr u \<longleftrightarrow> set v \<subseteq> set ALPHABET"
  by (induction v) auto

lemma CouponCode_of_Inr:
  "CouponCode_of (Some v) = Inr c \<longleftrightarrow> c = v \<and> length v = CODE_LENGTH \<and> set v \<subseteq> set ALPHABET"
  using check_chars_Inr [of v "()"]
  by (cases "check_chars v") (auto simp: CouponCode_of_def)

lemma length_ALPHABET: "length ALPHABET = 32"
  by (simp add: ALPHABET_def)

lemma distinct_ALPHABET: "distinct ALPHABET"
  by (simp add: ALPHABET_def)

lemma generate_loop_eq: "generate_loop rnd i k out = out @ map (\<lambda>j. ALPHABET ! rnd j) [i..<i + k]"
proof (induction k arbitrary: i out)
  case (Suc k)
  have "[i..<i + Suc k] = i # [Suc i..<Suc i + k]"
    by (simp add: upt_conv_Cons)
  then show ?case by (simp add: Suc)
qed simp

lemma generate_eq: "CouponCode_generate rnd = map (\<lambda>j. ALPHABET ! rnd j) [0..<CODE_LENGTH]"
  by (simp add: CouponCode_generate_def generate_loop_eq)

lemma length_generate [simp]: "length (CouponCode_generate rnd) = CODE_LENGTH"
  by (simp add: generate_eq)

lemma set_generate: "valid_rnd rnd \<Longrightarrow> set (CouponCode_generate rnd) \<subseteq> set ALPHABET"
  by (auto simp: generate_eq valid_rnd_def)

lemma CouponCode_of_generate:
  "valid_rnd rnd \<Longrightarrow> CouponCode_of (Some (CouponCode_generate rnd)) = Inr (CouponCode_generate rnd)"
  using set_generate by (simp add: CouponCode_of_Inr)

lemma jprop_JObj: "jprop name (JObj kvs) = map_of kvs name"
  by (simp add: jprop_def)

lemma wf_request_json [simp]: "wf_json (request_json p)"
  by (simp add: request_json_def)

lemma wf_result_json [simp]: "wf_json (result_json p)"
  by (simp add: result_json_def split: option.split)

lemma request_of_json [simp]: "request_of (request_json p) = Some p"
  by (simp add: request_of_def request_json_def jprop_JObj)

lemma result_of_json [simp]: "result_of (result_json p) = Some p"
  by (cases "rs_status p"; cases "rs_couponCode p")
    (auto simp: result_of_def result_json_def jprop_JObj COUPON_ISSUE_RESULT_STATUSES_def
      intro: issue_result.equality)

lemma assert_request_json:
  "assertIssueRequestPayload (request_json p) = Inr () \<longleftrightarrow>
   \<not> blank (rq_requestId p) \<and> 0 < rq_userId p \<and> 0 < rq_eventId p \<and> 0 < rq_couponTypeId p"
  by (simp add: assertIssueRequestPayload_def request_json_def nullish_def jprop_JObj js_positive_def)

lemma assert_result_json:
  "(rs_status p = R_SUCCESS \<longrightarrow> rs_couponCode p \<noteq> None) \<Longrightarrow>
   assertIssueResultPayload (result_json p) = Inr ()"
  by (cases "rs_status p")
    (auto simp: assertIssueResultPayload_def result_json_def nullish_def jprop_JObj
      COUPON_ISSUE_RESULT_STATUSES_def)

end
