(* ===== verification/C_Model.thy ===== *)
theory C_Model imports Wire begin

text \<open>
  The domain model of server-c (\<open>apps/server-c/src/domain\<close>), the ORM entities of
  \<open>infrastructure/persistence\<close> and the mappers between them.  A BIGINT column is a decimal string
  in an entity, as mysql2 returns it, and a number in the domain model; the mappers convert.
\<close>

section \<open>Statuses\<close>

datatype user_coupon_status = UC_SUCCESS | UC_SOLD_OUT | UC_FAILED | UC_USED

datatype event_status = EV_CREATED | EV_IN_PROGRESS | EV_ENDED | EV_CANCELLED

datatype outbox_event_status = OB_PENDING | OB_PUBLISHED

fun user_coupon_wire :: "user_coupon_status \<Rightarrow> string" where
  "user_coupon_wire UC_SUCCESS = ''SUCCESS''"
| "user_coupon_wire UC_SOLD_OUT = ''SOLD_OUT''"
| "user_coupon_wire UC_FAILED = ''FAILED''"
| "user_coupon_wire UC_USED = ''USED''"

fun event_status_wire :: "event_status \<Rightarrow> string" where
  "event_status_wire EV_CREATED = ''CREATED''"
| "event_status_wire EV_IN_PROGRESS = ''IN_PROGRESS''"
| "event_status_wire EV_ENDED = ''ENDED''"
| "event_status_wire EV_CANCELLED = ''CANCELLED''"

section \<open>Domain objects\<close>

record event =
  ev_id :: int
  ev_name :: string
  ev_content :: "string option"
  ev_startedAt :: int
  ev_endedAt :: int
  ev_status :: event_status

definition isActive :: "event \<Rightarrow> int \<Rightarrow> bool" where
  "isActive e now \<longleftrightarrow> now \<ge> ev_startedAt e \<and> now \<le> ev_endedAt e"

record inventory =
  in_id :: int
  in_eventId :: int
  in_couponTypeId :: int
  in_totalInventory :: int
  in_availableCount :: int

text \<open>The answer and the object after the call.\<close>

definition decrement :: "inventory \<Rightarrow> bool \<times> inventory" where
  "decrement i = (if in_availableCount i \<le> 0 then (False, i)
     else (True, i\<lparr>in_availableCount := in_availableCount i - 1\<rparr>))"

definition isDepleted :: "inventory \<Rightarrow> bool" where
  "isDepleted i \<longleftrightarrow> in_availableCount i = 0"

record user_coupon =
  uc_id :: "int option"
  uc_code :: string
  uc_userId :: int
  uc_eventId :: int
  uc_couponTypeId :: int
  uc_status :: user_coupon_status
  uc_issuedAt :: int
  uc_usedAt :: "int option"
  uc_version :: int

definition UserCoupon_issue ::
  "string \<Rightarrow> int \<Rightarrow> int \<Rightarrow> int \<Rightarrow> user_coupon_status \<Rightarrow> int \<Rightarrow> user_coupon" where
  "UserCoupon_issue code userId eventId couponTypeId status issuedAt =
     \<lparr>uc_id = None, uc_code = code, uc_userId = userId, uc_eventId = eventId,
      uc_couponTypeId = couponTypeId, uc_status = status, uc_issuedAt = issuedAt,
      uc_usedAt = None, uc_version = 0\<rparr>"

definition isOwnedBy :: "user_coupon \<Rightarrow> int \<Rightarrow> bool" where
  "isOwnedBy c userId \<longleftrightarrow> uc_userId c = userId"

definition isRedeemed :: "user_coupon \<Rightarrow> bool" where
  "isRedeemed c \<longleftrightarrow> uc_usedAt c \<noteq> None"

definition isRedeemable :: "user_coupon \<Rightarrow> bool" where
  "isRedeemable c \<longleftrightarrow> uc_status c = UC_SUCCESS \<and> uc_usedAt c = None"

text \<open>A row of the outbox as the poller reads it.\<close>

record outbox_record =
  or_id :: int
  or_aggregateId :: string
  or_eventType :: string
  or_payload :: string

definition EVENT_TYPE_ISSUE_RESULT :: string where
  "EVENT_TYPE_ISSUE_RESULT = ''ISSUE_RESULT''"

section \<open>ORM entities\<close>

record event_row =
  e_eventId :: string
  e_name :: string
  e_content :: "string option"
  e_startedAt :: int
  e_endedAt :: int
  e_status :: event_status

record coupon_type_row =
  t_couponTypeId :: string
  t_eventId :: string
  t_name :: string
  t_discountRate :: int

record inventory_row =
  i_inventoryId :: string
  i_eventId :: string
  i_couponTypeId :: string
  i_totalInventory :: int
  i_availableCount :: int

text \<open>The columns of an INSERT; the generated key is added by the database.\<close>

record user_coupon_values =
  u_code :: string
  u_userId :: string
  u_eventId :: string
  u_couponTypeId :: string
  u_status :: user_coupon_status
  u_issuedAt :: int
  u_usedAt :: "int option"
  u_version :: string

record user_coupon_row = user_coupon_values +
  u_userCouponId :: string

record outbox_row =
  o_outboxEventId :: string
  o_aggregateId :: string
  o_eventType :: string
  o_payload :: string
  o_status :: outbox_event_status
  o_createdAt :: int
  o_publishedAt :: "int option"

section \<open>Mappers\<close>

definition UserCouponMapper_toDomain :: "user_coupon_row \<Rightarrow> user_coupon" where
  "UserCouponMapper_toDomain row =
     \<lparr>uc_id = Some (js_Number (u_userCouponId row)), uc_code = u_code row,
      uc_userId = js_Number (u_userId row), uc_eventId = js_Number (u_eventId row),
      uc_couponTypeId = js_Number (u_couponTypeId row), uc_status = u_status row,
      uc_issuedAt = u_issuedAt row, uc_usedAt = u_usedAt row,
      uc_version = js_Number (u_version row)\<rparr>"

definition UserCouponMapper_toInsertValues :: "user_coupon \<Rightarrow> user_coupon_values" where
  "UserCouponMapper_toInsertValues c =
     \<lparr>u_code = uc_code c, u_userId = dec (uc_userId c), u_eventId = dec (uc_eventId c),
      u_couponTypeId = dec (uc_couponTypeId c), u_status = uc_status c,
      u_issuedAt = uc_issuedAt c, u_usedAt = uc_usedAt c, u_version = dec (uc_version c)\<rparr>"

definition CouponTypeInventoryMapper_toDomain :: "inventory_row \<Rightarrow> inventory" where
  "CouponTypeInventoryMapper_toDomain row =
     \<lparr>in_id = js_Number (i_inventoryId row), in_eventId = js_Number (i_eventId row),
      in_couponTypeId = js_Number (i_couponTypeId row),
      in_totalInventory = i_totalInventory row, in_availableCount = i_availableCount row\<rparr>"

definition EventMapper_toDomain :: "event_row \<Rightarrow> event" where
  "EventMapper_toDomain row =
     \<lparr>ev_id = js_Number (e_eventId row), ev_name = e_name row, ev_content = e_content row,
      ev_startedAt = e_startedAt row, ev_endedAt = e_endedAt row, ev_status = e_status row\<rparr>"

text \<open>The row the database stores for the inserted columns.\<close>

definition with_key :: "string \<Rightarrow> user_coupon_values \<Rightarrow> user_coupon_row" where
  "with_key k v = user_coupon_values.extend v \<lparr>u_userCouponId = k\<rparr>"

section \<open>Laws\<close>

lemma decrement_simps [simp]:
  "fst (decrement i) \<longleftrightarrow> 0 < in_availableCount i"
  "0 < in_availableCount i \<Longrightarrow> snd (decrement i) = i\<lparr>in_availableCount := in_availableCount i - 1\<rparr>"
  by (simp_all add: decrement_def)

lemma with_key_simps [simp]:
  "u_userCouponId (with_key k v) = k" "u_code (with_key k v) = u_code v"
  "u_userId (with_key k v) = u_userId v" "u_eventId (with_key k v) = u_eventId v"
  "u_couponTypeId (with_key k v) = u_couponTypeId v" "u_status (with_key k v) = u_status v"
  "u_issuedAt (with_key k v) = u_issuedAt v" "u_usedAt (with_key k v) = u_usedAt v"
  "u_version (with_key k v) = u_version v"
  by (simp_all add: with_key_def user_coupon_values.defs)

lemma toInsertValues_simps [simp]:
  "u_code (UserCouponMapper_toInsertValues c) = uc_code c"
  "u_userId (UserCouponMapper_toInsertValues c) = dec (uc_userId c)"
  "u_eventId (UserCouponMapper_toInsertValues c) = dec (uc_eventId c)"
  "u_couponTypeId (UserCouponMapper_toInsertValues c) = dec (uc_couponTypeId c)"
  "u_status (UserCouponMapper_toInsertValues c) = uc_status c"
  "u_issuedAt (UserCouponMapper_toInsertValues c) = uc_issuedAt c"
  "u_usedAt (UserCouponMapper_toInsertValues c) = uc_usedAt c"
  "u_version (UserCouponMapper_toInsertValues c) = dec (uc_version c)"
  by (simp_all add: UserCouponMapper_toInsertValues_def)

lemma UserCoupon_issue_simps [simp]:
  "uc_code (UserCoupon_issue c u e t s d) = c" "uc_userId (UserCoupon_issue c u e t s d) = u"
  "uc_eventId (UserCoupon_issue c u e t s d) = e" "uc_couponTypeId (UserCoupon_issue c u e t s d) = t"
  "uc_status (UserCoupon_issue c u e t s d) = s" "uc_issuedAt (UserCoupon_issue c u e t s d) = d"
  "uc_usedAt (UserCoupon_issue c u e t s d) = None" "uc_version (UserCoupon_issue c u e t s d) = 0"
  "uc_id (UserCoupon_issue c u e t s d) = None"
  by (simp_all add: UserCoupon_issue_def)

lemma mapper_roundtrip:
  "UserCouponMapper_toDomain (with_key (dec k) (UserCouponMapper_toInsertValues c)) = c\<lparr>uc_id := Some k\<rparr>"
  by (simp add: UserCouponMapper_toDomain_def)

end
