(* ===== verification/C_Database.thy ===== *)
theory C_Database imports C_Model begin

text \<open>
  The MySQL schema of server-c (\<open>migrations/server-c\<close>) and the TypeORM repositories over it.
  A table is the list of its rows in primary-key order.  A statement is one call that leaves the
  process; an INSERT checks the unique keys in the order the schema declares them and then the
  foreign key.  \<open>ck\<close> is the collation key of a VARCHAR (utf8mb4_unicode_ci: two codes are equal
  for the unique index and for \<open>WHERE code = ?\<close> exactly when their keys are); it is a parameter.
  AUTO_INCREMENT counters are not rolled back.  Column widths are not modelled.
\<close>

record cdb =
  d_events :: "event_row list"
  d_coupon_types :: "coupon_type_row list"
  d_inventories :: "inventory_row list"
  d_user_coupons :: "user_coupon_row list"
  d_outbox :: "outbox_row list"
  d_next_user_coupon :: int
  d_next_outbox :: int
  d_now :: int

section \<open>Transactions\<close>

definition rollback :: "cdb \<Rightarrow> cdb \<Rightarrow> cdb" where
  "rollback db0 db = db0\<lparr>d_next_user_coupon := d_next_user_coupon db,
     d_next_outbox := d_next_outbox db\<rparr>"

text \<open>
  \<open>dataSource.transaction(body)\<close>: BEGIN, the body, COMMIT; an exception of the body rolls back
  and is rethrown, and so does a failed COMMIT.  A COMMIT whose answer is lost has taken effect.
\<close>

definition transaction :: "(cdb, exn, 'a) eff \<Rightarrow> (cdb, exn, 'a) eff" where
  "transaction body = bnd (external mysql_down (\<lambda>db. ((), db))) (\<lambda>_ (db0, fs).
     case body (db0, fs) of
       (Inl e, db, fs') \<Rightarrow> (Inl e, rollback db0 db, fs')
     | (Inr x, db, fs') \<Rightarrow> (case fs' of
           [] \<Rightarrow> (Inr x, db, [])
         | NoFault # r \<Rightarrow> (Inr x, db, r)
         | FailBefore # r \<Rightarrow> (Inl mysql_down, rollback db0 db, r)
         | FailAfter # r \<Rightarrow> (Inl mysql_down, db, r)))"

section \<open>Events\<close>

definition event_findById :: "int \<Rightarrow> (cdb, exn, event option) eff" where
  "event_findById eventId = external mysql_down (\<lambda>db.
     (map_option EventMapper_toDomain
        (find (\<lambda>row. e_eventId row = dec eventId) (d_events db)), db))"

definition event_findByStatus :: "event_status \<Rightarrow> (cdb, exn, event list) eff" where
  "event_findByStatus status = external mysql_down (\<lambda>db.
     (map EventMapper_toDomain (filter (\<lambda>row. e_status row = status) (d_events db)), db))"

section \<open>Inventory\<close>

definition select_inventory :: "int \<Rightarrow> int \<Rightarrow> cdb \<Rightarrow> inventory_row option" where
  "select_inventory eventId couponTypeId db =
     find (\<lambda>i. i_eventId i = dec eventId \<and> i_couponTypeId i = dec couponTypeId) (d_inventories db)"

definition findForUpdate :: "int \<Rightarrow> int \<Rightarrow> (cdb, exn, inventory option) eff" where
  "findForUpdate eventId couponTypeId = external mysql_down (\<lambda>db.
     (map_option CouponTypeInventoryMapper_toDomain (select_inventory eventId couponTypeId db), db))"

definition inventory_findByEventIdAndCouponTypeId :: "int \<Rightarrow> int \<Rightarrow> (cdb, exn, inventory option) eff" where
  "inventory_findByEventIdAndCouponTypeId eventId couponTypeId = external mysql_down (\<lambda>db.
     (map_option CouponTypeInventoryMapper_toDomain (select_inventory eventId couponTypeId db), db))"

definition sql_update_available :: "inventory \<Rightarrow> cdb \<Rightarrow> cdb" where
  "sql_update_available i db = db\<lparr>d_inventories := map (\<lambda>row.
     if i_inventoryId row = dec (in_id i)
     then row\<lparr>i_availableCount := in_availableCount i\<rparr> else row) (d_inventories db)\<rparr>"

definition updateAvailableCount :: "inventory \<Rightarrow> (cdb, exn, unit) eff" where
  "updateAvailableCount i = external mysql_down (\<lambda>db. ((), sql_update_available i db))"

section \<open>User coupons\<close>

definition UK_USER_COUPON_USER_TYPE :: string where
  "UK_USER_COUPON_USER_TYPE = ''uk_user_coupon_user_type''"

definition UK_USER_COUPON_CODE :: string where
  "UK_USER_COUPON_CODE = ''uk_user_coupon_code''"

definition ER_DUP_ENTRY :: int where
  "ER_DUP_ENTRY = 1062"

abbreviation (input) squote :: char where
  "squote \<equiv> CHR 0x27"

definition dup_entry :: "string \<Rightarrow> string \<Rightarrow> exn" where
  "dup_entry entry key = QueryFailedError ER_DUP_ENTRY
     (''Duplicate entry '' @ squote # entry @ squote # '' for key '' @ squote # ''user_coupon.'' @ key @ [squote])"

definition same_user_type :: "string \<Rightarrow> string \<Rightarrow> user_coupon_row \<Rightarrow> bool" where
  "same_user_type u t row \<longleftrightarrow> u_userId row = u \<and> u_couponTypeId row = t"

definition sql_insert_user_coupon ::
  "(string \<Rightarrow> string) \<Rightarrow> user_coupon_values \<Rightarrow> cdb \<Rightarrow> (exn + unit) \<times> cdb" where
  "sql_insert_user_coupon ck v db =
    (let db' = db\<lparr>d_next_user_coupon := d_next_user_coupon db + 1\<rparr> in
     if \<exists>row \<in> set (d_user_coupons db). ck (u_code row) = ck (u_code v)
     then (Inl (dup_entry (u_code v) UK_USER_COUPON_CODE), db')
     else if \<exists>row \<in> set (d_user_coupons db). same_user_type (u_userId v) (u_couponTypeId v) row
     then (Inl (dup_entry (u_userId v @ ''-'' @ u_couponTypeId v) UK_USER_COUPON_USER_TYPE), db')
     else if u_couponTypeId v \<notin> t_couponTypeId ` set (d_coupon_types db)
     then (Inl (QueryFailedError 1452 ''Cannot add or update a child row''), db')
     else (Inr (), db'\<lparr>d_user_coupons :=
             d_user_coupons db @ [with_key (dec (d_next_user_coupon db)) v]\<rparr>))"

text \<open>The pattern \<open>/for key '(?:.*\.)?(.+?)'/\<close>: the group after the last dot that a quote follows.\<close>

definition match_group :: "string \<Rightarrow> string option" where
  "match_group s = (case s of
      [] \<Rightarrow> None
    | c # r \<Rightarrow> if squote \<in> set r then Some (c # takeWhile (\<lambda>x. x \<noteq> squote) r) else None)"

fun group_after_dot :: "string \<Rightarrow> string option" where
  "group_after_dot [] = None"
| "group_after_dot (c # cs) = (case group_after_dot cs of
      Some g \<Rightarrow> Some g
    | None \<Rightarrow> if c = CHR ''.'' then match_group cs else None)"

definition for_key :: string where
  "for_key = ''for key '' @ [squote]"

fun regex_exec :: "string \<Rightarrow> string option" where
  "regex_exec [] = None"
| "regex_exec (c # cs) =
    (let here = (if take 9 (c # cs) = for_key
        then (case group_after_dot (drop 9 (c # cs)) of
            Some g \<Rightarrow> Some g | None \<Rightarrow> match_group (drop 9 (c # cs)))
        else None)
     in case here of Some g \<Rightarrow> Some g | None \<Rightarrow> regex_exec cs)"

definition violatedConstraint :: "exn \<Rightarrow> string option" where
  "violatedConstraint e = (case e of
      QueryFailedError errno sqlMessage \<Rightarrow>
        if errno \<noteq> ER_DUP_ENTRY then None else regex_exec sqlMessage
    | _ \<Rightarrow> None)"

definition existsByUserIdAndCouponTypeId :: "int \<Rightarrow> int \<Rightarrow> (cdb, exn, bool) eff" where
  "existsByUserIdAndCouponTypeId userId couponTypeId = external mysql_down (\<lambda>db.
     (0 < length (filter (same_user_type (dec userId) (dec couponTypeId)) (d_user_coupons db)), db))"

definition findByCode :: "(string \<Rightarrow> string) \<Rightarrow> string \<Rightarrow> (cdb, exn, user_coupon option) eff" where
  "findByCode ck code = external mysql_down (\<lambda>db.
     (map_option UserCouponMapper_toDomain
        (find (\<lambda>row. ck (u_code row) = ck code) (d_user_coupons db)), db))"

definition findByUserIdAndCouponTypeId :: "int \<Rightarrow> int \<Rightarrow> (cdb, exn, user_coupon option) eff" where
  "findByUserIdAndCouponTypeId userId couponTypeId = external mysql_down (\<lambda>db.
     (map_option UserCouponMapper_toDomain
        (find (same_user_type (dec userId) (dec couponTypeId)) (d_user_coupons db)), db))"

definition findAllByUserId :: "int \<Rightarrow> (cdb, exn, user_coupon list) eff" where
  "findAllByUserId userId = external mysql_down (\<lambda>db.
     (map UserCouponMapper_toDomain (sort_key (\<lambda>row. - u_issuedAt row)
        (filter (\<lambda>row. u_userId row = dec userId) (d_user_coupons db))), db))"

definition user_coupon_insert :: "(string \<Rightarrow> string) \<Rightarrow> user_coupon \<Rightarrow> (cdb, exn, unit) eff" where
  "user_coupon_insert ck coupon = try_catch
     (external_try mysql_down (sql_insert_user_coupon ck (UserCouponMapper_toInsertValues coupon)))
     (\<lambda>e. if violatedConstraint e = Some UK_USER_COUPON_USER_TYPE
        then throw (DuplicateUserCouponError (''user_coupon already exists: userId='' @
          dec (uc_userId coupon) @ '', couponTypeId='' @ dec (uc_couponTypeId coupon)))
        else throw e)"

text \<open>The conditional UPDATE of ADR-N03 and the number of rows it matched.\<close>

definition version_matches :: "int \<Rightarrow> int \<Rightarrow> user_coupon_row \<Rightarrow> bool" where
  "version_matches k expectedVersion row \<longleftrightarrow>
     u_userCouponId row = dec k \<and> u_version row = dec expectedVersion"

definition sql_mark_used :: "int \<Rightarrow> int \<Rightarrow> int \<Rightarrow> cdb \<Rightarrow> nat \<times> cdb" where
  "sql_mark_used k expectedVersion usedAt db =
     (length (filter (version_matches k expectedVersion) (d_user_coupons db)),
      db\<lparr>d_user_coupons := map (\<lambda>row. if version_matches k expectedVersion row
           then row\<lparr>u_status := UC_USED, u_usedAt := Some usedAt,
                    u_version := dec (js_Number (u_version row) + 1)\<rparr> else row)
         (d_user_coupons db)\<rparr>)"

definition markUsed :: "int \<Rightarrow> int \<Rightarrow> int \<Rightarrow> (cdb, exn, nat) eff" where
  "markUsed k expectedVersion usedAt = external mysql_down (sql_mark_used k expectedVersion usedAt)"

section \<open>Outbox\<close>

definition sql_insert_outbox :: "string \<Rightarrow> string \<Rightarrow> string \<Rightarrow> cdb \<Rightarrow> cdb" where
  "sql_insert_outbox aggregateId eventType payload db = db\<lparr>
     d_next_outbox := d_next_outbox db + 1,
     d_outbox := d_outbox db @ [\<lparr>o_outboxEventId = dec (d_next_outbox db),
        o_aggregateId = aggregateId, o_eventType = eventType, o_payload = payload,
        o_status = OB_PENDING, o_createdAt = d_now db, o_publishedAt = None\<rparr>]\<rparr>"

definition outbox_append :: "string \<Rightarrow> string \<Rightarrow> string \<Rightarrow> (cdb, exn, unit) eff" where
  "outbox_append aggregateId eventType payload =
     external mysql_down (\<lambda>db. ((), sql_insert_outbox aggregateId eventType payload db))"

definition outbox_record_of :: "outbox_row \<Rightarrow> outbox_record" where
  "outbox_record_of row = \<lparr>or_id = js_Number (o_outboxEventId row),
     or_aggregateId = o_aggregateId row, or_eventType = o_eventType row,
     or_payload = o_payload row\<rparr>"

text \<open>\<open>ORDER BY created_at ASC LIMIT\<close>; rows with the same time come in primary-key order, the order
  of the index \<open>idx_outbox_status_created\<close>.\<close>

definition select_pending :: "nat \<Rightarrow> cdb \<Rightarrow> outbox_row list" where
  "select_pending limit db = take limit
     (sort_key o_createdAt (filter (\<lambda>row. o_status row = OB_PENDING) (d_outbox db)))"

definition findPending :: "nat \<Rightarrow> (cdb, exn, outbox_record list) eff" where
  "findPending limit = external mysql_down (\<lambda>db. (map outbox_record_of (select_pending limit db), db))"

definition sql_mark_published :: "int list \<Rightarrow> int \<Rightarrow> cdb \<Rightarrow> nat \<times> cdb" where
  "sql_mark_published ids publishedAt db =
     (length (filter (\<lambda>row. o_outboxEventId row \<in> set (map dec ids)) (d_outbox db)),
      db\<lparr>d_outbox := map (\<lambda>row. if o_outboxEventId row \<in> set (map dec ids)
           then row\<lparr>o_status := OB_PUBLISHED, o_publishedAt := Some publishedAt\<rparr> else row)
         (d_outbox db)\<rparr>)"

definition markPublished :: "int list \<Rightarrow> int \<Rightarrow> (cdb, exn, nat) eff" where
  "markPublished ids publishedAt =
     (if ids = [] then ret 0 else external mysql_down (sql_mark_published ids publishedAt))"

section \<open>Laws\<close>

lemma d_rollback [simp]:
  "d_events (rollback a b) = d_events a" "d_coupon_types (rollback a b) = d_coupon_types a"
  "d_inventories (rollback a b) = d_inventories a" "d_user_coupons (rollback a b) = d_user_coupons a"
  "d_outbox (rollback a b) = d_outbox a" "d_now (rollback a b) = d_now a"
  "d_next_user_coupon (rollback a b) = d_next_user_coupon b"
  "d_next_outbox (rollback a b) = d_next_outbox b"
  by (simp_all add: rollback_def)

lemma transaction_cases:
  obtains (start) "\<exists>r. transaction m (db, fs) = (Inl mysql_down, db, r)"
  | (failed) e db' gs r where "m (db, gs) = (Inl e, db', r)"
      "transaction m (db, fs) = (Inl e, rollback db db', r)"
  | (lost) x db' gs r r' where "m (db, gs) = (Inr x, db', r)"
      "transaction m (db, fs) = (Inl mysql_down, rollback db db', r')"
  | (unknown) x db' gs r r' where "m (db, gs) = (Inr x, db', r)"
      "transaction m (db, fs) = (Inl mysql_down, db', r')"
  | (committed) x db' gs r r' where "m (db, gs) = (Inr x, db', r)"
      "transaction m (db, fs) = (Inr x, db', r')"
proof -
  have body: thesis if t: "transaction m (db, fs) = (case m (db, gs) of
       (Inl e, db', fs') \<Rightarrow> (Inl e, rollback db db', fs')
     | (Inr x, db', fs') \<Rightarrow> (case fs' of
           [] \<Rightarrow> (Inr x, db', [])
         | NoFault # r \<Rightarrow> (Inr x, db', r)
         | FailBefore # r \<Rightarrow> (Inl mysql_down, rollback db db', r)
         | FailAfter # r \<Rightarrow> (Inl mysql_down, db', r)))" for gs
  proof -
    obtain o' db' r where w: "m (db, gs) = (o', db', r)" by (cases "m (db, gs)")
    show thesis
    proof (cases o')
      case (Inl e)
      with w t show ?thesis by (intro failed) auto
    next
      case (Inr x)
      note w = w [unfolded Inr]
      show ?thesis
      proof (cases r)
        case Nil
        with w t show ?thesis by (intro committed) auto
      next
        case (Cons g r')
        with w t show ?thesis
          by (cases g) (auto intro: committed lost unknown)
      qed
    qed
  qed
  show thesis
  proof (cases rule: external_cases [where e = mysql_down and f = "\<lambda>db. ((), db)" and s = db and fs = fs])
    case (ok r)
    then show ?thesis by (intro body [of r]) (simp add: transaction_def bnd_def)
  next
    case (before r)
    then show ?thesis by (intro start) (simp add: transaction_def bnd_def)
  next
    case (after r)
    then show ?thesis by (intro start) (simp add: transaction_def bnd_def)
  qed
qed

text \<open>
  A transaction that refines a pure specification \<open>S\<close> commits what \<open>S\<close> computes or leaves the
  committed tables as they were.  It throws the exception of \<open>S\<close> or reports a connection failure;
  a lost COMMIT answer is the one case in which it both commits and throws.
\<close>

definition same_tables :: "cdb \<Rightarrow> cdb \<Rightarrow> bool" where
  "same_tables db db' \<longleftrightarrow> d_events db' = d_events db \<and> d_coupon_types db' = d_coupon_types db \<and>
     d_inventories db' = d_inventories db \<and> d_user_coupons db' = d_user_coupons db \<and>
     d_outbox db' = d_outbox db \<and> d_now db' = d_now db"

definition committed_or_untouched ::
  "(cdb \<Rightarrow> (exn + 'a) \<times> cdb) \<Rightarrow> cdb \<Rightarrow> (exn + 'a) \<times> cdb \<times> fault list \<Rightarrow> bool" where
  "committed_or_untouched S db r \<longleftrightarrow> (case r of
      (Inr x, db', _) \<Rightarrow> S db = (Inr x, db')
    | (Inl e, db', _) \<Rightarrow> (same_tables db db' \<and> (e = mysql_down \<or> fst (S db) = Inl e)) \<or>
        (e = mysql_down \<and> (\<exists>x. S db = (Inr x, db'))))"

lemma same_tables_rollback [simp]: "same_tables a (rollback a b)"
  by (simp add: same_tables_def)

lemma same_tables_refl [simp]: "same_tables a a"
  by (simp add: same_tables_def)

lemma transaction_refines:
  assumes h: "honest m" and c: "candid mysql_down m" and s: "m (db, []) = (fst (S db), snd (S db), [])"
  shows "committed_or_untouched S db (transaction m (db, fs))"
proof -
  have spec: "S db = (Inr x, db')" if "m (db, gs) = (Inr x, db', r)" for gs x db' r
    using honestD [OF h that] by (simp add: s prod_eq_iff)
  show ?thesis
    unfolding committed_or_untouched_def
    by (cases rule: transaction_cases [where m = m and db = db and fs = fs])
      (auto simp: spec s dest: candidD [OF c])
qed

lemma fair_transaction [fair]:
  assumes "fair m"
  shows "fair (transaction m)"
proof -
  define body where "body = (\<lambda>(db0, fs). case m (db0, fs) of
       (Inl e, db, fs') \<Rightarrow> (Inl e, rollback db0 db, fs')
     | (Inr x, db, fs') \<Rightarrow> (case fs' of
           [] \<Rightarrow> (Inr x, db, [])
         | NoFault # r \<Rightarrow> (Inr x, db, r)
         | FailBefore # r \<Rightarrow> (Inl mysql_down, rollback db0 db, r)
         | FailAfter # r \<Rightarrow> (Inl mysql_down, db, r)))"
  have "fair body"
  proof (rule fairI)
    fix s fs r s' fs'
    assume r: "body (s, fs) = (r, s', fs')"
    obtain q t gs where w: "m (s, fs) = (q, t, gs)" by (cases "m (s, fs)")
    note m' = fairD [OF assms w]
    show "nfaults fs' \<le> nfaults fs \<and> (nfaults fs' = nfaults fs \<longrightarrow> body (s, []) = (r, s', []))"
    proof (cases q)
      case (Inl e)
      with w r m' show ?thesis by (auto simp: body_def)
    next
      case (Inr x)
      show ?thesis
      proof (cases gs)
        case Nil
        with w r m' Inr show ?thesis by (auto simp: body_def)
      next
        case (Cons f gs')
        with w r m' Inr show ?thesis by (cases f) (auto simp: body_def)
      qed
    qed
  qed
  moreover have "transaction m = bnd (external mysql_down (\<lambda>db. ((), db))) (\<lambda>_. body)"
    by (simp add: transaction_def body_def)
  ultimately show ?thesis by (simp add: fair_bnd fair_external)
qed

text \<open>
  An invariant of the database survives a transaction when the rollback keeps it and the body,
  run to its end without a fault, does.
\<close>

lemma keeps_transaction:
  assumes m: "honest m"
    and rb: "\<And>s fs r s' fs'. I s \<Longrightarrow> m (s, fs) = (r, s', fs') \<Longrightarrow> I (rollback s s')"
    and ok: "\<And>s x s'. I s \<Longrightarrow> m (s, []) = (Inr x, s', []) \<Longrightarrow> I s'"
  shows "keeps_inv I (transaction m)"
proof (rule keeps_invI)
  fix s fs assume s: "I s"
  show "I (final (transaction m (s, fs)))"
  proof (cases rule: transaction_cases [where m = m and db = s and fs = fs])
    case start
    with s show ?thesis by auto
  next
    case (failed e db' gs r)
    with rb [OF s] show ?thesis by auto
  next
    case (lost x db' gs r r')
    with rb [OF s] show ?thesis by auto
  next
    case (unknown x db' gs r r')
    with ok [OF s honestD [OF m]] show ?thesis by auto
  next
    case (committed x db' gs r r')
    with ok [OF s honestD [OF m]] show ?thesis by auto
  qed
qed

section \<open>The driver's message and the constraint it names\<close>

definition plain_name :: "string \<Rightarrow> bool" where
  "plain_name name \<longleftrightarrow> name \<noteq> [] \<and> CHR ''.'' \<notin> set name \<and> squote \<notin> set name"

lemma group_after_dot_none: "CHR ''.'' \<notin> set s \<Longrightarrow> group_after_dot s = None"
  by (induction s) auto

lemma match_group_name: "plain_name name \<Longrightarrow> match_group (name @ [squote]) = Some name"
  by (cases name) (auto simp: plain_name_def match_group_def takeWhile_append)

lemma group_after_dot_name:
  assumes "plain_name name"
  shows "group_after_dot (x @ CHR ''.'' # name @ [squote]) = Some name"
proof (induction x)
  case Nil
  have "group_after_dot (name @ [squote]) = None"
    using assms by (intro group_after_dot_none) (auto simp: plain_name_def)
  then show ?case by (simp add: match_group_name [OF assms])
qed simp

lemma regex_exec_step: "take 9 s \<noteq> for_key \<Longrightarrow> s \<noteq> [] \<Longrightarrow> regex_exec s = regex_exec (tl s)"
  by (cases s) simp_all

lemma regex_exec_here:
  assumes "take 9 s = for_key" "drop 9 s = x @ CHR ''.'' # name @ [squote]" "plain_name name"
  shows "regex_exec s = Some name"
proof -
  from assms(1) obtain c cs where "s = c # cs" by (cases s) (auto simp: for_key_def)
  with assms group_after_dot_name [OF assms(3), of x] show ?thesis by simp
qed

lemma regex_exec_name:
  assumes "plain_name name"
  shows "regex_exec (pre @ for_key @ ''user_coupon'' @ CHR ''.'' # name @ [squote]) = Some name"
proof (induction pre)
  case Nil
  show ?case
    by (rule regex_exec_here [where x = "''user_coupon''", OF _ _ assms]) (simp_all add: for_key_def)
next
  case (Cons c pre)
  let ?s = "(c # pre) @ for_key @ ''user_coupon'' @ CHR ''.'' # name @ [squote]"
  show ?case
  proof (cases "take 9 ?s = for_key")
    case True
    have "?s = (c # pre @ for_key @ ''user_coupon'') @ CHR ''.'' # name @ [squote]" by simp
    moreover have "9 \<le> length (c # pre @ for_key @ ''user_coupon'')" by (simp add: for_key_def)
    ultimately have "drop 9 ?s = drop 9 (c # pre @ for_key @ ''user_coupon'') @ CHR ''.'' # name @ [squote]"
      by (simp only: drop_append) simp
    with True show ?thesis by (rule regex_exec_here [OF _ _ assms])
  next
    case False
    then show ?thesis using Cons.IH by (subst regex_exec_step) simp_all
  qed
qed

lemma violatedConstraint_dup: "plain_name name \<Longrightarrow> violatedConstraint (dup_entry entry name) = Some name"
  using regex_exec_name [of name "''Duplicate entry '' @ squote # entry @ squote # '' ''"]
  by (simp add: violatedConstraint_def dup_entry_def for_key_def)

lemma violatedConstraint_keys [simp]:
  "violatedConstraint (dup_entry e UK_USER_COUPON_USER_TYPE) = Some UK_USER_COUPON_USER_TYPE"
  "violatedConstraint (dup_entry e UK_USER_COUPON_CODE) = Some UK_USER_COUPON_CODE"
  by (simp_all add: violatedConstraint_dup plain_name_def UK_USER_COUPON_USER_TYPE_def
      UK_USER_COUPON_CODE_def)

lemma constraint_names_differ [simp]: "UK_USER_COUPON_CODE \<noteq> UK_USER_COUPON_USER_TYPE"
  by (simp add: UK_USER_COUPON_USER_TYPE_def UK_USER_COUPON_CODE_def)

lemma violatedConstraint_other [simp]:
  "violatedConstraint (QueryFailedError 1452 m) = None" "violatedConstraint mysql_down = None"
  by (simp_all add: violatedConstraint_def ER_DUP_ENTRY_def mysql_down_def)

section \<open>The insert of a result row\<close>

definition code_taken :: "(string \<Rightarrow> string) \<Rightarrow> string \<Rightarrow> cdb \<Rightarrow> bool" where
  "code_taken ck code db \<longleftrightarrow> (\<exists>row \<in> set (d_user_coupons db). ck (u_code row) = ck code)"

definition has_row :: "int \<Rightarrow> int \<Rightarrow> cdb \<Rightarrow> bool" where
  "has_row u t db \<longleftrightarrow> (\<exists>row \<in> set (d_user_coupons db). same_user_type (dec u) (dec t) row)"

definition known_type :: "int \<Rightarrow> cdb \<Rightarrow> bool" where
  "known_type t db \<longleftrightarrow> dec t \<in> t_couponTypeId ` set (d_coupon_types db)"

definition bump :: "cdb \<Rightarrow> cdb" where
  "bump db = db\<lparr>d_next_user_coupon := d_next_user_coupon db + 1\<rparr>"

definition add_row :: "user_coupon \<Rightarrow> cdb \<Rightarrow> cdb" where
  "add_row c db = (bump db)\<lparr>d_user_coupons := d_user_coupons db @
     [with_key (dec (d_next_user_coupon db)) (UserCouponMapper_toInsertValues c)]\<rparr>"

lemma user_coupon_insert_nil:
  "user_coupon_insert ck c (db, []) =
    (if code_taken ck (uc_code c) db then (Inl (dup_entry (uc_code c) UK_USER_COUPON_CODE), bump db, [])
     else if has_row (uc_userId c) (uc_couponTypeId c) db
     then (Inl (DuplicateUserCouponError (''user_coupon already exists: userId='' @
          dec (uc_userId c) @ '', couponTypeId='' @ dec (uc_couponTypeId c))), bump db, [])
     else if \<not> known_type (uc_couponTypeId c) db
     then (Inl (QueryFailedError 1452 ''Cannot add or update a child row''), bump db, [])
     else (Inr (), add_row c db, []))"
  by (simp add: user_coupon_insert_def try_catch_def sql_insert_user_coupon_def Let_def
      code_taken_def has_row_def known_type_def bump_def add_row_def)

lemma honest_user_coupon_insert [honest]: "honest (user_coupon_insert ck c)"
  unfolding user_coupon_insert_def
  by (intro honest_rethrow honest_external_try) (auto simp: throw_def split: prod.split)

lemma candid_user_coupon_insert [candid]: "candid mysql_down (user_coupon_insert ck c)"
  unfolding user_coupon_insert_def
  by (rule candid_translate [where g = "\<lambda>e. if violatedConstraint e = Some UK_USER_COUPON_USER_TYPE
        then DuplicateUserCouponError (''user_coupon already exists: userId='' @
          dec (uc_userId c) @ '', couponTypeId='' @ dec (uc_couponTypeId c)) else e"])
    (simp_all add: candid_external_try)

lemma has_row_filter:
  "has_row u t db \<longleftrightarrow> filter (same_user_type (dec u) (dec t)) (d_user_coupons db) \<noteq> []"
  by (auto simp: has_row_def filter_empty_conv)

end
