(* ===== verification/Redis.thy ===== *)
theory Redis imports Errors "HOL-Library.Char_ord" "HOL-Library.List_Lexorder"
  "HOL-Library.Product_Lexorder" begin

text \<open>
  The Redis commands the services issue through ioredis, with the server's documented meaning:
  strings with expiry (SET EX, GET), hashes (HSETNX, HSET, HINCRBY, HGETALL, EXPIRE) and sorted
  sets (ZADD, ZREM, ZRANGEBYSCORE).  Redis has one key space; here there is one per type, which
  is the same as long as no key is used at two types (the key modules of the services show that
  theirs are not).  Time is the server clock \<open>r_now\<close> in milliseconds; it does not advance within
  one method.  Each command is one call that leaves the process.
\<close>

type_synonym hash_value = "string \<Rightarrow> string option"

record redis =
  r_now :: int
  r_strings :: "string \<Rightarrow> (string \<times> int) option"
  r_hashes :: "string \<Rightarrow> (hash_value \<times> int option) option"
  r_zsets :: "string \<Rightarrow> (string \<times> int) list"

definition redis_down :: exn where
  "redis_down = Connection_Error ''redis''"

section \<open>What a reader sees: expired keys are gone\<close>

definition live_string :: "redis \<Rightarrow> string \<Rightarrow> string option" where
  "live_string r k = (case r_strings r k of
      Some (v, t) \<Rightarrow> if r_now r < t then Some v else None | None \<Rightarrow> None)"

definition live_hash :: "redis \<Rightarrow> string \<Rightarrow> (hash_value \<times> int option) option" where
  "live_hash r k = (case r_hashes r k of
      None \<Rightarrow> None
    | Some (h, None) \<Rightarrow> Some (h, None)
    | Some (h, Some t) \<Rightarrow> if r_now r < t then Some (h, Some t) else None)"

definition hash_field :: "redis \<Rightarrow> string \<Rightarrow> string \<Rightarrow> string option" where
  "hash_field r k f = (case live_hash r k of None \<Rightarrow> None | Some (h, _) \<Rightarrow> h f)"

definition zscore :: "redis \<Rightarrow> string \<Rightarrow> string \<Rightarrow> int option" where
  "zscore r z m = map_of (r_zsets r z) m"

section \<open>Commands\<close>

definition do_set_ex :: "string \<Rightarrow> string \<Rightarrow> int \<Rightarrow> redis \<Rightarrow> unit \<times> redis" where
  "do_set_ex k v ttl r = ((), r\<lparr>r_strings := (r_strings r)(k \<mapsto> (v, r_now r + 1000 * ttl))\<rparr>)"

text \<open>Writing fields keeps the expiry of a live hash; a new hash has none.\<close>

definition put_fields :: "string \<Rightarrow> (string \<times> string) list \<Rightarrow> redis \<Rightarrow> redis" where
  "put_fields k fvs r = (let (h, t) = (case live_hash r k of None \<Rightarrow> (Map.empty, None) | Some x \<Rightarrow> x)
     in r\<lparr>r_hashes := (r_hashes r)(k \<mapsto> (foldl (\<lambda>h (f, v). h(f \<mapsto> v)) h fvs, t))\<rparr>)"

definition do_hsetnx :: "string \<Rightarrow> string \<Rightarrow> string \<Rightarrow> redis \<Rightarrow> nat \<times> redis" where
  "do_hsetnx k f v r =
     (if hash_field r k f \<noteq> None then (0, r) else (1, put_fields k [(f, v)] r))"

definition do_hincrby :: "string \<Rightarrow> string \<Rightarrow> int \<Rightarrow> redis \<Rightarrow> (exn + int) \<times> redis" where
  "do_hincrby k f d r = (case hash_field r k f of
      None \<Rightarrow> (Inr d, put_fields k [(f, dec d)] r)
    | Some v \<Rightarrow> if dec (js_Number v) = v
                then (Inr (js_Number v + d), put_fields k [(f, dec (js_Number v + d))] r)
                else (Inl (Plain_Error ''ERR hash value is not an integer''), r))"

definition do_expire :: "string \<Rightarrow> int \<Rightarrow> redis \<Rightarrow> nat \<times> redis" where
  "do_expire k ttl r = (case live_hash r k of
      None \<Rightarrow> (0, r)
    | Some (h, _) \<Rightarrow> (1, r\<lparr>r_hashes := (r_hashes r)(k \<mapsto> (h, Some (r_now r + 1000 * ttl)))\<rparr>))"

definition do_zadd :: "string \<Rightarrow> int \<Rightarrow> string \<Rightarrow> redis \<Rightarrow> unit \<times> redis" where
  "do_zadd z score m r = ((), r\<lparr>r_zsets := (r_zsets r)(z :=
     (m, score) # filter (\<lambda>(m', _). m' \<noteq> m) (r_zsets r z))\<rparr>)"

definition do_zrem :: "string \<Rightarrow> string \<Rightarrow> redis \<Rightarrow> unit \<times> redis" where
  "do_zrem z m r = ((), r\<lparr>r_zsets := (r_zsets r)(z :=
     filter (\<lambda>(m', _). m' \<noteq> m) (r_zsets r z))\<rparr>)"

text \<open>Members in the order of their scores, ties in the order of their bytes.\<close>

definition zrange :: "(string \<times> int) list \<Rightarrow> int \<Rightarrow> int \<Rightarrow> nat \<Rightarrow> string list" where
  "zrange z lo hi n = take n (map fst
     (sort_key (\<lambda>(m, s). (s, m)) (filter (\<lambda>(_, s). lo \<le> s \<and> s \<le> hi) z)))"

definition redis_set_ex :: "string \<Rightarrow> string \<Rightarrow> int \<Rightarrow> (redis, exn, unit) eff" where
  "redis_set_ex k v ttl = external redis_down (do_set_ex k v ttl)"

definition redis_get :: "string \<Rightarrow> (redis, exn, string option) eff" where
  "redis_get k = external redis_down (\<lambda>r. (live_string r k, r))"

definition redis_exists :: "string \<Rightarrow> (redis, exn, nat) eff" where
  "redis_exists k = external redis_down (\<lambda>r. (if live_string r k = None then 0 else 1, r))"

definition redis_hsetnx :: "string \<Rightarrow> string \<Rightarrow> string \<Rightarrow> (redis, exn, nat) eff" where
  "redis_hsetnx k f v = external redis_down (do_hsetnx k f v)"

definition redis_hset :: "string \<Rightarrow> (string \<times> string) list \<Rightarrow> (redis, exn, unit) eff" where
  "redis_hset k fvs = external redis_down (\<lambda>r. ((), put_fields k fvs r))"

definition redis_hincrby :: "string \<Rightarrow> string \<Rightarrow> int \<Rightarrow> (redis, exn, int) eff" where
  "redis_hincrby k f d = external_try redis_down (do_hincrby k f d)"

definition redis_expire :: "string \<Rightarrow> int \<Rightarrow> (redis, exn, nat) eff" where
  "redis_expire k ttl = external redis_down (do_expire k ttl)"

definition redis_hgetall :: "string \<Rightarrow> (redis, exn, hash_value option) eff" where
  "redis_hgetall k = external redis_down (\<lambda>r. (map_option fst (live_hash r k), r))"

definition redis_zadd :: "string \<Rightarrow> int \<Rightarrow> string \<Rightarrow> (redis, exn, unit) eff" where
  "redis_zadd z score m = external redis_down (do_zadd z score m)"

definition redis_zrem :: "string \<Rightarrow> string \<Rightarrow> (redis, exn, unit) eff" where
  "redis_zrem z m = external redis_down (do_zrem z m)"

definition redis_zrangebyscore :: "string \<Rightarrow> int \<Rightarrow> int \<Rightarrow> nat \<Rightarrow> (redis, exn, string list) eff" where
  "redis_zrangebyscore z lo hi n = external redis_down (\<lambda>r. (zrange (r_zsets r z) lo hi n, r))"

section \<open>Laws\<close>

lemma live_string_set [simp]:
  "0 < ttl \<Longrightarrow> live_string (snd (do_set_ex k v ttl r)) k' = (if k' = k then Some v else live_string r k')"
  by (simp add: live_string_def do_set_ex_def split: option.split)

lemma live_hash_put:
  "live_hash (put_fields k fvs r) k' = (if k' = k
     then (case live_hash r k of
         None \<Rightarrow> Some (foldl (\<lambda>h (f, v). h(f \<mapsto> v)) Map.empty fvs, None)
       | Some (h, t) \<Rightarrow> Some (foldl (\<lambda>h (f, v). h(f \<mapsto> v)) h fvs, t))
     else live_hash r k')"
  by (auto simp: put_fields_def live_hash_def Let_def split: option.splits prod.splits)

lemma live_hash_expire:
  "0 < ttl \<Longrightarrow> live_hash (snd (do_expire k ttl r)) k' = (if k' = k
     then map_option (\<lambda>(h, _). (h, Some (r_now r + 1000 * ttl))) (live_hash r k) else live_hash r k')"
  by (auto simp: do_expire_def live_hash_def split: option.splits prod.splits)

lemma r_zsets_put [simp]: "r_zsets (put_fields k fvs r) = r_zsets r"
  by (simp add: put_fields_def Let_def split: prod.splits)

lemma r_zsets_expire [simp]: "r_zsets (snd (do_expire k ttl r)) = r_zsets r"
  by (simp add: do_expire_def split: option.splits prod.splits)

lemma r_now_cmds [simp]:
  "r_now (put_fields k fvs r) = r_now r" "r_now (snd (do_expire k ttl r)) = r_now r"
  "r_now (snd (do_zadd z s m r)) = r_now r" "r_now (snd (do_zrem z m r)) = r_now r"
  "r_now (snd (do_set_ex k v ttl r)) = r_now r"
  by (simp_all add: put_fields_def Let_def do_expire_def do_zadd_def do_zrem_def do_set_ex_def
      split: prod.splits option.splits)

lemma live_hash_zset [simp]:
  "live_hash (snd (do_zadd z s m r)) k = live_hash r k"
  "live_hash (snd (do_zrem z m r)) k = live_hash r k"
  "live_hash (snd (do_set_ex k' v ttl r)) k = live_hash r k"
  by (simp_all add: do_zadd_def do_zrem_def do_set_ex_def live_hash_def split: option.split prod.split)

lemma zscore_put [simp]: "zscore (put_fields k fvs r) z m = zscore r z m"
  by (simp add: zscore_def)

lemma zscore_expire [simp]: "zscore (snd (do_expire k ttl r)) z m = zscore r z m"
  by (simp add: zscore_def)

lemma map_of_filter_ne: "map_of (filter (\<lambda>(m', _). m' \<noteq> m) z) m' = (if m' = m then None else map_of z m')"
  by (induction z) auto

lemma zscore_zadd [simp]:
  "zscore (snd (do_zadd z s m r)) z' m' = (if z' = z \<and> m' = m then Some s else zscore r z' m')"
  by (simp add: zscore_def do_zadd_def map_of_filter_ne)

lemma zscore_zrem [simp]:
  "zscore (snd (do_zrem z m r)) z' m' = (if z' = z \<and> m' = m then None else zscore r z' m')"
  by (simp add: zscore_def do_zrem_def map_of_filter_ne)

lemma set_zrange: "set (zrange z lo hi n) \<subseteq> {m. \<exists>s. (m, s) \<in> set z \<and> lo \<le> s \<and> s \<le> hi}"
  unfolding zrange_def by (rule subset_trans [OF set_take_subset]) auto

lemma set_zrange_all:
  "length z \<le> n \<Longrightarrow> set (zrange z lo hi n) = {m. \<exists>s. (m, s) \<in> set z \<and> lo \<le> s \<and> s \<le> hi}"
proof -
  assume "length z \<le> n"
  then have "length (filter (\<lambda>(_, s). lo \<le> s \<and> s \<le> hi) z) \<le> n"
    by (rule order_trans [OF length_filter_le])
  then show ?thesis unfolding zrange_def by (subst take_all) (auto intro: image_eqI [rotated])
qed

end
