(* ===== verification/C_Issue.thy ===== *)
theory C_Issue imports C_Database Redis begin

text \<open>
  \<open>apps/server-c/src/application/coupon-issue.processor.ts\<close> and the sold-out cache it writes
  (\<open>infrastructure/redis/coupon-availability.cache.ts\<close>).  \<open>now\<close> is the one clock reading of the
  transaction, \<open>rnd\<close> the random digits of the coupon code.  The issue transaction is refined by
  \<open>issue_spec\<close>, a pure function of the committed database.
\<close>

section \<open>State of server-c\<close>

text \<open>
  Besides the database and the shared Redis: the result topic (key and value of every message the
  broker has accepted), whether the producer is connected, and the guards of the two timers.
\<close>

record cstate =
  c_db :: cdb
  c_redis :: redis
  c_topic :: "(string \<times> string) list"
  c_connected :: bool
  c_polling :: bool
  c_refreshing :: bool

definition on_db :: "(cdb, exn, 'a) eff \<Rightarrow> (cstate, exn, 'a) eff" where
  "on_db = zoom c_db (\<lambda>d c. c\<lparr>c_db := d\<rparr>)"

definition on_redis :: "(redis, exn, 'a) eff \<Rightarrow> (cstate, exn, 'a) eff" where
  "on_redis = zoom c_redis (\<lambda>r c. c\<lparr>c_redis := r\<rparr>)"

section \<open>Redis keys and the sold-out cache\<close>

definition event_key :: "int \<Rightarrow> string" where
  "event_key eventId = ''event:'' @ dec eventId"

definition couponAvailable_key :: "int \<Rightarrow> int \<Rightarrow> string" where
  "couponAvailable_key eventId couponTypeId =
     ''coupon:available:'' @ dec eventId @ '':'' @ dec couponTypeId"

definition markSoldOut :: "int \<Rightarrow> int \<Rightarrow> int \<Rightarrow> (redis, exn, unit) eff" where
  "markSoldOut ttlSeconds eventId couponTypeId = try_catch
     (redis_set_ex (couponAvailable_key eventId couponTypeId) ''1'' ttlSeconds)
     (\<lambda>e. ret ())"

section \<open>The processor\<close>

definition placeholderCode :: "string \<Rightarrow> string" where
  "placeholderCode requestId = CHR ''X'' # take (min 11 (length requestId)) requestId"

fun result_status_of :: "user_coupon_status \<Rightarrow> result_status" where
  "result_status_of UC_SUCCESS = R_SUCCESS"
| "result_status_of UC_SOLD_OUT = R_SOLD_OUT"
| "result_status_of UC_FAILED = R_FAILED"
| "result_status_of UC_USED = R_SUCCESS"

definition toResultPayload ::
  "issue_request \<Rightarrow> result_status \<Rightarrow> string option \<Rightarrow> int \<Rightarrow> issue_result" where
  "toResultPayload request status couponCode processedAt =
     \<lparr>rs_requestId = rq_requestId request, rs_userId = rq_userId request,
      rs_eventId = rq_eventId request, rs_couponTypeId = rq_couponTypeId request,
      rs_status = status, rs_couponCode = couponCode,
      rs_processedAt = toInstantString processedAt\<rparr>"

definition result_row :: "issue_request \<Rightarrow> user_coupon_status \<Rightarrow> string option \<Rightarrow> int \<Rightarrow> user_coupon" where
  "result_row request status code issuedAt = UserCoupon_issue
     (case code of None \<Rightarrow> placeholderCode (rq_requestId request) | Some c \<Rightarrow> c)
     (rq_userId request) (rq_eventId request) (rq_couponTypeId request) status issuedAt"

definition saveResult ::
  "(string \<Rightarrow> string) \<Rightarrow> issue_request \<Rightarrow> user_coupon_status \<Rightarrow> string option \<Rightarrow> int \<Rightarrow> (cdb, exn, unit) eff" where
  "saveResult ck request status code issuedAt =
     user_coupon_insert ck (result_row request status code issuedAt)"

definition saveOutbox :: "issue_result \<Rightarrow> (cdb, exn, unit) eff" where
  "saveOutbox payload = outbox_append (rs_requestId payload) EVENT_TYPE_ISSUE_RESULT
     (JSON_stringify (result_json payload))"

text \<open>The body of the transaction; it returns whether it asked for the availability check.\<close>

definition issue_body ::
  "(string \<Rightarrow> string) \<Rightarrow> int \<Rightarrow> (nat \<Rightarrow> nat) \<Rightarrow> issue_request \<Rightarrow> (cdb, exn, bool) eff" where
  "issue_body ck now rnd request =
    bnd (existsByUserIdAndCouponTypeId (rq_userId request) (rq_couponTypeId request)) (\<lambda>issued.
    if issued then ret False else
    bnd (event_findById (rq_eventId request)) (\<lambda>event. case event of
      None \<Rightarrow> throw (Plain_Error (''event not found: '' @ dec (rq_eventId request)))
    | Some event \<Rightarrow>
      if \<not> isActive event now then
        bnd (saveResult ck request UC_FAILED None now) (\<lambda>_.
        bnd (saveOutbox (toResultPayload request R_FAILED None now)) (\<lambda>_.
        ret False))
      else
        bnd (findForUpdate (rq_eventId request) (rq_couponTypeId request)) (\<lambda>inventory.
        case inventory of
          None \<Rightarrow> throw (Plain_Error (''inventory not found: eventId='' @ dec (rq_eventId request) @
                    '', couponTypeId='' @ dec (rq_couponTypeId request)))
        | Some inventory \<Rightarrow>
          let (taken, inventory) = decrement inventory in
          if \<not> taken then
            bnd (saveResult ck request UC_SOLD_OUT None now) (\<lambda>_.
            bnd (saveOutbox (toResultPayload request R_SOLD_OUT None now)) (\<lambda>_.
            ret True))
          else
            bnd (updateAvailableCount inventory) (\<lambda>_.
            let code = CouponCode_generate rnd in
            bnd (saveResult ck request UC_SUCCESS (Some code) now) (\<lambda>_.
            bnd (saveOutbox (toResultPayload request R_SUCCESS (Some code) now)) (\<lambda>_.
            ret True))))))"

definition runIssueTransaction ::
  "(string \<Rightarrow> string) \<Rightarrow> int \<Rightarrow> (nat \<Rightarrow> nat) \<Rightarrow> issue_request \<Rightarrow> (cdb, exn, bool) eff" where
  "runIssueTransaction ck now rnd request = transaction (issue_body ck now rnd request)"

definition markSoldOutIfDepleted :: "int \<Rightarrow> int \<Rightarrow> int \<Rightarrow> (cstate, exn, unit) eff" where
  "markSoldOutIfDepleted ttlSeconds eventId couponTypeId = try_catch
     (bnd (on_db (inventory_findByEventIdAndCouponTypeId eventId couponTypeId)) (\<lambda>fresh.
        case fresh of
          None \<Rightarrow> ret ()
        | Some inventory \<Rightarrow>
            if isDepleted inventory then on_redis (markSoldOut ttlSeconds eventId couponTypeId)
            else ret ()))
     (\<lambda>e. ret ())"

text \<open>A duplicate-row exception ends the call normally, after the rollback; others propagate.\<close>

definition process ::
  "(string \<Rightarrow> string) \<Rightarrow> int \<Rightarrow> int \<Rightarrow> (nat \<Rightarrow> nat) \<Rightarrow> issue_request \<Rightarrow> (cstate, exn, unit) eff" where
  "process ck ttlSeconds now rnd request =
    bnd (try_catch
          (bnd (on_db (runIssueTransaction ck now rnd request)) (\<lambda>check. ret (Some check)))
          (\<lambda>e. case e of DuplicateUserCouponError m \<Rightarrow> ret None | _ \<Rightarrow> throw e))
      (\<lambda>r. case r of
         None \<Rightarrow> ret ()
       | Some checkAvailability \<Rightarrow>
           if checkAvailability
           then markSoldOutIfDepleted ttlSeconds (rq_eventId request) (rq_couponTypeId request)
           else ret ())"

section \<open>The specification of the transaction\<close>

definition announce :: "issue_result \<Rightarrow> cdb \<Rightarrow> cdb" where
  "announce p = sql_insert_outbox (rs_requestId p) EVENT_TYPE_ISSUE_RESULT
     (JSON_stringify (result_json p))"

definition record_result ::
  "(string \<Rightarrow> string) \<Rightarrow> issue_request \<Rightarrow> user_coupon_status \<Rightarrow> string option \<Rightarrow> int \<Rightarrow> bool \<Rightarrow> cdb \<Rightarrow> (exn + bool) \<times> cdb" where
  "record_result ck request status code now check db =
    (case user_coupon_insert ck (result_row request status code now) (db, []) of
       (Inl e, db', _) \<Rightarrow> (Inl e, db')
     | (Inr _, db', _) \<Rightarrow>
         (Inr check, announce (toResultPayload request (result_status_of status) code now) db'))"

definition take_one :: "inventory_row \<Rightarrow> cdb \<Rightarrow> cdb" where
  "take_one row db = sql_update_available
     (snd (decrement (CouponTypeInventoryMapper_toDomain row))) db"

definition issue_spec ::
  "(string \<Rightarrow> string) \<Rightarrow> int \<Rightarrow> (nat \<Rightarrow> nat) \<Rightarrow> issue_request \<Rightarrow> cdb \<Rightarrow> (exn + bool) \<times> cdb" where
  "issue_spec ck now rnd request db =
    (if has_row (rq_userId request) (rq_couponTypeId request) db then (Inr False, db)
     else case find (\<lambda>row. e_eventId row = dec (rq_eventId request)) (d_events db) of
       None \<Rightarrow> (Inl (Plain_Error (''event not found: '' @ dec (rq_eventId request))), db)
     | Some ev \<Rightarrow>
       if now < e_startedAt ev \<or> e_endedAt ev < now
       then record_result ck request UC_FAILED None now False db
       else (case select_inventory (rq_eventId request) (rq_couponTypeId request) db of
         None \<Rightarrow> (Inl (Plain_Error (''inventory not found: eventId='' @ dec (rq_eventId request) @
                    '', couponTypeId='' @ dec (rq_couponTypeId request))), db)
       | Some row \<Rightarrow>
         if i_availableCount row \<le> 0 then record_result ck request UC_SOLD_OUT None now True db
         else record_result ck request UC_SUCCESS (Some (CouponCode_generate rnd)) now True
                (take_one row db)))"

section \<open>Refinement\<close>

lemma honest_issue_body [honest]: "honest (issue_body ck now rnd request)"
  unfolding issue_body_def saveResult_def saveOutbox_def outbox_append_def findForUpdate_def
    updateAvailableCount_def event_findById_def existsByUserIdAndCouponTypeId_def Let_def
  by (intro honest)

lemma candid_issue_body [candid]: "candid mysql_down (issue_body ck now rnd request)"
  unfolding issue_body_def saveResult_def saveOutbox_def outbox_append_def findForUpdate_def
    updateAvailableCount_def event_findById_def existsByUserIdAndCouponTypeId_def Let_def
  by (intro candid honest)

lemma save_nil:
  "bnd (saveResult ck request status code now) (\<lambda>_.
     bnd (saveOutbox (toResultPayload request (result_status_of status) code now)) (\<lambda>_.
       ret check)) (db, []) =
   (fst (record_result ck request status code now check db),
    snd (record_result ck request status code now check db), [])"
  by (cases "user_coupon_insert ck (result_row request status code now) (db, [])")
    (auto simp: record_result_def saveResult_def saveOutbox_def outbox_append_def announce_def
      user_coupon_insert_nil bnd_def split: if_splits)

lemmas save_nil_SUCCESS = save_nil [where status = UC_SUCCESS, simplified]
lemmas save_nil_SOLD_OUT = save_nil [where status = UC_SOLD_OUT, simplified]
lemmas save_nil_FAILED = save_nil [where status = UC_FAILED, simplified]

lemma issue_body_nil:
  "issue_body ck now rnd request (db, []) =
   (fst (issue_spec ck now rnd request db), snd (issue_spec ck now rnd request db), [])"
proof -
  have d: "fst (decrement (CouponTypeInventoryMapper_toDomain row)) \<longleftrightarrow> \<not> i_availableCount row \<le> 0" for row
    by (simp add: CouponTypeInventoryMapper_toDomain_def not_le)
  have a: "isActive (EventMapper_toDomain ev) now \<longleftrightarrow> \<not> (now < e_startedAt ev \<or> e_endedAt ev < now)" for ev
    by (auto simp: isActive_def EventMapper_toDomain_def)
  show ?thesis
    unfolding issue_body_def issue_spec_def existsByUserIdAndCouponTypeId_def event_findById_def
      findForUpdate_def updateAvailableCount_def Let_def
    by (simp add: has_row_filter a d save_nil_SUCCESS save_nil_SOLD_OUT save_nil_FAILED
        take_one_def split_def del: decrement_simps split: option.split)
qed

lemma issue_transaction_refines:
  "committed_or_untouched (issue_spec ck now rnd request) db
     (runIssueTransaction ck now rnd request (db, fs))"
  unfolding runIssueTransaction_def by (intro transaction_refines honest_issue_body candid_issue_body issue_body_nil)

end
