(* ===== verification/C_Invariant.thy ===== *)
theory C_Invariant imports C_Issue begin

text \<open>
  The invariant of server-c's database and its preservation by the issue transaction: keys are
  unique and canonical, no inventory is negative and what is available plus what was issued is
  the total, a row is USED exactly when it has a use time, and every result row has an outbox
  row that announces it.
\<close>

section \<open>The invariant\<close>

definition canonical :: "string \<Rightarrow> bool" where
  "canonical s \<longleftrightarrow> dec (js_Number s) = s"

definition holds_coupon :: "string \<Rightarrow> string \<Rightarrow> user_coupon_row \<Rightarrow> bool" where
  "holds_coupon e t r \<longleftrightarrow> u_eventId r = e \<and> u_couponTypeId r = t \<and> u_status r \<in> {UC_SUCCESS, UC_USED}"

definition issued_count :: "string \<Rightarrow> string \<Rightarrow> cdb \<Rightarrow> nat" where
  "issued_count e t db = length (filter (holds_coupon e t) (d_user_coupons db))"

definition inventory_keys_ok :: "cdb \<Rightarrow> bool" where
  "inventory_keys_ok db \<longleftrightarrow> distinct (map i_inventoryId (d_inventories db)) \<and>
     distinct (map (\<lambda>i. (i_eventId i, i_couponTypeId i)) (d_inventories db)) \<and>
     (\<forall>i \<in> set (d_inventories db). canonical (i_inventoryId i))"

definition stock_ok :: "cdb \<Rightarrow> bool" where
  "stock_ok db \<longleftrightarrow> (\<forall>i \<in> set (d_inventories db). 0 \<le> i_availableCount i \<and>
     i_availableCount i + int (issued_count (i_eventId i) (i_couponTypeId i) db) = i_totalInventory i)"

definition one_per_user :: "cdb \<Rightarrow> bool" where
  "one_per_user db \<longleftrightarrow> distinct (map (\<lambda>r. (u_userId r, u_couponTypeId r)) (d_user_coupons db))"

definition codes_unique :: "(string \<Rightarrow> string) \<Rightarrow> cdb \<Rightarrow> bool" where
  "codes_unique ck db \<longleftrightarrow> distinct (map (\<lambda>r. ck (u_code r)) (d_user_coupons db))"

definition coupon_ids_ok :: "cdb \<Rightarrow> bool" where
  "coupon_ids_ok db \<longleftrightarrow> distinct (map u_userCouponId (d_user_coupons db)) \<and>
     (\<forall>r \<in> set (d_user_coupons db). \<exists>k < d_next_user_coupon db. u_userCouponId r = dec k)"

definition row_ok :: "user_coupon_row \<Rightarrow> bool" where
  "row_ok r \<longleftrightarrow> canonical (u_userId r) \<and> canonical (u_version r) \<and>
     (u_usedAt r \<noteq> None \<longleftrightarrow> u_status r = UC_USED)"

definition outbox_ids_ok :: "cdb \<Rightarrow> bool" where
  "outbox_ids_ok db \<longleftrightarrow> distinct (map o_outboxEventId (d_outbox db)) \<and>
     (\<forall>o' \<in> set (d_outbox db). \<exists>k < d_next_outbox db. o_outboxEventId o' = dec k)"

text \<open>An outbox row tells the result recorded in a coupon row.\<close>

definition announces :: "outbox_row \<Rightarrow> user_coupon_row \<Rightarrow> bool" where
  "announces o' r \<longleftrightarrow> (\<exists>p. o_payload o' = JSON_stringify (result_json p) \<and>
     o_aggregateId o' = rs_requestId p \<and>
     dec (rs_userId p) = u_userId r \<and> dec (rs_couponTypeId p) = u_couponTypeId r \<and>
     rs_status p = result_status_of (u_status r) \<and>
     rs_couponCode p = (if rs_status p = R_SUCCESS then Some (u_code r) else None))"

definition all_announced :: "cdb \<Rightarrow> bool" where
  "all_announced db \<longleftrightarrow> (\<forall>r \<in> set (d_user_coupons db). \<exists>o' \<in> set (d_outbox db). announces o' r)"

definition db_ok :: "(string \<Rightarrow> string) \<Rightarrow> cdb \<Rightarrow> bool" where
  "db_ok ck db \<longleftrightarrow> inventory_keys_ok db \<and> stock_ok db \<and> one_per_user db \<and> codes_unique ck db \<and>
     coupon_ids_ok db \<and> (\<forall>r \<in> set (d_user_coupons db). row_ok r) \<and> outbox_ids_ok db \<and>
     all_announced db"

lemmas db_ok_defs = db_ok_def inventory_keys_ok_def stock_ok_def one_per_user_def codes_unique_def
  coupon_ids_ok_def outbox_ids_ok_def all_announced_def issued_count_def

section \<open>Rollback and the statements\<close>

lemma canonical_dec [simp]: "canonical (dec n)"
  by (simp add: canonical_def)

text \<open>Counters only grow.\<close>

definition counters_grow :: "cdb \<Rightarrow> cdb \<Rightarrow> bool" where
  "counters_grow db db' \<longleftrightarrow> d_next_user_coupon db \<le> d_next_user_coupon db' \<and>
     d_next_outbox db \<le> d_next_outbox db'"

lemma db_ok_rollback:
  assumes "db_ok ck db" "counters_grow db db'"
  shows "db_ok ck (rollback db db')"
  using assms unfolding db_ok_defs counters_grow_def by simp (meson order_less_le_trans)

text \<open>A row and the record that announces it, added together.\<close>

lemma db_ok_add:
  assumes ok: "inventory_keys_ok db" "one_per_user db" "codes_unique ck db" "coupon_ids_ok db"
      "\<forall>r \<in> set (d_user_coupons db). row_ok r" "outbox_ids_ok db" "all_announced db"
    and free: "\<not> code_taken ck (uc_code c) db" "\<not> has_row (uc_userId c) (uc_couponTypeId c) db"
    and c: "uc_usedAt c = None" "uc_status c \<noteq> UC_USED"
    and p: "rs_userId p = uc_userId c" "rs_couponTypeId p = uc_couponTypeId c"
      "rs_status p = result_status_of (uc_status c)"
      "rs_couponCode p = (if uc_status c = UC_SUCCESS then Some (uc_code c) else None)"
    and st: "stock_ok (announce p (add_row c db))"
  shows "db_ok ck (announce p (add_row c db))"
proof -
  let ?db = "announce p (add_row c db)"
  let ?r = "with_key (dec (d_next_user_coupon db)) (UserCouponMapper_toInsertValues c)"
  have uc: "d_user_coupons ?db = d_user_coupons db @ [?r]"
    and next_uc: "d_next_user_coupon ?db = d_next_user_coupon db + 1"
    by (simp_all add: announce_def sql_insert_outbox_def add_row_def bump_def)
  let ?o = "\<lparr>o_outboxEventId = dec (d_next_outbox db), o_aggregateId = rs_requestId p,
     o_eventType = EVENT_TYPE_ISSUE_RESULT, o_payload = JSON_stringify (result_json p),
     o_status = OB_PENDING, o_createdAt = d_now db, o_publishedAt = None\<rparr>"
  have ob: "d_outbox ?db = d_outbox db @ [?o]" and next_ob: "d_next_outbox ?db = d_next_outbox db + 1"
    by (simp_all add: announce_def sql_insert_outbox_def add_row_def bump_def)
  have "inventory_keys_ok ?db"
    using ok(1) by (simp add: inventory_keys_ok_def announce_def sql_insert_outbox_def add_row_def bump_def)
  moreover have "one_per_user ?db"
    using ok(2) free(2) by (auto simp: one_per_user_def uc has_row_def same_user_type_def)
  moreover have "codes_unique ck ?db"
    using ok(3) free(1) by (auto simp: codes_unique_def uc code_taken_def)
  moreover have "coupon_ids_ok ?db"
    using ok(4) unfolding coupon_ids_ok_def uc next_uc by fastforce
  moreover have "\<forall>r \<in> set (d_user_coupons ?db). row_ok r"
    using ok(5) c by (auto simp: uc row_ok_def)
  moreover have "outbox_ids_ok ?db"
    using ok(6) unfolding outbox_ids_ok_def ob next_ob by fastforce
  moreover have "all_announced ?db"
  proof -
    have "rs_status p = R_SUCCESS \<longleftrightarrow> uc_status c = UC_SUCCESS"
      using c p(3) by (cases "uc_status c") auto
    then have "announces ?o ?r"
      unfolding announces_def using p by (intro exI [of _ p]) simp
    with ok(7) show ?thesis by (auto simp: all_announced_def uc ob)
  qed
  ultimately show ?thesis using st by (simp add: db_ok_def)
qed

section \<open>The issue transaction\<close>

lemma stock_ok_unissued:
  assumes "stock_ok db" "uc_status c \<notin> {UC_SUCCESS, UC_USED}"
  shows "stock_ok (announce p (add_row c db))"
  using assms
  by (simp add: stock_ok_def issued_count_def holds_coupon_def announce_def sql_insert_outbox_def
      add_row_def bump_def)

text \<open>Taking one from the stock and adding the SUCCESS row balance each other.\<close>

lemma inventories_take_one:
  assumes "inventory_keys_ok db" "row \<in> set (d_inventories db)" "0 < i_availableCount row"
  shows "d_inventories (take_one row db) = map (\<lambda>i. if i = row
     then i\<lparr>i_availableCount := i_availableCount i - 1\<rparr> else i) (d_inventories db)"
proof -
  let ?inv = "CouponTypeInventoryMapper_toDomain row"
  have "in_availableCount ?inv = i_availableCount row" "dec (in_id ?inv) = i_inventoryId row"
    using assms by (auto simp: CouponTypeInventoryMapper_toDomain_def inventory_keys_ok_def canonical_def)
  moreover have "i_inventoryId i = i_inventoryId row \<longleftrightarrow> i = row" if "i \<in> set (d_inventories db)" for i
    using assms(1,2) that by (auto simp: inventory_keys_ok_def distinct_map inj_on_def)
  ultimately show ?thesis
    using assms(3) by (auto simp: take_one_def sql_update_available_def)
qed

lemma stock_ok_issue:
  assumes k: "inventory_keys_ok db" and st: "stock_ok db"
    and row: "row \<in> set (d_inventories db)" "0 < i_availableCount row"
    and c: "uc_status c = UC_SUCCESS" "dec (uc_eventId c) = i_eventId row"
      "dec (uc_couponTypeId c) = i_couponTypeId row"
  shows "stock_ok (announce p (add_row c (take_one row db)))"
proof -
  let ?db = "announce p (add_row c (take_one row db))"
  have inv: "d_inventories ?db = map (\<lambda>i. if i = row
     then i\<lparr>i_availableCount := i_availableCount i - 1\<rparr> else i) (d_inventories db)"
    using inventories_take_one [OF k row]
    by (simp add: announce_def sql_insert_outbox_def add_row_def bump_def)
  have cnt: "issued_count e t ?db = issued_count e t db +
      (if e = i_eventId row \<and> t = i_couponTypeId row then 1 else 0)" for e t
    using c by (auto simp: issued_count_def holds_coupon_def announce_def sql_insert_outbox_def
        add_row_def bump_def take_one_def sql_update_available_def)
  have uniq: "i = row" if "i \<in> set (d_inventories db)" "i_eventId i = i_eventId row"
      "i_couponTypeId i = i_couponTypeId row" for i
    using k row(1) that by (auto simp: inventory_keys_ok_def distinct_map inj_on_def)
  show ?thesis
    unfolding stock_ok_def inv
  proof (rule ballI)
    fix i' assume "i' \<in> set (map (\<lambda>i. if i = row then i\<lparr>i_availableCount := i_availableCount i - 1\<rparr> else i)
      (d_inventories db))"
    then obtain i where i: "i \<in> set (d_inventories db)"
      "i' = (if i = row then i\<lparr>i_availableCount := i_availableCount i - 1\<rparr> else i)" by auto
    with st have "0 \<le> i_availableCount i"
      "i_availableCount i + int (issued_count (i_eventId i) (i_couponTypeId i) db) = i_totalInventory i"
      by (auto simp: stock_ok_def)
    then show "0 \<le> i_availableCount i' \<and> i_availableCount i' +
        int (issued_count (i_eventId i') (i_couponTypeId i') ?db) = i_totalInventory i'"
      using i row(2) uniq [OF i(1)] by (cases "i = row") (auto simp: cnt)
  qed
qed

lemma inventory_keys_ok_map:
  assumes "\<And>x. i_inventoryId (f x) = i_inventoryId x" "\<And>x. i_eventId (f x) = i_eventId x"
    "\<And>x. i_couponTypeId (f x) = i_couponTypeId x"
    and "d_inventories db' = map f (d_inventories db)" and "inventory_keys_ok db"
  shows "inventory_keys_ok db'"
  using assms by (simp add: inventory_keys_ok_def comp_def)

lemma inventory_keys_ok_take_one:
  assumes "inventory_keys_ok db"
  shows "inventory_keys_ok (take_one row db)"
proof (rule inventory_keys_ok_map [OF _ _ _ _ assms])
  let ?i = "snd (decrement (CouponTypeInventoryMapper_toDomain row))"
  show "d_inventories (take_one row db) = map (\<lambda>x. if i_inventoryId x = dec (in_id ?i)
      then x\<lparr>i_availableCount := in_availableCount ?i\<rparr> else x) (d_inventories db)"
    by (simp add: take_one_def sql_update_available_def)
qed simp_all

lemma record_result_Inr:
  assumes "record_result ck request status code now check db = (Inr x, db')"
  shows "x = check" "db' = announce (toResultPayload request (result_status_of status) code now)
      (add_row (result_row request status code now) db)"
    "\<not> code_taken ck (uc_code (result_row request status code now)) db"
    "\<not> has_row (rq_userId request) (rq_couponTypeId request) db"
    "known_type (rq_couponTypeId request) db"
  using assms by (auto simp: record_result_def user_coupon_insert_nil result_row_def split: if_splits)

lemma record_result_ok:
  assumes r: "record_result ck request status code now check db = (Inr x, db')"
    and ok: "inventory_keys_ok db" "one_per_user db" "codes_unique ck db" "coupon_ids_ok db"
      "\<forall>r \<in> set (d_user_coupons db). row_ok r" "outbox_ids_ok db" "all_announced db"
    and s: "status \<noteq> UC_USED" "code \<noteq> None \<longleftrightarrow> status = UC_SUCCESS"
    and st: "stock_ok db'"
  shows "db_ok ck db'"
  unfolding record_result_Inr(2) [OF r]
proof (rule db_ok_add [OF ok record_result_Inr(3) [OF r]])
  show "stock_ok (announce (toResultPayload request (result_status_of status) code now)
      (add_row (result_row request status code now) db))"
    using st record_result_Inr(2) [OF r] by simp
qed (use record_result_Inr(4) [OF r] s in
    \<open>auto simp: result_row_def toResultPayload_def split: option.split\<close>)

lemma issue_spec_ok:
  assumes ok: "db_ok ck db" and r: "issue_spec ck now rnd request db = (Inr x, db')"
  shows "db_ok ck db'"
proof -
  let ?req = "\<lambda>status code check d. record_result ck request status code now check d = (Inr x, db')"
  consider "db' = db" | "?req UC_FAILED None False db" | "?req UC_SOLD_OUT None True db"
    | row where "select_inventory (rq_eventId request) (rq_couponTypeId request) db = Some row"
        "0 < i_availableCount row"
        "?req UC_SUCCESS (Some (CouponCode_generate rnd)) True (take_one row db)"
    using r by (auto simp: issue_spec_def split: if_splits option.splits)
  then show ?thesis
  proof cases
    case 1
    with ok show ?thesis by simp
  next
    case 2
    have "stock_ok db'"
      unfolding record_result_Inr(2) [OF 2] using ok
      by (intro stock_ok_unissued) (simp_all add: db_ok_def result_row_def)
    with ok show ?thesis by (intro record_result_ok [OF 2]) (simp_all add: db_ok_def)
  next
    case 3
    have "stock_ok db'"
      unfolding record_result_Inr(2) [OF 3] using ok
      by (intro stock_ok_unissued) (simp_all add: db_ok_def result_row_def)
    with ok show ?thesis by (intro record_result_ok [OF 3]) (simp_all add: db_ok_def)
  next
    case (4 row)
    then have row: "row \<in> set (d_inventories db)" "i_eventId row = dec (rq_eventId request)"
        "i_couponTypeId row = dec (rq_couponTypeId request)"
      by (auto simp: select_inventory_def find_Some_iff)
    have "stock_ok db'"
      unfolding record_result_Inr(2) [OF 4(3)] using ok row 4(2)
      by (intro stock_ok_issue) (simp_all add: db_ok_def result_row_def)
    moreover have tables: "d_user_coupons (take_one row db) = d_user_coupons db"
        "d_outbox (take_one row db) = d_outbox db"
        "d_next_user_coupon (take_one row db) = d_next_user_coupon db"
        "d_next_outbox (take_one row db) = d_next_outbox db"
      by (simp_all add: take_one_def sql_update_available_def)
    ultimately show ?thesis
      using ok inventory_keys_ok_take_one [of db row]
      by (intro record_result_ok [OF 4(3)])
        (simp_all add: db_ok_def one_per_user_def codes_unique_def coupon_ids_ok_def outbox_ids_ok_def
          all_announced_def tables)
  qed
qed

section \<open>The invariant under every pattern of faults\<close>

definition counters_at_least :: "int \<Rightarrow> int \<Rightarrow> cdb \<Rightarrow> bool" where
  "counters_at_least m n db \<longleftrightarrow> m \<le> d_next_user_coupon db \<and> n \<le> d_next_outbox db"

text \<open>Rolling back keeps the invariant when the body never lowers a counter.\<close>

lemma keeps_db_ok_transaction:
  assumes "honest m" and grow: "\<And>a b. keeps_inv (counters_at_least a b) m"
    and "\<And>s x s'. db_ok ck s \<Longrightarrow> m (s, []) = (Inr x, s', []) \<Longrightarrow> db_ok ck s'"
  shows "keeps_inv (db_ok ck) (transaction m)"
proof (rule keeps_transaction)
  fix s fs r s' fs'
  assume s: "db_ok ck s" and m: "m (s, fs) = (r, s', fs')"
  have "counters_at_least (d_next_user_coupon s) (d_next_outbox s) (final (m (s, fs)))"
    by (rule keeps_invD [OF grow]) (simp add: counters_at_least_def)
  with m have "counters_grow s s'" by (simp add: counters_at_least_def counters_grow_def)
  with s show "db_ok ck (rollback s s')" by (rule db_ok_rollback)
qed (fact assms)+

lemma counters_user_coupon_insert [keeps]:
  "keeps_inv (counters_at_least a b) (user_coupon_insert ck c)"
  unfolding user_coupon_insert_def
  by (intro keeps) (auto simp: counters_at_least_def sql_insert_user_coupon_def Let_def)

lemma counters_statements [keeps]:
  "keeps_inv (counters_at_least a b) (existsByUserIdAndCouponTypeId u t)"
  "keeps_inv (counters_at_least a b) (event_findById e)"
  "keeps_inv (counters_at_least a b) (findForUpdate e t)"
  "keeps_inv (counters_at_least a b) (updateAvailableCount i)"
  "keeps_inv (counters_at_least a b) (outbox_append g ty p)"
  "keeps_inv (counters_at_least a b) (findByCode ck code)"
  "keeps_inv (counters_at_least a b) (markUsed k v d)"
  unfolding existsByUserIdAndCouponTypeId_def event_findById_def findForUpdate_def
    updateAvailableCount_def outbox_append_def findByCode_def markUsed_def
  by (intro keeps; simp add: counters_at_least_def sql_update_available_def sql_insert_outbox_def
      sql_mark_used_def)+

lemma counters_issue_body: "keeps_inv (counters_at_least a b) (issue_body ck now rnd request)"
  unfolding issue_body_def saveResult_def saveOutbox_def by (intro keeps)

lemma keeps_runIssueTransaction [keeps]:
  "keeps_inv (db_ok ck) (runIssueTransaction ck now rnd request)"
  unfolding runIssueTransaction_def
proof (rule keeps_db_ok_transaction)
  fix s x s'
  assume ok: "db_ok ck s" and "issue_body ck now rnd request (s, []) = (Inr x, s', [])"
  then have "issue_spec ck now rnd request s = (Inr x, s')"
    by (simp add: issue_body_nil prod_eq_iff)
  with ok show "db_ok ck s'" by (rule issue_spec_ok)
qed (fact honest_issue_body counters_issue_body)+

lemma keeps_on_db [keeps]:
  "keeps_inv I m \<Longrightarrow> keeps_inv (\<lambda>c. I (c_db c)) (on_db m)"
  unfolding on_db_def by (erule keeps_zoom) simp_all

lemma keeps_on_redis [keeps]: "keeps_inv (\<lambda>c. I (c_db c)) (on_redis m)"
  unfolding on_redis_def by (rule keeps_zoom [where J = "\<lambda>_. True"]) (simp_all add: keeps_inv_def)

lemma keeps_read [keeps]:
  "keeps_inv I (inventory_findByEventIdAndCouponTypeId e t)"
  unfolding inventory_findByEventIdAndCouponTypeId_def by (intro keeps) simp

lemma keeps_markSoldOutIfDepleted:
  "keeps_inv (\<lambda>c. I (c_db c)) (markSoldOutIfDepleted ttl e t)"
  unfolding markSoldOutIfDepleted_def
  by (intro keeps_try keeps_bnd keeps_ret keeps_option keeps_if keeps_on_redis
      keeps_on_db [OF keeps_read])

lemma keeps_process [keeps]:
  "keeps_inv (\<lambda>c. db_ok ck (c_db c)) (process ck ttl now rnd request)"
proof -
  have "keeps_inv (\<lambda>c. db_ok ck (c_db c))
    (case e of DuplicateUserCouponError m \<Rightarrow> ret None | _ \<Rightarrow> throw e)" for e
    by (cases e) (simp_all add: keeps_ret keeps_throw)
  then show ?thesis
    unfolding process_def
    by (intro keeps_bnd keeps_try keeps_ret keeps_option keeps_if keeps_markSoldOutIfDepleted
        keeps_on_db [OF keeps_runIssueTransaction])
qed

end
