(* ===== verification/C_Issue_Facts.thy ===== *)
theory C_Issue_Facts imports C_Invariant begin

text \<open>
  What \<open>CouponIssueProcessor.process\<close> guarantees its caller, the Kafka consumer of server-c:
  refinement of the transaction, the exceptions that can reach the caller, redelivery, the effect
  of each branch, and when the sold-out cache is written.
\<close>

section \<open>A small shop, the concrete input of the witnesses\<close>

definition shop_event :: event_row where
  "shop_event = \<lparr>e_eventId = dec 7, e_name = ''sale'', e_content = None, e_startedAt = 1000,
     e_endedAt = 9000, e_status = EV_IN_PROGRESS\<rparr>"

definition shop_stock :: "int \<Rightarrow> inventory_row" where
  "shop_stock n = \<lparr>i_inventoryId = dec 1, i_eventId = dec 7, i_couponTypeId = dec 3,
     i_totalInventory = n, i_availableCount = n\<rparr>"

definition shop_db :: "int \<Rightarrow> cdb" where
  "shop_db n = \<lparr>d_events = [shop_event], d_coupon_types = [\<lparr>t_couponTypeId = dec 3, t_eventId = dec 7, t_name = ''ten'',
       t_discountRate = 10\<rparr>],
     d_inventories = [shop_stock n], d_user_coupons = [], d_outbox = [],
     d_next_user_coupon = 1, d_next_outbox = 1, d_now = 5000\<rparr>"

definition empty_redis :: redis where
  "empty_redis = \<lparr>r_now = 5000, r_strings = Map.empty, r_hashes = Map.empty, r_zsets = (\<lambda>_. [])\<rparr>"

definition shop :: "int \<Rightarrow> cstate" where
  "shop n = \<lparr>c_db = shop_db n, c_redis = empty_redis, c_topic = [], c_connected = False,
     c_polling = False, c_refreshing = False\<rparr>"

definition request_of_user :: "int \<Rightarrow> issue_request" where
  "request_of_user u = \<lparr>rq_requestId = ''8f14e45f-ceea-467f-a0e6-0242ac130003'', rq_userId = u,
     rq_eventId = 7, rq_couponTypeId = 3, rq_requestedAt = ''1970-01-01T00:00:05Z''\<rparr>"

lemma shop_db_ok: "0 \<le> n \<Longrightarrow> db_ok ck (shop_db n)"
  by (simp add: db_ok_defs shop_db_def shop_stock_def)

text \<open>The same shop after user 11 has been served with code \<open>AAAAAAAAAAAA\<close>.\<close>

definition served_coupon :: user_coupon where
  "served_coupon = UserCoupon_issue ''AAAAAAAAAAAA'' 11 7 3 UC_SUCCESS 5500"

definition served_db :: "int \<Rightarrow> cdb" where
  "served_db n = announce (toResultPayload (request_of_user 11) R_SUCCESS (Some ''AAAAAAAAAAAA'') 5500)
     (add_row served_coupon (take_one (shop_stock n) (shop_db n)))"

definition served_shop :: "int \<Rightarrow> cstate" where
  "served_shop n = (shop n)\<lparr>c_db := served_db n\<rparr>"

lemma served_db_user_coupons [simp]:
  "d_user_coupons (served_db n) = [with_key (dec 1) (UserCouponMapper_toInsertValues served_coupon)]"
  by (simp add: served_db_def announce_def sql_insert_outbox_def add_row_def take_one_def
      sql_update_available_def bump_def shop_db_def)

lemma served_db_ok:
  assumes "0 < n"
  shows "db_ok ck (served_db n)"
proof -
  have ok: "db_ok ck (shop_db n)" using assms by (intro shop_db_ok) simp
  have "stock_ok (served_db n)"
    unfolding served_db_def using assms ok
    by (intro stock_ok_issue)
      (simp_all add: db_ok_def shop_db_def shop_stock_def served_coupon_def)
  with ok show ?thesis
    unfolding served_db_def using inventory_keys_ok_take_one [of "shop_db n" "shop_stock n"]
    by (intro db_ok_add)
      (simp_all add: db_ok_def one_per_user_def codes_unique_def coupon_ids_ok_def outbox_ids_ok_def
        all_announced_def code_taken_def has_row_def take_one_def sql_update_available_def shop_db_def
        served_coupon_def toResultPayload_def request_of_user_def)
qed

section \<open>Outcomes of the transaction\<close>

lemma on_db_apply: "on_db m (c, fs) =
  (fst (m (c_db c, fs)), c\<lparr>c_db := final (m (c_db c, fs))\<rparr>, snd (snd (m (c_db c, fs))))"
  by (simp add: on_db_def zoom_def split: prod.split)

lemma on_redis_apply: "on_redis m (c, fs) =
  (fst (m (c_redis c, fs)), c\<lparr>c_redis := final (m (c_redis c, fs))\<rparr>, snd (snd (m (c_redis c, fs))))"
  by (simp add: on_redis_def zoom_def split: prod.split)

text \<open>The post-commit check changes nothing but the cache entry of its coupon type, and that only
  when the inventory it read is 0.\<close>

definition sold_out_in :: "int \<Rightarrow> int \<Rightarrow> cdb \<Rightarrow> bool" where
  "sold_out_in e t db \<longleftrightarrow> (\<exists>row. select_inventory e t db = Some row \<and> i_availableCount row = 0)"

lemma markSoldOut_cases:
  "outcome (markSoldOut ttl e t (r, fs)) = Inr ()"
  "final (markSoldOut ttl e t (r, fs)) \<in> {r, snd (do_set_ex (couponAvailable_key e t) ''1'' ttl r)}"
  by (cases rule: external_cases [where e = redis_down and s = r and fs = fs and
        f = "do_set_ex (couponAvailable_key e t) ''1'' ttl"];
      simp add: markSoldOut_def redis_set_ex_def try_catch_def do_set_ex_def)+

lemma markSoldOutIfDepleted_cases:
  "outcome (markSoldOutIfDepleted ttl e t (c, fs)) = Inr ()"
  "final (markSoldOutIfDepleted ttl e t (c, fs)) = c \<or>
   (sold_out_in e t (c_db c) \<and> final (markSoldOutIfDepleted ttl e t (c, fs)) =
      c\<lparr>c_redis := snd (do_set_ex (couponAvailable_key e t) ''1'' ttl (c_redis c))\<rparr>)"
proof -
  let ?f = "\<lambda>db. (map_option CouponTypeInventoryMapper_toDomain (select_inventory e t db), db)"
  have "outcome (markSoldOutIfDepleted ttl e t (c, fs)) = Inr () \<and>
   (final (markSoldOutIfDepleted ttl e t (c, fs)) = c \<or>
    (sold_out_in e t (c_db c) \<and> final (markSoldOutIfDepleted ttl e t (c, fs)) =
      c\<lparr>c_redis := snd (do_set_ex (couponAvailable_key e t) ''1'' ttl (c_redis c))\<rparr>))"
  proof (cases rule: external_cases [where e = mysql_down and s = "c_db c" and fs = fs and f = ?f])
    case (ok r)
    show ?thesis
    proof (cases "select_inventory e t (c_db c)")
      case None
      with ok show ?thesis
        by (simp add: markSoldOutIfDepleted_def try_catch_def bnd_def on_db_apply
            inventory_findByEventIdAndCouponTypeId_def)
    next
      case (Some row)
      have "isDepleted (CouponTypeInventoryMapper_toDomain row) \<longleftrightarrow> i_availableCount row = 0"
        by (simp add: isDepleted_def CouponTypeInventoryMapper_toDomain_def)
      with ok Some markSoldOut_cases [of ttl e t "c_redis c" r] show ?thesis
        by (auto simp: markSoldOutIfDepleted_def try_catch_def bnd_def on_db_apply on_redis_apply
            inventory_findByEventIdAndCouponTypeId_def sold_out_in_def split: prod.split sum.split)
    qed
  next
    case (before r)
    then show ?thesis
      by (simp add: markSoldOutIfDepleted_def try_catch_def bnd_def on_db_apply
          inventory_findByEventIdAndCouponTypeId_def)
  next
    case (after r)
    then show ?thesis
      by (simp add: markSoldOutIfDepleted_def try_catch_def bnd_def on_db_apply
          inventory_findByEventIdAndCouponTypeId_def)
  qed
  then show "outcome (markSoldOutIfDepleted ttl e t (c, fs)) = Inr ()"
    "final (markSoldOutIfDepleted ttl e t (c, fs)) = c \<or>
     (sold_out_in e t (c_db c) \<and> final (markSoldOutIfDepleted ttl e t (c, fs)) =
        c\<lparr>c_redis := snd (do_set_ex (couponAvailable_key e t) ''1'' ttl (c_redis c))\<rparr>)"
    by simp_all
qed

section \<open>Outcomes of process\<close>

definition duplicate_error :: "exn \<Rightarrow> bool" where
  "duplicate_error e \<longleftrightarrow> (case e of DuplicateUserCouponError _ \<Rightarrow> True | _ \<Rightarrow> False)"

lemma process_run:
  assumes "runIssueTransaction ck now rnd request (c_db c, fs) = (o', db', r)"
  shows "process ck ttl now rnd request (c, fs) = (case o' of
      Inl e \<Rightarrow> (if duplicate_error e then Inr () else Inl e, c\<lparr>c_db := db'\<rparr>, r)
    | Inr check \<Rightarrow> if check
        then markSoldOutIfDepleted ttl (rq_eventId request) (rq_couponTypeId request) (c\<lparr>c_db := db'\<rparr>, r)
        else (Inr (), c\<lparr>c_db := db'\<rparr>, r))"
  using assms
  by (cases o') (auto simp: process_def bnd_def try_catch_def on_db_apply duplicate_error_def
      split: exn.split)

lemma process_cases:
  assumes t: "runIssueTransaction ck now rnd request (c_db c, fs) = (o', db', r)"
  shows "c_db (final (process ck ttl now rnd request (c, fs))) = db'"
    "outcome (process ck ttl now rnd request (c, fs)) =
      (case o' of Inl e \<Rightarrow> if duplicate_error e then Inr () else Inl e | Inr _ \<Rightarrow> Inr ())"
    "c_redis (final (process ck ttl now rnd request (c, fs))) = c_redis c \<or>
      (o' = Inr True \<and> sold_out_in (rq_eventId request) (rq_couponTypeId request) db' \<and>
       c_redis (final (process ck ttl now rnd request (c, fs))) =
         snd (do_set_ex (couponAvailable_key (rq_eventId request) (rq_couponTypeId request)) ''1'' ttl
           (c_redis c)))"
  using markSoldOutIfDepleted_cases [of ttl "rq_eventId request" "rq_couponTypeId request"
      "c\<lparr>c_db := db'\<rparr>" r]
  unfolding process_run [OF t] by (cases o'; auto)+

section \<open>Properties\<close>

text \<open>C9. The issue transaction refines its specification: under every pattern of faults it
  either commits exactly what \<open>issue_spec\<close> computes or leaves the committed tables untouched;
  it reports an error after a commit only when the answer to COMMIT is lost.\<close>

theorem issue_transaction_refinement:
  "committed_or_untouched (issue_spec ck now rnd request) db
     (runIssueTransaction ck now rnd request (db, fs))"
  by (rule issue_transaction_refines)

text \<open>An exception that reaches the consumer is never the duplicate-row exception, and unless
  it is a connection failure the rollback has left every table as it was: no stock is taken
  without a coupon row.\<close>

lemma process_error_rolls_back:
  assumes "outcome (process ck ttl now rnd request (c, fs)) = Inl e"
  shows "\<not> duplicate_error e \<and>
    (e \<noteq> mysql_down \<longrightarrow> same_tables (c_db c) (c_db (final (process ck ttl now rnd request (c, fs)))))"
proof -
  obtain o' db' r where t: "runIssueTransaction ck now rnd request (c_db c, fs) = (o', db', r)"
    by (cases "runIssueTransaction ck now rnd request (c_db c, fs)")
  with issue_transaction_refines [of ck now rnd request "c_db c" fs]
  show ?thesis
    using assms process_cases(1,2) [OF t, of ttl]
    by (cases o') (auto simp: committed_or_untouched_def split: if_splits)
qed

lemma settled_untouched:
  assumes "has_row (rq_userId request) (rq_couponTypeId request) (c_db c)"
  shows "same_tables (c_db c) (c_db (final (process ck ttl now rnd request (c, fs)))) \<and>
    c_redis (final (process ck ttl now rnd request (c, fs))) = c_redis c"
proof -
  obtain o' db' r where t: "runIssueTransaction ck now rnd request (c_db c, fs) = (o', db', r)"
    by (cases "runIssueTransaction ck now rnd request (c_db c, fs)")
  from assms have spec: "issue_spec ck now rnd request (c_db c) = (Inr False, c_db c)"
    by (simp add: issue_spec_def)
  with issue_transaction_refines [of ck now rnd request "c_db c" fs] t
  have "same_tables (c_db c) db'" "o' \<noteq> Inr True"
    by (auto simp: committed_or_untouched_def split: sum.splits)
  then show ?thesis
    using process_cases(1,3) [OF t, of ttl] by auto
qed

text \<open>The sold-out cache entry is written only for the pair of the request and only when the
  committed inventory of that pair is 0; every other key keeps its value.\<close>

lemma sold_out_cache_written_when_depleted:
  assumes "live_string (c_redis (final (process ck ttl now rnd request (c, fs)))) k \<noteq>
    live_string (c_redis c) k" and "0 < ttl"
  shows "k = couponAvailable_key (rq_eventId request) (rq_couponTypeId request) \<and>
    sold_out_in (rq_eventId request) (rq_couponTypeId request)
      (c_db (final (process ck ttl now rnd request (c, fs))))"
proof -
  obtain o' db' r where t: "runIssueTransaction ck now rnd request (c_db c, fs) = (o', db', r)"
    by (cases "runIssueTransaction ck now rnd request (c_db c, fs)")
  show ?thesis
    using assms process_cases(1,3) [OF t, of ttl] by (auto split: if_splits)
qed

theorem sold_out_cache_written_when_depleted_witness:
  "sold_out_in 7 3 (c_db (final (process id 86400 6000 (\<lambda>_. 0) (request_of_user 11) (shop 0, []))))"
proof -
  let ?run = "process id 86400 6000 (\<lambda>_. 0) (request_of_user 11) (shop 0, [])"
  have "live_string (c_redis (final ?run)) (couponAvailable_key 7 3) = Some ''1''"
    by (simp add: process_def on_db_apply on_redis_apply runIssueTransaction_def transaction_def bnd_def
        try_catch_def issue_body_nil issue_spec_def record_result_def user_coupon_insert_nil
        has_row_def code_taken_def known_type_def select_inventory_def shop_def shop_db_def
        shop_event_def shop_stock_def request_of_user_def markSoldOutIfDepleted_def
        inventory_findByEventIdAndCouponTypeId_def CouponTypeInventoryMapper_toDomain_def
        isDepleted_def markSoldOut_def redis_set_ex_def announce_def sql_insert_outbox_def result_row_def
        add_row_def bump_def)
  then have "live_string (c_redis (final ?run)) (couponAvailable_key 7 3) \<noteq>
      live_string (c_redis (shop 0)) (couponAvailable_key 7 3)"
    by (simp add: shop_def empty_redis_def live_string_def)
  from sold_out_cache_written_when_depleted [OF this] show ?thesis
    by (simp add: request_of_user_def)
qed

lemma issue_effect:
  fixes ck :: "string \<Rightarrow> string" and ttl now :: int and rnd :: "nat \<Rightarrow> nat"
    and request :: issue_request and c :: cstate
  defines "db \<equiv> c_db c" and "code \<equiv> CouponCode_generate rnd"
    and "db' \<equiv> c_db (final (process ck ttl now rnd request (c, [])))"
  assumes keys: "inventory_keys_ok (c_db c)"
    and free: "\<not> has_row (rq_userId request) (rq_couponTypeId request) (c_db c)"
      "\<not> code_taken ck (CouponCode_generate rnd) (c_db c)" "known_type (rq_couponTypeId request) (c_db c)"
    and ev: "find (\<lambda>row. e_eventId row = dec (rq_eventId request)) (d_events (c_db c)) = Some ev"
      "e_startedAt ev \<le> now" "now \<le> e_endedAt ev"
    and row: "select_inventory (rq_eventId request) (rq_couponTypeId request) (c_db c) = Some row"
      "0 < i_availableCount row"
  shows "outcome (process ck ttl now rnd request (c, [])) = Inr () \<and>
    d_user_coupons db' = d_user_coupons db @ [with_key (dec (d_next_user_coupon db))
      (UserCouponMapper_toInsertValues (UserCoupon_issue code (rq_userId request) (rq_eventId request)
         (rq_couponTypeId request) UC_SUCCESS now))] \<and>
    d_inventories db' = map (\<lambda>i. if i = row
      then i\<lparr>i_availableCount := i_availableCount i - 1\<rparr> else i) (d_inventories db) \<and>
    (\<exists>o'. d_outbox db' = d_outbox db @ [o'] \<and> o_status o' = OB_PENDING \<and>
      o_aggregateId o' = rq_requestId request \<and>
      JSON_parse (o_payload o') = Some (result_json (toResultPayload request R_SUCCESS (Some code) now)))"
proof -
  let ?db1 = "take_one row (c_db c)"
  let ?p = "toResultPayload request R_SUCCESS (Some code) now"
  have tables: "d_user_coupons ?db1 = d_user_coupons db" "d_outbox ?db1 = d_outbox db"
      "d_next_user_coupon ?db1 = d_next_user_coupon db" "d_coupon_types ?db1 = d_coupon_types db"
    by (simp_all add: take_one_def sql_update_available_def db_def)
  have spec: "issue_spec ck now rnd request (c_db c) = (Inr True,
      announce ?p (add_row (result_row request UC_SUCCESS (Some code) now) ?db1))"
    using free ev row
    by (simp add: issue_spec_def record_result_def user_coupon_insert_nil result_row_def code_taken_def
        has_row_def known_type_def tables db_def code_def)
  have t: "runIssueTransaction ck now rnd request (c_db c, []) = (Inr True,
      announce ?p (add_row (result_row request UC_SUCCESS (Some code) now) ?db1), [])"
    by (simp add: runIssueTransaction_def transaction_def issue_body_nil spec)
  have "row \<in> set (d_inventories (c_db c))"
    using row(1) by (auto simp: select_inventory_def find_Some_iff)
  note inv = inventories_take_one [OF keys this row(2)]
  have "db' = announce ?p (add_row (result_row request UC_SUCCESS (Some code) now) ?db1)"
    unfolding db'_def by (rule process_cases(1) [OF t])
  then show ?thesis
    using process_cases(2) [OF t, of ttl] inv
    by (simp add: announce_def sql_insert_outbox_def add_row_def bump_def result_row_def tables
        toResultPayload_def JSON_parse_stringify db_def)
qed

text \<open>The SUCCESS branch: a free user of an active event with stock left gets one row with the
  generated code, the inventory of the pair drops by one and no other does, and one PENDING
  outbox row carries the parseable result.\<close>

lemma process_issues:
  fixes ck :: "string \<Rightarrow> string" and ttl now :: int and rnd :: "nat \<Rightarrow> nat"
    and request :: issue_request and c :: cstate
  defines "db \<equiv> c_db c" and "code \<equiv> CouponCode_generate rnd"
    and "db' \<equiv> c_db (final (process ck ttl now rnd request (c, [])))"
  assumes keys: "inventory_keys_ok (c_db c)"
    and free: "\<not> has_row (rq_userId request) (rq_couponTypeId request) (c_db c)"
      "\<not> code_taken ck (CouponCode_generate rnd) (c_db c)" "known_type (rq_couponTypeId request) (c_db c)"
    and ev: "find (\<lambda>row. e_eventId row = dec (rq_eventId request)) (d_events (c_db c)) = Some ev"
      "e_startedAt ev \<le> now" "now \<le> e_endedAt ev"
    and row: "select_inventory (rq_eventId request) (rq_couponTypeId request) (c_db c) = Some row"
      "0 < i_availableCount row"
  shows "outcome (process ck ttl now rnd request (c, [])) = Inr () \<and>
    d_user_coupons db' = d_user_coupons db @ [with_key (dec (d_next_user_coupon db))
      (UserCouponMapper_toInsertValues (UserCoupon_issue code (rq_userId request) (rq_eventId request)
         (rq_couponTypeId request) UC_SUCCESS now))] \<and>
    d_inventories db' = map (\<lambda>i. if i = row
      then i\<lparr>i_availableCount := i_availableCount i - 1\<rparr> else i) (d_inventories db) \<and>
    (\<exists>o'. d_outbox db' = d_outbox db @ [o'] \<and> o_status o' = OB_PENDING \<and>
      o_aggregateId o' = rq_requestId request \<and>
      JSON_parse (o_payload o') = Some (result_json (toResultPayload request R_SUCCESS (Some code) now)))"
  unfolding db_def code_def db'_def
  by (rule issue_effect [OF keys free ev row])

theorem process_issues_witness:
  "outcome (process id 86400 6000 (\<lambda>_. 0) (request_of_user 11) (shop 5, [])) = Inr ()"
proof -
  have "inventory_keys_ok (c_db (shop 5))" "shop_stock 5 \<in> set (d_inventories (shop_db 5))"
    using shop_db_ok [of 5 id] by (simp_all add: db_ok_def shop_def shop_db_def)
  then show ?thesis
    using process_issues [of "shop 5" "request_of_user 11" id "\<lambda>_. 0" shop_event 6000 "shop_stock 5" 86400]
    by (simp add: shop_def shop_db_def shop_event_def shop_stock_def request_of_user_def has_row_def
        code_taken_def known_type_def select_inventory_def)
qed

text \<open>The closing branches: an event that is not active yields a FAILED row, an active event
  without stock a SOLD_OUT row; both carry the placeholder code, leave every inventory as it is
  and are announced with a \<open>null\<close> coupon code.\<close>

lemma process_closes:
  fixes ck :: "string \<Rightarrow> string" and ttl now :: int and rnd :: "nat \<Rightarrow> nat"
    and request :: issue_request and c :: cstate
  defines "db \<equiv> c_db c" and "db' \<equiv> c_db (final (process ck ttl now rnd request (c, [])))"
  assumes free: "\<not> has_row (rq_userId request) (rq_couponTypeId request) (c_db c)"
      "\<not> code_taken ck (placeholderCode (rq_requestId request)) (c_db c)"
      "known_type (rq_couponTypeId request) (c_db c)"
    and ev: "find (\<lambda>row. e_eventId row = dec (rq_eventId request)) (d_events (c_db c)) = Some ev"
    and closed: "if now < e_startedAt ev \<or> e_endedAt ev < now then status = UC_FAILED
      else status = UC_SOLD_OUT \<and> (\<exists>row. select_inventory (rq_eventId request)
        (rq_couponTypeId request) (c_db c) = Some row \<and> i_availableCount row \<le> 0)"
  shows "outcome (process ck ttl now rnd request (c, [])) = Inr () \<and>
    d_user_coupons db' = d_user_coupons db @ [with_key (dec (d_next_user_coupon db))
      (UserCouponMapper_toInsertValues (UserCoupon_issue (placeholderCode (rq_requestId request))
         (rq_userId request) (rq_eventId request) (rq_couponTypeId request) status now))] \<and>
    d_inventories db' = d_inventories db \<and>
    (\<exists>o'. d_outbox db' = d_outbox db @ [o'] \<and> o_status o' = OB_PENDING \<and>
      o_aggregateId o' = rq_requestId request \<and>
      JSON_parse (o_payload o') =
        Some (result_json (toResultPayload request (result_status_of status) None now)))"
proof -
  let ?p = "toResultPayload request (result_status_of status) None now"
  let ?db = "announce ?p (add_row (result_row request status None now) (c_db c))"
  have "\<exists>check. issue_spec ck now rnd request (c_db c) = (Inr check, ?db)"
    using free ev closed
    by (auto simp: issue_spec_def record_result_def user_coupon_insert_nil result_row_def
        split: if_splits)
  then obtain check where spec: "issue_spec ck now rnd request (c_db c) = (Inr check, ?db)" ..
  have t: "runIssueTransaction ck now rnd request (c_db c, []) = (Inr check, ?db, [])"
    by (simp add: runIssueTransaction_def transaction_def issue_body_nil spec)
  have "db' = ?db" unfolding db'_def by (rule process_cases(1) [OF t])
  then show ?thesis
    using process_cases(2) [OF t, of ttl]
    by (simp add: announce_def sql_insert_outbox_def add_row_def bump_def result_row_def
        toResultPayload_def JSON_parse_stringify db_def)
qed

theorem process_closes_witness:
  "outcome (process id 86400 6000 (\<lambda>_. 0) (request_of_user 11) (shop 0, [])) = Inr () \<and>
   outcome (process id 86400 500 (\<lambda>_. 0) (request_of_user 11) (shop 5, [])) = Inr ()"
  using process_closes [of "request_of_user 11" "shop 0" id shop_event 6000 UC_SOLD_OUT 86400 "\<lambda>_. 0"]
    process_closes [of "request_of_user 11" "shop 5" id shop_event 500 UC_FAILED 86400 "\<lambda>_. 0"]
  by (simp add: shop_def shop_db_def shop_event_def shop_stock_def request_of_user_def has_row_def
      code_taken_def known_type_def select_inventory_def)

text \<open>A collision of coupon codes is not mistaken for a duplicate request: for a user without
  a row the call fails with the driver's error on the code key, and nothing is committed.\<close>

lemma code_collision_surfaces:
  assumes "inventory_keys_ok (c_db c)"
    and "\<not> has_row (rq_userId request) (rq_couponTypeId request) (c_db c)"
      "code_taken ck (CouponCode_generate rnd) (c_db c)"
    and "find (\<lambda>row. e_eventId row = dec (rq_eventId request)) (d_events (c_db c)) = Some ev"
      "e_startedAt ev \<le> now" "now \<le> e_endedAt ev"
    and "select_inventory (rq_eventId request) (rq_couponTypeId request) (c_db c) = Some row"
      "0 < i_availableCount row"
  shows "outcome (process ck ttl now rnd request (c, [])) =
      Inl (dup_entry (CouponCode_generate rnd) UK_USER_COUPON_CODE) \<and>
    same_tables (c_db c) (c_db (final (process ck ttl now rnd request (c, []))))"
proof -
  let ?db1 = "take_one row (c_db c)"
  have spec: "issue_spec ck now rnd request (c_db c) =
      (Inl (dup_entry (CouponCode_generate rnd) UK_USER_COUPON_CODE), bump ?db1)"
    using assms
    by (simp add: issue_spec_def record_result_def user_coupon_insert_nil result_row_def code_taken_def
        take_one_def sql_update_available_def)
  have "runIssueTransaction ck now rnd request (c_db c, []) =
      (Inl (dup_entry (CouponCode_generate rnd) UK_USER_COUPON_CODE), rollback (c_db c) (bump ?db1), [])"
    by (simp add: runIssueTransaction_def transaction_def issue_body_nil spec)
  from process_cases(1,2) [OF this, of ttl] show ?thesis
    by (simp add: duplicate_error_def dup_entry_def)
qed

theorem code_collision_surfaces_witness:
  "outcome (process id 86400 6000 (\<lambda>_. 0) (request_of_user 12) (served_shop 5, [])) =
     Inl (dup_entry ''AAAAAAAAAAAA'' UK_USER_COUPON_CODE)"
proof -
  have code: "CouponCode_generate (\<lambda>_. 0) = ''AAAAAAAAAAAA''"
    by (simp add: CouponCode_generate_def CODE_LENGTH_def ALPHABET_def numeral_eq_Suc)
  have "inventory_keys_ok (c_db (served_shop 5))"
    using served_db_ok [of 5 id] by (simp add: db_ok_def served_shop_def)
  moreover have "d_events (c_db (served_shop 5)) = [shop_event]"
    "d_inventories (c_db (served_shop 5)) = [(shop_stock 5)\<lparr>i_availableCount := 4\<rparr>]"
    by (simp_all add: served_shop_def served_db_def announce_def sql_insert_outbox_def add_row_def
        bump_def take_one_def sql_update_available_def shop_db_def CouponTypeInventoryMapper_toDomain_def
        shop_stock_def)
  ultimately show ?thesis
    using code_collision_surfaces [of "served_shop 5" "request_of_user 12" id "\<lambda>_. 0" shop_event 6000
        "(shop_stock 5)\<lparr>i_availableCount := 4\<rparr>" 86400]
    by (simp add: code served_shop_def request_of_user_def has_row_def same_user_type_def code_taken_def
        served_coupon_def shop_event_def select_inventory_def shop_stock_def)
qed

text \<open>The placeholder of a SOLD_OUT or FAILED row made from a UUID is never a well-formed coupon
  code, so no user can hold it as one.\<close>

lemma placeholder_is_no_code:
  assumes "length requestId = 36" "requestId ! 8 = CHR ''-''"
  shows "isl (CouponCode_of (Some (placeholderCode requestId)))"
proof -
  have len: "length (placeholderCode requestId) = 12" and at: "placeholderCode requestId ! 9 = CHR ''-''"
    using assms by (simp_all add: placeholderCode_def)
  then have "CHR ''-'' \<in> set (placeholderCode requestId)" by (metis nth_mem numeral_less_iff semiring_norm)
  then have "\<not> set (placeholderCode requestId) \<subseteq> set ALPHABET" by (auto simp: ALPHABET_def)
  then show ?thesis
    using CouponCode_of_Inr [of "placeholderCode requestId"]
    by (cases "CouponCode_of (Some (placeholderCode requestId))") auto
qed

end
