(* ===== verification/C_Redeem.thy ===== *)
theory C_Redeem imports C_Issue_Facts begin

text \<open>
  \<open>apps/server-c/src/application/redeem-coupon.service.ts\<close> with its command and result types.
  The transaction is two statements, the SELECT by code and the conditional UPDATE, joined by the
  decision \<open>redeem_check\<close>.  Run alone it is \<open>redeem\<close>; \<open>race_step\<close> interleaves the statements
  of any number of requests, which is where the version guard of ADR-N03 matters.
\<close>

section \<open>The command, the result and the service\<close>

record redeem_command =
  rd_code :: string
  rd_userId :: int

definition RedeemCommand_new :: "string option \<Rightarrow> int \<Rightarrow> exn + redeem_command" where
  "RedeemCommand_new code userId = (case code of
      None \<Rightarrow> Inl (Plain_Error ''code'')
    | Some c \<Rightarrow>
        if blank c then Inl (InvalidArgumentError ''code must not be blank'')
        else if userId \<le> 0
        then Inl (InvalidArgumentError (''userId must be positive but was '' @ dec userId))
        else Inr \<lparr>rd_code = c, rd_userId = userId\<rparr>)"

record redeem_result =
  rr_code :: string
  rr_userId :: int
  rr_redeemedAt :: int
  rr_newlyRedeemed :: bool

definition RedeemResult_succeeded :: "string \<Rightarrow> int \<Rightarrow> int \<Rightarrow> redeem_result" where
  "RedeemResult_succeeded code userId redeemedAt = \<lparr>rr_code = code, rr_userId = userId,
     rr_redeemedAt = redeemedAt, rr_newlyRedeemed = True\<rparr>"

definition RedeemResult_alreadyRedeemed :: "string \<Rightarrow> int \<Rightarrow> int \<Rightarrow> redeem_result" where
  "RedeemResult_alreadyRedeemed code userId redeemedAt = \<lparr>rr_code = code, rr_userId = userId,
     rr_redeemedAt = redeemedAt, rr_newlyRedeemed = False\<rparr>"

definition coupon_not_found :: "redeem_command \<Rightarrow> exn" where
  "coupon_not_found command = CouponNotFoundError (''coupon not found: code='' @ rd_code command)"

text \<open>From the SELECT to the UPDATE: an error, an answer without an update, or the row to update.\<close>

definition redeem_check :: "redeem_command \<Rightarrow> user_coupon option \<Rightarrow> exn + (redeem_result + user_coupon)" where
  "redeem_check command found = (case found of
      None \<Rightarrow> Inl (coupon_not_found command)
    | Some coupon \<Rightarrow>
        if \<not> isOwnedBy coupon (rd_userId command) then Inl (coupon_not_found command)
        else if isRedeemed coupon
        then Inr (Inl (RedeemResult_alreadyRedeemed (uc_code coupon) (uc_userId coupon)
                         (the (uc_usedAt coupon))))
        else if \<not> isRedeemable coupon
        then Inl (InvalidStateError (''coupon is not redeemable: status='' @
                    user_coupon_wire (uc_status coupon)))
        else Inr (Inr coupon))"

definition redeem_update :: "int \<Rightarrow> redeem_command \<Rightarrow> user_coupon \<Rightarrow> (cdb, exn, redeem_result) eff" where
  "redeem_update now command coupon =
     bnd (markUsed (the (uc_id coupon)) (uc_version coupon) now) (\<lambda>affected.
     if affected = 0
     then throw (OptimisticLockFailureError (''concurrent redeem detected: code='' @ rd_code command @
            '', version='' @ dec (uc_version coupon)))
     else ret (RedeemResult_succeeded (uc_code coupon) (uc_userId coupon) now))"

definition redeem_body :: "(string \<Rightarrow> string) \<Rightarrow> int \<Rightarrow> redeem_command \<Rightarrow> (cdb, exn, redeem_result) eff" where
  "redeem_body ck now command = bnd (findByCode ck (rd_code command)) (\<lambda>found.
     case redeem_check command found of
       Inl e \<Rightarrow> throw e
     | Inr r \<Rightarrow> (case r of Inl answer \<Rightarrow> ret answer | Inr coupon \<Rightarrow> redeem_update now command coupon))"

definition redeem :: "(string \<Rightarrow> string) \<Rightarrow> int \<Rightarrow> redeem_command \<Rightarrow> (cdb, exn, redeem_result) eff" where
  "redeem ck now command = transaction (redeem_body ck now command)"

section \<open>Specification\<close>

definition row_by_code :: "(string \<Rightarrow> string) \<Rightarrow> string \<Rightarrow> cdb \<Rightarrow> user_coupon_row option" where
  "row_by_code ck code db = find (\<lambda>row. ck (u_code row) = ck code) (d_user_coupons db)"

definition use_row :: "int \<Rightarrow> user_coupon_row \<Rightarrow> user_coupon_row" where
  "use_row now row = row\<lparr>u_status := UC_USED, u_usedAt := Some now,
     u_version := dec (js_Number (u_version row) + 1)\<rparr>"

definition replace_row :: "user_coupon_row \<Rightarrow> user_coupon_row \<Rightarrow> cdb \<Rightarrow> cdb" where
  "replace_row old new db = db\<lparr>d_user_coupons :=
     map (\<lambda>row. if row = old then new else row) (d_user_coupons db)\<rparr>"

definition redeem_spec ::
  "(string \<Rightarrow> string) \<Rightarrow> int \<Rightarrow> redeem_command \<Rightarrow> cdb \<Rightarrow> (exn + redeem_result) \<times> cdb" where
  "redeem_spec ck now command db = (case row_by_code ck (rd_code command) db of
      None \<Rightarrow> (Inl (coupon_not_found command), db)
    | Some row \<Rightarrow>
        if js_Number (u_userId row) \<noteq> rd_userId command then (Inl (coupon_not_found command), db)
        else (case u_usedAt row of
          Some t \<Rightarrow> (Inr (RedeemResult_alreadyRedeemed (u_code row) (rd_userId command) t), db)
        | None \<Rightarrow>
            if u_status row \<noteq> UC_SUCCESS
            then (Inl (InvalidStateError (''coupon is not redeemable: status='' @
                         user_coupon_wire (u_status row))), db)
            else (Inr (RedeemResult_succeeded (u_code row) (rd_userId command) now),
                  replace_row row (use_row now row) db)))"

text \<open>What the refinement needs of the database: primary keys are unique and canonical.\<close>

definition coupon_keys_ok :: "cdb \<Rightarrow> bool" where
  "coupon_keys_ok db \<longleftrightarrow> distinct (map u_userCouponId (d_user_coupons db)) \<and>
     (\<forall>r \<in> set (d_user_coupons db). canonical (u_userCouponId r) \<and> canonical (u_version r))"

lemma db_ok_coupon_keys: "db_ok ck db \<Longrightarrow> coupon_keys_ok db"
  by (auto simp: db_ok_def coupon_ids_ok_def coupon_keys_ok_def row_ok_def)

lemma coupon_keys_unique:
  assumes "coupon_keys_ok db" "r \<in> set (d_user_coupons db)" "r' \<in> set (d_user_coupons db)"
    and "u_userCouponId r = u_userCouponId r'"
  shows "r = r'"
  using assms by (auto simp: coupon_keys_ok_def distinct_map inj_on_def)

lemma row_by_code_mem: "row_by_code ck code db = Some row \<Longrightarrow> row \<in> set (d_user_coupons db)"
  by (auto simp: row_by_code_def find_Some_iff)

text \<open>The UPDATE on the row that was just read.\<close>

lemma version_matches_read:
  assumes ok: "coupon_keys_ok db" and row: "row \<in> set (d_user_coupons db)" and r: "r \<in> set (d_user_coupons db)"
  shows "version_matches (js_Number (u_userCouponId row)) (js_Number (u_version row)) r \<longleftrightarrow> r = row"
proof -
  have "dec (js_Number (u_userCouponId row)) = u_userCouponId row" "dec (js_Number (u_version row)) = u_version row"
    using ok row by (auto simp: coupon_keys_ok_def canonical_def)
  then show ?thesis using coupon_keys_unique [OF ok r row] by (auto simp: version_matches_def)
qed

lemma sql_mark_used_read:
  assumes ok: "coupon_keys_ok db" and row: "row \<in> set (d_user_coupons db)"
  shows "fst (sql_mark_used (js_Number (u_userCouponId row)) (js_Number (u_version row)) now db) \<noteq> 0"
    "snd (sql_mark_used (js_Number (u_userCouponId row)) (js_Number (u_version row)) now db) =
      replace_row row (use_row now row) db"
proof -
  have f: "filter (version_matches (js_Number (u_userCouponId row)) (js_Number (u_version row)))
      (d_user_coupons db) = filter (\<lambda>r. r = row) (d_user_coupons db)"
    using version_matches_read [OF ok row] by (intro filter_cong) auto
  show "fst (sql_mark_used (js_Number (u_userCouponId row)) (js_Number (u_version row)) now db) \<noteq> 0"
    using row by (simp add: sql_mark_used_def f filter_empty_conv)
  show "snd (sql_mark_used (js_Number (u_userCouponId row)) (js_Number (u_version row)) now db) =
      replace_row row (use_row now row) db"
    using version_matches_read [OF ok row] by (simp add: sql_mark_used_def replace_row_def use_row_def)
qed

lemma honest_redeem_body: "honest (redeem_body ck now command)"
  unfolding redeem_body_def findByCode_def redeem_update_def markUsed_def by (intro honest)

lemma candid_redeem_body: "candid mysql_down (redeem_body ck now command)"
  unfolding redeem_body_def findByCode_def redeem_update_def markUsed_def by (intro candid honest)

lemma redeem_body_nil:
  assumes "coupon_keys_ok db"
  shows "redeem_body ck now command (db, []) =
    (fst (redeem_spec ck now command db), snd (redeem_spec ck now command db), [])"
proof (cases "row_by_code ck (rd_code command) db")
  case None
  then show ?thesis
    by (simp add: redeem_body_def findByCode_def row_by_code_def redeem_check_def redeem_spec_def)
next
  case (Some row)
  note upd = sql_mark_used_read [OF assms row_by_code_mem [OF Some], of now]
  from Some upd show ?thesis
    by (simp add: redeem_body_def findByCode_def row_by_code_def redeem_check_def redeem_spec_def
        UserCouponMapper_toDomain_def isOwnedBy_def isRedeemed_def isRedeemable_def redeem_update_def
        markUsed_def split: option.split)
qed

section \<open>The invariant\<close>

lemma use_row_simps [simp]:
  "u_userCouponId (use_row now r) = u_userCouponId r" "u_code (use_row now r) = u_code r"
  "u_userId (use_row now r) = u_userId r" "u_eventId (use_row now r) = u_eventId r"
  "u_couponTypeId (use_row now r) = u_couponTypeId r" "u_status (use_row now r) = UC_USED"
  "u_usedAt (use_row now r) = Some now"
  by (simp_all add: use_row_def)

text \<open>A map over the rows that keeps their keys and what each tells the world.\<close>

lemma db_ok_map_rows:
  assumes ok: "db_ok ck db"
    and keys: "\<And>r. u_userCouponId (f r) = u_userCouponId r" "\<And>r. u_code (f r) = u_code r"
      "\<And>r. u_userId (f r) = u_userId r" "\<And>r. u_eventId (f r) = u_eventId r"
      "\<And>r. u_couponTypeId (f r) = u_couponTypeId r"
    and st: "\<And>r. r \<in> set (d_user_coupons db) \<Longrightarrow> result_status_of (u_status (f r)) = result_status_of (u_status r)"
    and rows: "\<And>r. r \<in> set (d_user_coupons db) \<Longrightarrow> row_ok r \<Longrightarrow> row_ok (f r)"
  shows "db_ok ck (db\<lparr>d_user_coupons := map f (d_user_coupons db)\<rparr>)"
proof -
  have h: "holds_coupon e t (f r) \<longleftrightarrow> holds_coupon e t r" if "r \<in> set (d_user_coupons db)" for e t r
    using st [OF that] keys by (cases "u_status (f r)"; cases "u_status r") (simp_all add: holds_coupon_def)
  then have "issued_count e t (db\<lparr>d_user_coupons := map f (d_user_coupons db)\<rparr>) = issued_count e t db" for e t
    by (auto simp: issued_count_def filter_map comp_def intro!: arg_cong [where f = length] filter_cong)
  moreover have "announces o' (f r)" if "r \<in> set (d_user_coupons db)" "announces o' r" for o' r
    using that st [OF that(1)] keys unfolding announces_def by auto
  ultimately show ?thesis
    using ok rows keys
    by (simp add: db_ok_def inventory_keys_ok_def stock_ok_def one_per_user_def codes_unique_def
        coupon_ids_ok_def outbox_ids_ok_def all_announced_def comp_def) blast
qed

lemma db_ok_use_row:
  assumes "db_ok ck db" "u_status row = UC_SUCCESS"
  shows "db_ok ck (replace_row row (use_row now row) db)"
  unfolding replace_row_def
  by (rule db_ok_map_rows [OF assms(1)]) (auto simp: assms(2) row_ok_def use_row_def)

lemma redeem_spec_ok:
  assumes "db_ok ck db" "redeem_spec ck now command db = (Inr x, db')"
  shows "db_ok ck db'"
  using assms db_ok_use_row
  by (auto simp: redeem_spec_def split: option.splits if_splits)

lemma keeps_redeem [keeps]: "keeps_inv (db_ok ck) (redeem ck now command)"
  unfolding redeem_def
proof (rule keeps_db_ok_transaction)
  show "keeps_inv (counters_at_least a b) (redeem_body ck now command)" for a b
    unfolding redeem_body_def redeem_update_def by (intro keeps)
  fix s x s'
  assume ok: "db_ok ck s" and "redeem_body ck now command (s, []) = (Inr x, s', [])"
  then have "redeem_spec ck now command s = (Inr x, s')"
    by (simp add: redeem_body_nil [OF db_ok_coupon_keys] prod_eq_iff)
  with ok show "db_ok ck s'" by (rule redeem_spec_ok)
qed (rule honest_redeem_body)

lemma redeem_nil:
  assumes "db_ok ck db"
  shows "redeem ck now command (db, []) =
    (fst (redeem_spec ck now command db), snd (redeem_spec ck now command db), [])"
proof -
  have "rollback db db = db" by (simp add: rollback_def)
  moreover have "snd (redeem_spec ck now command db) = db" if "fst (redeem_spec ck now command db) = Inl e" for e
    using that by (auto simp: redeem_spec_def split: option.splits if_splits)
  ultimately show ?thesis
    by (cases "fst (redeem_spec ck now command db)")
      (simp_all add: redeem_def transaction_def redeem_body_nil [OF db_ok_coupon_keys [OF assms]])
qed

lemma redeem_refines:
  assumes "db_ok ck db"
  shows "committed_or_untouched (redeem_spec ck now command) db (redeem ck now command (db, fs))"
  unfolding redeem_def
  by (intro transaction_refines honest_redeem_body candid_redeem_body redeem_body_nil db_ok_coupon_keys [OF assms])

section \<open>Properties\<close>

text \<open>C25. A redeem call refines its specification: under every pattern of faults it commits exactly
  what \<open>redeem_spec\<close> computes or leaves every table as it was.\<close>

theorem redeem_refinement:
  assumes "db_ok ck db"
  shows "committed_or_untouched (redeem_spec ck now command) db (redeem ck now command (db, fs))"
  by (rule redeem_refines [OF assms])

theorem redeem_refinement_witness:
  "committed_or_untouched (redeem_spec id 8000 \<lparr>rd_code = ''AAAAAAAAAAAA'', rd_userId = 11\<rparr>) (served_db 5)
     (redeem id 8000 \<lparr>rd_code = ''AAAAAAAAAAAA'', rd_userId = 11\<rparr> (served_db 5, [NoFault, NoFault, FailAfter]))"
  by (rule redeem_refinement) (simp add: served_db_ok)

text \<open>The first redeem of an unused SUCCESS coupon by its owner marks that row USED at the given
  time and no other row; every later redeem by the owner answers with the first use time, does
  not claim to be new, and changes nothing.\<close>

lemma redeem_then_replay:
  assumes ok: "db_ok ck db"
    and row: "row_by_code ck (rd_code command) db = Some row" "js_Number (u_userId row) = rd_userId command"
      "u_status row = UC_SUCCESS"
  shows "let db' = replace_row row (use_row now row) db in
    redeem ck now command (db, []) =
      (Inr (RedeemResult_succeeded (u_code row) (rd_userId command) now), db', []) \<and>
    redeem ck now2 command (db', []) =
      (Inr (RedeemResult_alreadyRedeemed (u_code row) (rd_userId command) now), db', [])"
proof -
  let ?db' = "replace_row row (use_row now row) db"
  have "row \<in> set (d_user_coupons db)" by (rule row_by_code_mem [OF row(1)])
  with ok row(3) have "u_usedAt row = None" by (auto simp: db_ok_def row_ok_def)
  with row have first: "redeem_spec ck now command db =
      (Inr (RedeemResult_succeeded (u_code row) (rd_userId command) now), ?db')"
    by (simp add: redeem_spec_def)
  have "find (\<lambda>r. ck (u_code r) = ck (rd_code command)) (map (\<lambda>r. if r = row then use_row now row else r) rs)
      = map_option (\<lambda>r. if r = row then use_row now row else r)
          (find (\<lambda>r. ck (u_code r) = ck (rd_code command)) rs)" for rs
    by (induction rs) auto
  with row(1) have "row_by_code ck (rd_code command) ?db' = Some (use_row now row)"
    by (simp add: row_by_code_def replace_row_def)
  with row(2) have second: "redeem_spec ck now2 command ?db' =
      (Inr (RedeemResult_alreadyRedeemed (u_code row) (rd_userId command) now), ?db')"
    by (simp add: redeem_spec_def)
  have ok': "db_ok ck ?db'" by (rule db_ok_use_row [OF ok row(3)])
  show ?thesis
    by (simp add: Let_def redeem_nil [OF ok] redeem_nil [OF ok'] first second)
qed

theorem redeem_then_replay_witness:
  "redeem id 9500 \<lparr>rd_code = ''AAAAAAAAAAAA'', rd_userId = 11\<rparr>
     (replace_row (with_key (dec 1) (UserCouponMapper_toInsertValues served_coupon))
        (use_row 8000 (with_key (dec 1) (UserCouponMapper_toInsertValues served_coupon))) (served_db 5), []) =
   (Inr (RedeemResult_alreadyRedeemed ''AAAAAAAAAAAA'' 11 8000),
    replace_row (with_key (dec 1) (UserCouponMapper_toInsertValues served_coupon))
      (use_row 8000 (with_key (dec 1) (UserCouponMapper_toInsertValues served_coupon))) (served_db 5), [])"
  using redeem_then_replay [of id "served_db 5" "\<lparr>rd_code = ''AAAAAAAAAAAA'', rd_userId = 11\<rparr>"
      "with_key (dec 1) (UserCouponMapper_toInsertValues served_coupon)" 8000 9500]
  by (simp add: Let_def served_db_ok row_by_code_def served_coupon_def)

end
