(* ===== verification/C_Race.thy ===== *)
theory C_Race imports C_Redeem begin

text \<open>
  Concurrent redeem requests.  Each request runs its SELECT and its UPDATE as two steps, and the
  steps of any number of requests interleave; the UPDATE sees the committed rows of its moment
  (it is a locking read) and commits.  A request can also die between the two.
\<close>

datatype phase = Idle | Selected user_coupon | Finished "exn + redeem_result"

record race =
  rc_db :: cdb
  rc_phase :: "nat \<Rightarrow> phase"

definition after_check :: "exn + (redeem_result + user_coupon) \<Rightarrow> phase" where
  "after_check r = (case r of
      Inl e \<Rightarrow> Finished (Inl e)
    | Inr (Inl answer) \<Rightarrow> Finished (Inr answer)
    | Inr (Inr coupon) \<Rightarrow> Selected coupon)"

inductive race_step :: "(string \<Rightarrow> string) \<Rightarrow> (nat \<Rightarrow> redeem_command) \<Rightarrow> race \<Rightarrow> race \<Rightarrow> bool"
  for ck :: "string \<Rightarrow> string" and cmd :: "nat \<Rightarrow> redeem_command" where
  select: "rc_phase s i = Idle \<Longrightarrow>
    findByCode ck (rd_code (cmd i)) (rc_db s, []) = (Inr found, db, []) \<Longrightarrow>
    race_step ck cmd s (s\<lparr>rc_phase := (rc_phase s)(i := after_check (redeem_check (cmd i) found))\<rparr>)"
| update: "rc_phase s i = Selected coupon \<Longrightarrow>
    redeem_update now (cmd i) coupon (rc_db s, []) = (r, db, []) \<Longrightarrow>
    race_step ck cmd s (s\<lparr>rc_db := db, rc_phase := (rc_phase s)(i := Finished r)\<rparr>)"
| abort: "rc_phase s i = Selected coupon \<Longrightarrow>
    race_step ck cmd s (s\<lparr>rc_phase := (rc_phase s)(i := Finished (Inl mysql_down))\<rparr>)"

inductive_cases race_stepE: "race_step ck cmd s s'"

definition race_start :: "(string \<Rightarrow> string) \<Rightarrow> race \<Rightarrow> bool" where
  "race_start ck s \<longleftrightarrow> db_ok ck (rc_db s) \<and> (\<forall>i. rc_phase s i = Idle)"

definition race_reachable :: "(string \<Rightarrow> string) \<Rightarrow> (nat \<Rightarrow> redeem_command) \<Rightarrow> race \<Rightarrow> race \<Rightarrow> bool" where
  "race_reachable ck cmd s0 s \<longleftrightarrow> race_start ck s0 \<and> (race_step ck cmd)\<^sup>*\<^sup>* s0 s"

text \<open>Request \<open>i\<close> ended with a first use.\<close>

definition won :: "race \<Rightarrow> nat \<Rightarrow> redeem_result \<Rightarrow> bool" where
  "won s i r \<longleftrightarrow> rc_phase s i = Finished (Inr r) \<and> rr_newlyRedeemed r"

section \<open>The invariant\<close>

text \<open>What was read is still true, or the version has moved on.\<close>

definition read_ok :: "user_coupon \<Rightarrow> cdb \<Rightarrow> bool" where
  "read_ok c db \<longleftrightarrow> (\<exists>row \<in> set (d_user_coupons db).
     u_userCouponId row = dec (the (uc_id c)) \<and> u_code row = uc_code c \<and>
     (uc_version c < js_Number (u_version row) \<or>
      (uc_version c = js_Number (u_version row) \<and> u_status row = UC_SUCCESS)))"

definition used_row :: "redeem_result \<Rightarrow> cdb \<Rightarrow> bool" where
  "used_row r db \<longleftrightarrow> (\<exists>row \<in> set (d_user_coupons db). u_code row = rr_code r \<and>
     u_status row = UC_USED \<and> u_usedAt row = Some (rr_redeemedAt r))"

definition race_inv :: "(string \<Rightarrow> string) \<Rightarrow> race \<Rightarrow> bool" where
  "race_inv ck s \<longleftrightarrow> db_ok ck (rc_db s) \<and>
     (\<forall>i c. rc_phase s i = Selected c \<longrightarrow> read_ok c (rc_db s)) \<and>
     (\<forall>i r. won s i r \<longrightarrow> used_row r (rc_db s)) \<and>
     (\<forall>i j r r'. won s i r \<longrightarrow> won s j r' \<longrightarrow> rr_code r = rr_code r' \<longrightarrow> i = j)"

lemma race_inv_start: "race_start ck s \<Longrightarrow> race_inv ck s"
  by (simp add: race_start_def race_inv_def won_def)

text \<open>A step that leaves the rows alone and makes no winner.\<close>

lemma race_inv_local:
  assumes "race_inv ck s" and "\<And>c. p = Selected c \<Longrightarrow> read_ok c (rc_db s)"
    and "\<And>r. p = Finished (Inr r) \<Longrightarrow> \<not> rr_newlyRedeemed r"
  shows "race_inv ck (s\<lparr>rc_phase := (rc_phase s)(i := p)\<rparr>)"
  using assms by (auto simp: race_inv_def won_def split: if_splits)

lemma selected_read_ok:
  assumes "db_ok ck db" "findByCode ck code (db, []) = (Inr found, db', [])"
    and "redeem_check command found = Inr (Inr c)"
  shows "read_ok c db"
proof -
  from assms(3) obtain coupon where c: "found = Some coupon" "c = coupon" "isRedeemable coupon"
    by (auto simp: redeem_check_def split: option.splits if_splits)
  with assms(2) obtain row where row: "row_by_code ck code db = Some row"
      "coupon = UserCouponMapper_toDomain row"
    by (auto simp: findByCode_def row_by_code_def)
  have "row \<in> set (d_user_coupons db)" by (rule row_by_code_mem [OF row(1)])
  with assms(1) c row(2) show ?thesis
    by (auto simp: read_ok_def UserCouponMapper_toDomain_def isRedeemable_def db_ok_def
        coupon_ids_ok_def intro!: bexI [of _ row])
qed

lemma race_inv_select:
  assumes "race_inv ck s" "findByCode ck (rd_code (cmd i)) (rc_db s, []) = (Inr found, db, [])"
  shows "race_inv ck (s\<lparr>rc_phase := (rc_phase s)(i := after_check (redeem_check (cmd i) found))\<rparr>)"
proof (rule race_inv_local [OF assms(1)])
  fix c assume "after_check (redeem_check (cmd i) found) = Selected c"
  then have "redeem_check (cmd i) found = Inr (Inr c)"
    by (auto simp: after_check_def split: sum.splits)
  with assms show "read_ok c (rc_db s)"
    by (intro selected_read_ok) (auto simp: race_inv_def)
next
  fix r assume "after_check (redeem_check (cmd i) found) = Finished (Inr r)"
  then have "redeem_check (cmd i) found = Inr (Inl r)"
    by (auto simp: after_check_def split: sum.splits)
  then show "\<not> rr_newlyRedeemed r"
    by (auto simp: redeem_check_def RedeemResult_alreadyRedeemed_def split: option.splits if_splits)
qed

text \<open>The UPDATE either matches no row, or exactly the row that was read, still unused.\<close>

lemma redeem_update_cases:
  assumes "redeem_update now command c (db, []) = (r, db', [])"
    and ok: "db_ok ck db" and read: "read_ok c db"
  obtains (raced) e where "r = Inl e" "db' = db"
  | (used) row where "row \<in> set (d_user_coupons db)" "u_code row = uc_code c" "u_status row = UC_SUCCESS"
      "u_userCouponId row = dec (the (uc_id c))" "u_version row = dec (uc_version c)"
      "r = Inr (RedeemResult_succeeded (uc_code c) (uc_userId c) now)"
      "db' = replace_row row (use_row now row) db"
proof -
  let ?k = "the (uc_id c)" let ?v = "uc_version c"
  note keys = db_ok_coupon_keys [OF ok]
  show thesis
  proof (cases "\<exists>row \<in> set (d_user_coupons db). version_matches ?k ?v row")
    case False
    then have "filter (version_matches ?k ?v) (d_user_coupons db) = []" by (simp add: filter_empty_conv)
    moreover from False have "snd (sql_mark_used ?k ?v now db) = db"
      by (simp add: sql_mark_used_def map_idI)
    ultimately show ?thesis
      using assms(1) by (intro raced) (auto simp: redeem_update_def markUsed_def sql_mark_used_def)
  next
    case True
    then obtain row where row: "row \<in> set (d_user_coupons db)" "version_matches ?k ?v row" by blast
    from read obtain row' where row': "row' \<in> set (d_user_coupons db)" "u_userCouponId row' = dec ?k"
        "u_code row' = uc_code c" "?v < js_Number (u_version row') \<or>
          (?v = js_Number (u_version row') \<and> u_status row' = UC_SUCCESS)"
      by (auto simp: read_ok_def)
    from row(2) have kv: "u_userCouponId row = dec ?k" "u_version row = dec ?v"
      by (simp_all add: version_matches_def)
    with coupon_keys_unique [OF keys row(1) row'(1)] row'(2) have "row' = row" by simp
    with row' kv have c: "u_code row = uc_code c" "u_status row = UC_SUCCESS" by auto
    have "?k = js_Number (u_userCouponId row)" "?v = js_Number (u_version row)"
      using kv by simp_all
    with sql_mark_used_read [OF keys row(1), of now]
    have "fst (sql_mark_used ?k ?v now db) \<noteq> 0"
      "snd (sql_mark_used ?k ?v now db) = replace_row row (use_row now row) db" by simp_all
    with assms(1) show ?thesis
      using row(1) c kv by (intro used) (auto simp: redeem_update_def markUsed_def)
  qed
qed

lemma read_ok_use_row:
  assumes "read_ok c db" "coupon_keys_ok db"
    "row \<in> set (d_user_coupons db)"
  shows "read_ok c (replace_row row (use_row now row) db)"
proof -
  from assms(1) obtain r where r: "r \<in> set (d_user_coupons db)" "u_userCouponId r = dec (the (uc_id c))"
      "u_code r = uc_code c" "uc_version c < js_Number (u_version r) \<or>
        (uc_version c = js_Number (u_version r) \<and> u_status r = UC_SUCCESS)"
    by (auto simp: read_ok_def)
  let ?f = "\<lambda>x. if x = row then use_row now row else x"
  have "js_Number (u_version (use_row now row)) = js_Number (u_version row) + 1"
    by (simp add: use_row_def)
  with r have "u_userCouponId (?f r) = dec (the (uc_id c))" "u_code (?f r) = uc_code c"
    "uc_version c < js_Number (u_version (?f r)) \<or>
      (uc_version c = js_Number (u_version (?f r)) \<and> u_status (?f r) = UC_SUCCESS)" by auto
  moreover have "?f r \<in> set (d_user_coupons (replace_row row (use_row now row) db))"
  proof -
    have "d_user_coupons (replace_row row (use_row now row) db) = map ?f (d_user_coupons db)"
      by (simp add: replace_row_def)
    then show ?thesis using imageI [OF r(1), of ?f] by (simp only: set_map)
  qed
  ultimately show ?thesis unfolding read_ok_def by blast
qed

lemma used_row_keeps:
  assumes "used_row r db" "u_status row = UC_SUCCESS"
  shows "used_row r (replace_row row (use_row now row) db)"
  using assms by (force simp: used_row_def replace_row_def)

lemma race_inv_update:
  assumes inv: "race_inv ck s" and sel: "rc_phase s i = Selected coupon"
    and upd: "redeem_update now (cmd i) coupon (rc_db s, []) = (r, db, [])"
  shows "race_inv ck (s\<lparr>rc_db := db, rc_phase := (rc_phase s)(i := Finished r)\<rparr>)"
proof -
  have ok: "db_ok ck (rc_db s)" and read: "read_ok coupon (rc_db s)"
    using inv sel by (auto simp: race_inv_def)
  from upd ok read show ?thesis
  proof (cases rule: redeem_update_cases)
    case (raced e)
    then show ?thesis using race_inv_local [OF inv, of "Finished r" i] by simp
  next
    case (used row)
    let ?db = "replace_row row (use_row now row) (rc_db s)"
    let ?s = "s\<lparr>rc_db := db, rc_phase := (rc_phase s)(i := Finished r)\<rparr>"
    have new: "used_row (RedeemResult_succeeded (uc_code coupon) (uc_userId coupon) now) ?db"
      using used(1,2) by (auto simp: used_row_def RedeemResult_succeeded_def replace_row_def
          intro!: bexI [of _ row])
    have fresh: "rr_code r' \<noteq> uc_code coupon" if "won s j r'" for j r'
    proof
      assume code: "rr_code r' = uc_code coupon"
      from that inv have "used_row r' (rc_db s)" by (auto simp: race_inv_def)
      then obtain row' where row': "row' \<in> set (d_user_coupons (rc_db s))" "u_code row' = rr_code r'"
          "u_status row' = UC_USED" by (auto simp: used_row_def)
      with code used(1,2) ok have "row' = row"
        by (auto simp: db_ok_def codes_unique_def distinct_map inj_on_def)
      with row'(3) used(3) show False by simp
    qed
    have w: "won ?s j r' \<longleftrightarrow> (if j = i then r' = RedeemResult_succeeded (uc_code coupon) (uc_userId coupon) now
        else won s j r')" for j r'
      by (auto simp: won_def used(6) RedeemResult_succeeded_def)
    have ok': "db_ok ck ?db" by (rule db_ok_use_row [OF ok used(3)])
    have read': "read_ok c ?db" if "rc_phase s j = Selected c" for j c
      using inv that by (intro read_ok_use_row db_ok_coupon_keys [OF ok] used(1)) (auto simp: race_inv_def)
    have used': "used_row r' ?db" if "won s j r'" for j r'
      using inv that by (intro used_row_keeps used(3)) (auto simp: race_inv_def)
    have unique: "j = k" if "won ?s j r1" "won ?s k r2" "rr_code r1 = rr_code r2" for j k r1 r2
    proof -
      have old: "won s j r1 \<Longrightarrow> won s k r2 \<Longrightarrow> j = k"
        using inv that(3) unfolding race_inv_def by blast
      have code: "rr_code (RedeemResult_succeeded (uc_code coupon) (uc_userId coupon) now) = uc_code coupon"
        by (simp add: RedeemResult_succeeded_def)
      from that(1) have j: "if j = i then rr_code r1 = uc_code coupon else won s j r1"
        by (simp add: w code split: if_splits)
      from that(2) have k: "if k = i then rr_code r2 = uc_code coupon else won s k r2"
        by (simp add: w code split: if_splits)
      from j k that(3) fresh [of j r1] fresh [of k r2] have iff: "j = i \<longleftrightarrow> k = i"
        by (auto split: if_splits)
      show ?thesis
      proof (cases "j = i")
        case True
        with iff show ?thesis by simp
      next
        case False
        with j k iff have "won s j r1" "won s k r2" by simp_all
        then show ?thesis by (rule old)
      qed
    qed
    show ?thesis
      unfolding race_inv_def
    proof (intro conjI allI impI)
      show "db_ok ck (rc_db ?s)" using ok' by (simp add: used(7))
      show "read_ok c (rc_db ?s)" if "rc_phase ?s j = Selected c" for j c
        using that read' [of j c] by (simp add: used(7) split: if_splits)
      show "used_row r' (rc_db ?s)" if "won ?s j r'" for j r'
        using that [unfolded w] used' [of j r'] new by (simp add: used(7) split: if_splits)
      show "j = k" if "won ?s j r1" "won ?s k r2" "rr_code r1 = rr_code r2" for j k r1 r2
        using that by (rule unique)
    qed
  qed
qed

lemma race_inv_step: "race_step ck cmd s s' \<Longrightarrow> race_inv ck s \<Longrightarrow> race_inv ck s'"
proof (induction rule: race_step.induct)
  case (select s i found db)
  then show ?case by (intro race_inv_select)
next
  case (update s i coupon now r db)
  then show ?case by (intro race_inv_update)
next
  case (abort s i coupon)
  then show ?case by (intro race_inv_local) simp_all
qed

lemma race_inv_reachable: "race_reachable ck cmd s0 s \<Longrightarrow> race_inv ck s"
proof -
  assume "race_reachable ck cmd s0 s"
  then have "(race_step ck cmd)\<^sup>*\<^sup>* s0 s" "race_start ck s0" by (simp_all add: race_reachable_def)
  then show ?thesis
    by (induction rule: rtranclp_induct) (auto intro: race_inv_start race_inv_step)
qed

section \<open>Properties\<close>

text \<open>C13. However the statements of concurrent redeem requests interleave, at most one is told that it used the
  coupon of a given code, and the use time it is told is the one in the database, where it stays
  whatever the other requests do.\<close>

theorem redeem_race_single_winner:
  assumes "race_reachable ck cmd s0 s" "won s i r"
  shows "(\<forall>j r'. won s j r' \<and> rr_code r' = rr_code r \<longrightarrow> j = i) \<and>
    (\<exists>row \<in> set (d_user_coupons (rc_db s)). u_code row = rr_code r \<and> u_status row = UC_USED \<and>
      u_usedAt row = Some (rr_redeemedAt r))"
  using race_inv_reachable [OF assms(1)] assms(2) unfolding race_inv_def used_row_def by auto

text \<open>Two requests for the coupon of the served shop: both read it, the first one wins.\<close>

definition two_clients :: "nat \<Rightarrow> redeem_command" where
  "two_clients i = \<lparr>rd_code = ''AAAAAAAAAAAA'', rd_userId = 11\<rparr>"

definition served_row :: user_coupon_row where
  "served_row = with_key (dec 1) (UserCouponMapper_toInsertValues served_coupon)"

definition race0 :: race where
  "race0 = \<lparr>rc_db = served_db 5, rc_phase = (\<lambda>_. Idle)\<rparr>"

definition race1 :: race where
  "race1 = race0\<lparr>rc_phase := (rc_phase race0)(0 := Selected (served_coupon\<lparr>uc_id := Some 1\<rparr>))\<rparr>"

definition race2 :: race where
  "race2 = race1\<lparr>rc_db := replace_row served_row (use_row 8000 served_row) (served_db 5),
     rc_phase := (rc_phase race1)(0 := Finished (Inr (RedeemResult_succeeded ''AAAAAAAAAAAA'' 11 8000)))\<rparr>"

lemma race2_reachable: "race_reachable id two_clients race0 race2"
proof -
  have found: "findByCode id ''AAAAAAAAAAAA'' (served_db 5, []) =
      (Inr (Some (served_coupon\<lparr>uc_id := Some 1\<rparr>)), served_db 5, [])"
    by (simp add: findByCode_def mapper_roundtrip) (simp add: served_coupon_def)
  have "race_step id two_clients race0 race1"
    using race_step.select [of race0 0 id two_clients "Some (served_coupon\<lparr>uc_id := Some 1\<rparr>)" "served_db 5"] found
    by (simp add: race0_def race1_def two_clients_def after_check_def redeem_check_def isOwnedBy_def
        isRedeemed_def isRedeemable_def served_coupon_def)
  moreover have "race_step id two_clients race1 race2"
  proof -
    have row: "served_row \<in> set (d_user_coupons (served_db 5))" by (simp add: served_row_def)
    have "js_Number (u_userCouponId served_row) = 1" "js_Number (u_version served_row) = 0"
      by (simp_all add: served_row_def served_coupon_def)
    moreover have "coupon_keys_ok (served_db 5)"
      by (rule db_ok_coupon_keys [OF served_db_ok [of 5 id]]) simp
    note upd = sql_mark_used_read [OF this row, of 8000]
    ultimately
    have "redeem_update 8000 (two_clients 0) (served_coupon\<lparr>uc_id := Some 1\<rparr>) (served_db 5, []) =
        (Inr (RedeemResult_succeeded ''AAAAAAAAAAAA'' 11 8000),
         replace_row served_row (use_row 8000 served_row) (served_db 5), [])"
      using upd by (simp add: redeem_update_def markUsed_def) (simp add: served_coupon_def)
    then show ?thesis
      using race_step.update [of race1 0 "served_coupon\<lparr>uc_id := Some 1\<rparr>" 8000 two_clients]
      by (simp add: race1_def race0_def race2_def)
  qed
  ultimately show ?thesis
    by (auto simp: race_reachable_def race_start_def race0_def served_db_ok
        intro: converse_rtranclp_into_rtranclp)
qed

lemma race2_won: "won race2 0 (RedeemResult_succeeded ''AAAAAAAAAAAA'' 11 8000)"
  by (simp add: won_def race2_def RedeemResult_succeeded_def)

theorem redeem_race_single_winner_witness:
  "list_ex (\<lambda>row. u_code row = ''AAAAAAAAAAAA'' \<and> u_status row = UC_USED \<and> u_usedAt row = Some 8000) (d_user_coupons (rc_db race2))"
  using redeem_race_single_winner [OF race2_reachable race2_won] by (simp add: RedeemResult_succeeded_def list_ex_iff)

end
