(* ===== verification/Kafka_Consumer.thy ===== *)
theory Kafka_Consumer imports Wire begin

text \<open>
  The consumer discipline that server-b (\<open>coupon-issue-result.consumer.ts\<close>) and server-c
  (\<open>coupon-issue-request.consumer.ts\<close>) share line by line: a record is parsed, handed to the
  handler at most \<open>maxDeliveryAttempts\<close> times and then skipped; its offset is resolved and
  committed before the next record; a batch stops after \<open>maxRecordsPerBatch\<close> records.
  \<open>h k p\<close> is the handler's k-th attempt on payload \<open>p\<close> (attempts differ in clock and
  randomness).  kafkajs is the part of the state that remembers offsets, and it does with them what
  its documentation says for the options the consumer passes to \<open>run\<close>.
\<close>

section \<open>One record\<close>

fun delivery_attempts ::
  "nat \<Rightarrow> nat \<Rightarrow> (nat \<Rightarrow> 'p \<Rightarrow> ('s, exn, unit) eff) \<Rightarrow> 'p \<Rightarrow> ('s, exn, unit) eff" where
  "delivery_attempts 0 attempt h p = ret ()"
| "delivery_attempts (Suc left) attempt h p =
     try_catch (h attempt p)
       (\<lambda>e. if left = 0 then ret () else delivery_attempts left (Suc attempt) h p)"

definition deliver ::
  "nat \<Rightarrow> (string option \<Rightarrow> 'p option) \<Rightarrow> (nat \<Rightarrow> 'p \<Rightarrow> ('s, exn, unit) eff) \<Rightarrow> string option \<Rightarrow> ('s, exn, unit) eff" where
  "deliver maxDeliveryAttempts parse h val = (case parse val of
      None \<Rightarrow> ret ()
    | Some payload \<Rightarrow> delivery_attempts maxDeliveryAttempts 1 h payload)"

section \<open>One batch\<close>

record message =
  m_value :: "string option"
  m_offset :: int

record offsets =
  k_resolved :: "int list"
  k_committed :: "int list"

text \<open>The options of \<open>consumer.run\<close>.\<close>

record run_options =
  ro_autoCommit :: bool
  ro_autoCommitThreshold :: nat
  ro_eachBatchAutoResolve :: bool
  ro_partitionsConsumedConcurrently :: int

text \<open>
  \<open>commitOffsetsIfNecessary()\<close>: all resolved offsets become committed once as many of them wait as
  the threshold says; without \<open>autoCommit\<close> it does nothing.
\<close>

definition commit_offsets :: "run_options \<Rightarrow> offsets \<Rightarrow> offsets" where
  "commit_offsets opts k =
     (if ro_autoCommit opts \<and> ro_autoCommitThreshold opts \<le> length (k_resolved k) - length (k_committed k)
      then k\<lparr>k_committed := k_resolved k\<rparr> else k)"

definition kafka_gone :: exn where
  "kafka_gone = Connection_Error ''kafka''"

definition on_fst :: "('s, exn, 'a) eff \<Rightarrow> ('s \<times> 'k, exn, 'a) eff" where
  "on_fst = zoom fst (\<lambda>s (_, k). (s, k))"

text \<open>\<open>go i\<close> is \<open>isRunning() && !isStale()\<close> before the i-th record of the batch.\<close>

fun each_batch ::
  "run_options \<Rightarrow> nat \<Rightarrow> (nat \<Rightarrow> bool) \<Rightarrow> (string option \<Rightarrow> ('s, exn, unit) eff) \<Rightarrow> nat \<Rightarrow> message list \<Rightarrow> ('s \<times> offsets, exn, unit) eff" where
  "each_batch opts maxRecords go dlv processed [] = ret ()"
| "each_batch opts maxRecords go dlv processed (msg # msgs) =
    (if \<not> go processed then ret ()
     else if maxRecords \<le> processed then ret ()
     else
       bnd (on_fst (dlv (m_value msg))) (\<lambda>_.
       bnd (modify (\<lambda>(s, k). (s, k\<lparr>k_resolved := k_resolved k @ [m_offset msg]\<rparr>))) (\<lambda>_.
       bnd (external kafka_gone (\<lambda>(s, k). ((), (s, commit_offsets opts k)))) (\<lambda>_.
       bnd (external kafka_gone (\<lambda>w. ((), w))) (\<lambda>_.
       each_batch opts maxRecords go dlv (Suc processed) msgs)))))"

text \<open>
  What kafkajs does with a batch: it runs \<open>eachBatch\<close>; when that returns it resolves the last offset
  of the batch, if \<open>eachBatchAutoResolve\<close> is set, and commits what is resolved, if \<open>autoCommit\<close> is.
\<close>

definition run_batch ::
  "run_options \<Rightarrow> nat \<Rightarrow> (nat \<Rightarrow> bool) \<Rightarrow> (string option \<Rightarrow> ('s, exn, unit) eff) \<Rightarrow> message list \<Rightarrow> ('s \<times> offsets, exn, unit) eff" where
  "run_batch opts maxRecords go dlv msgs =
     bnd (each_batch opts maxRecords go dlv 0 msgs) (\<lambda>_.
     bnd (if ro_eachBatchAutoResolve opts \<and> msgs \<noteq> []
          then modify (\<lambda>(s, k). (s, k\<lparr>k_resolved := k_resolved k @ [m_offset (last msgs)]\<rparr>)) else ret ()) (\<lambda>_.
     if ro_autoCommit opts then external kafka_gone (\<lambda>(s, k). ((), (s, k\<lparr>k_committed := k_resolved k\<rparr>))) else ret ()))"

section \<open>Laws\<close>

lemma attempts_never_throw: "outcome (delivery_attempts n k h p w) = Inr ()"
proof (induction n arbitrary: k w)
  case 0
  then show ?case by (cases w) simp
next
  case (Suc n)
  then show ?case
    by (cases "h k p w"; cases "fst (h k p w)"; cases w)
      (auto simp: try_catch_def ret_def split: prod.split)
qed

lemma deliver_never_throws: "outcome (deliver n parse h v w) = Inr ()"
  using attempts_never_throw by (cases w) (auto simp: deliver_def split: option.split)

text \<open>The handler is only ever called with attempt numbers below the limit.\<close>

lemma attempts_cong:
  "(\<And>j. k \<le> j \<Longrightarrow> j < k + n \<Longrightarrow> h j p = h' j p) \<Longrightarrow> delivery_attempts n k h p = delivery_attempts n k h' p"
proof (induction n arbitrary: k)
  case (Suc n)
  have "delivery_attempts n (Suc k) h p = delivery_attempts n (Suc k) h' p"
    by (rule Suc.IH) (simp add: Suc.prems)
  moreover have "h k p = h' k p" by (rule Suc.prems) simp_all
  ultimately show ?case by simp
qed simp

text \<open>A sequence of deliveries, each under some faults.\<close>

fun delivered :: "(string option \<Rightarrow> ('s, exn, unit) eff) \<Rightarrow> message list \<Rightarrow> 's \<Rightarrow> 's \<Rightarrow> bool" where
  "delivered dlv [] s s' \<longleftrightarrow> s' = s"
| "delivered dlv (msg # msgs) s s'' \<longleftrightarrow>
     (\<exists>fs. delivered dlv msgs (final (dlv (m_value msg) (s, fs))) s'')"

lemma on_fst_apply: "on_fst m ((s, k), fs) = (fst (m (s, fs)), (final (m (s, fs)), k), snd (snd (m (s, fs))))"
  by (simp add: on_fst_def zoom_def split: prod.split)

text \<open>
  The offsets say exactly what was delivered: the records whose offsets are resolved are a prefix
  of the batch, in order and within the limit, and the state is the one their deliveries lead
  to.  Committed offsets are always a prefix of the resolved ones.
\<close>

definition commit_ok :: "offsets \<Rightarrow> bool" where
  "commit_ok k \<longleftrightarrow> (\<exists>rest. k_resolved k = k_committed k @ rest)"

lemma commit_ok_step: "commit_ok k \<Longrightarrow> commit_ok (commit_offsets opts k)"
  by (auto simp: commit_ok_def commit_offsets_def)

lemma commit_resolved [simp]: "k_resolved (commit_offsets opts k) = k_resolved k"
  by (simp add: commit_offsets_def)

lemma each_batch_prefix:
  assumes never: "\<And>v w. outcome (dlv v w) = Inr ()" and "commit_ok k" "processed \<le> maxRecords"
  shows "\<exists>n s' k'. final (each_batch opts maxRecords go dlv processed msgs ((s, k), fs)) = (s', k') \<and>
    n \<le> length msgs \<and> processed + n \<le> maxRecords \<and>
    k_resolved k' = k_resolved k @ map m_offset (take n msgs) \<and> commit_ok k' \<and>
    delivered dlv (take n msgs) s s'"
  using assms(2,3)
proof (induction msgs arbitrary: processed s k fs)
  case Nil
  then show ?case by (intro exI [of _ 0]) simp
next
  case (Cons msg msgs)
  show ?case
  proof (cases "go processed \<and> processed < maxRecords")
    case False
    with Cons.prems show ?thesis by (intro exI [of _ 0]) auto
  next
    case True
    obtain s1 fs1 where d: "dlv (m_value msg) (s, fs) = (Inr (), s1, fs1)"
      using never [of "m_value msg" "(s, fs)"] by (cases "dlv (m_value msg) (s, fs)") auto
    let ?k1 = "k\<lparr>k_resolved := k_resolved k @ [m_offset msg]\<rparr>"
    have k1: "commit_ok ?k1" using Cons.prems(1) by (auto simp: commit_ok_def)
    let ?c = "external kafka_gone (\<lambda>(s, k). ((), (s, commit_offsets opts k))) :: ('a \<times> offsets, exn, unit) eff"
    let ?h = "external kafka_gone (\<lambda>w. ((), w)) :: ('a \<times> offsets, exn, unit) eff"
    let ?rest = "\<lambda>_::unit. each_batch opts maxRecords go dlv (Suc processed) msgs"
    have run: "each_batch opts maxRecords go dlv processed (msg # msgs) ((s, k), fs) =
        bnd ?c (\<lambda>_. bnd ?h ?rest) ((s1, ?k1), fs1)"
      using True d by (simp add: bnd_def on_fst_apply)
    have stop: ?thesis
      if "final (each_batch opts maxRecords go dlv processed (msg # msgs) ((s, k), fs)) = (s1, k2)"
        "commit_ok k2" "k_resolved k2 = k_resolved ?k1" for k2
      using that True d by (intro exI [of _ 1] exI [of _ s1] exI [of _ k2]) (auto intro: exI [of _ fs])
    show ?thesis
    proof (cases rule: external_cases [where e = kafka_gone and s = "(s1, ?k1)" and fs = fs1 and
          f = "\<lambda>(s, k). ((), (s, commit_offsets opts k))"])
      case (ok fs2)
      let ?k2 = "commit_offsets opts ?k1"
      have k2: "commit_ok ?k2" by (rule commit_ok_step [OF k1])
      show ?thesis
      proof (cases rule: external_cases [where e = kafka_gone and s = "(s1, ?k2)" and fs = fs2 and
            f = "\<lambda>w :: 'a \<times> offsets. ((), w)"])
        case (ok fs3)
        with \<open>?c ((s1, ?k1), fs1) = _\<close>
        have "each_batch opts maxRecords go dlv processed (msg # msgs) ((s, k), fs) = ?rest () ((s1, ?k2), fs3)"
          by (simp add: run bnd_def del: each_batch.simps)
        moreover obtain n s' k' where n: "final (?rest () ((s1, ?k2), fs3)) = (s', k')" "n \<le> length msgs"
            "Suc processed + n \<le> maxRecords" "k_resolved k' = k_resolved ?k2 @ map m_offset (take n msgs)"
            "commit_ok k'" "delivered dlv (take n msgs) s1 s'"
          using Cons.IH [OF k2, of "Suc processed" s1 fs3] True by auto
        ultimately show ?thesis
          using d by (intro exI [of _ "Suc n"] exI [of _ s'] exI [of _ k']) (auto intro: exI [of _ fs])
      next
        case (before fs3)
        with ok k2 show ?thesis by (intro stop [of ?k2]) (simp_all add: run bnd_def del: each_batch.simps)
      next
        case (after fs3)
        with ok k2 show ?thesis by (intro stop [of ?k2]) (simp_all add: run bnd_def del: each_batch.simps)
      qed
    next
      case (before fs2)
      with k1 show ?thesis by (intro stop [of ?k1]) (simp_all add: run bnd_def del: each_batch.simps)
    next
      case (after fs2)
      with commit_ok_step [OF k1] show ?thesis
        by (intro stop [of "commit_offsets opts ?k1"]) (simp_all add: run bnd_def del: each_batch.simps)
    qed
  qed
qed

text \<open>After a batch under options that do not resolve on their own: nothing else is resolved.\<close>

lemma run_batch_prefix:
  assumes never: "\<And>v w. outcome (dlv v w) = Inr ()" and k: "commit_ok k" and opts: "\<not> ro_eachBatchAutoResolve opts"
  shows "\<exists>n s' k'. final (run_batch opts maxRecords go dlv msgs ((s, k), fs)) = (s', k') \<and>
    n \<le> length msgs \<and> n \<le> maxRecords \<and>
    k_resolved k' = k_resolved k @ map m_offset (take n msgs) \<and> commit_ok k' \<and>
    delivered dlv (take n msgs) s s'"
proof -
  obtain n s' k' where n: "final (each_batch opts maxRecords go dlv 0 msgs ((s, k), fs)) = (s', k')"
      "n \<le> length msgs" "n \<le> maxRecords" "k_resolved k' = k_resolved k @ map m_offset (take n msgs)"
      "commit_ok k'" "delivered dlv (take n msgs) s s'"
    using each_batch_prefix [where dlv = dlv and processed = 0 and maxRecords = maxRecords and s = s and fs = fs
        and msgs = msgs and opts = opts and go = go, OF never k] by auto
  obtain r gs where e: "each_batch opts maxRecords go dlv 0 msgs ((s, k), fs) = (r, (s', k'), gs)"
    using n(1) by (cases "each_batch opts maxRecords go dlv 0 msgs ((s, k), fs)") auto
  let ?c = "external kafka_gone (\<lambda>(s, k). ((), (s, k\<lparr>k_committed := k_resolved k\<rparr>))) :: ('a \<times> offsets, exn, unit) eff"
  have "final (?c ((s', k'), gs)) = (s', k') \<or> final (?c ((s', k'), gs)) = (s', k'\<lparr>k_committed := k_resolved k'\<rparr>)"
    by (cases rule: external_cases [where e = kafka_gone and s = "(s', k')" and fs = gs and
          f = "\<lambda>(s, k). ((), (s, k\<lparr>k_committed := k_resolved k\<rparr>))"]) simp_all
  then have "final (run_batch opts maxRecords go dlv msgs ((s, k), fs)) \<in> {(s', k'), (s', k'\<lparr>k_committed := k_resolved k'\<rparr>)}"
    using e opts by (cases r) (auto simp: run_batch_def bnd_def)
  then obtain k'' where k'': "final (run_batch opts maxRecords go dlv msgs ((s, k), fs)) = (s', k'')"
      "k'' \<in> {k', k'\<lparr>k_committed := k_resolved k'\<rparr>}" by blast
  from k''(2) n(5) have "commit_ok k''" "k_resolved k'' = k_resolved k'" by (auto simp: commit_ok_def)
  with k''(1) n(2-4,6) show ?thesis by (intro exI [of _ n] exI [of _ s'] exI [of _ k'']) simp
qed

text \<open>Without faults a batch is worked off up to the limit, and what is resolved is committed.\<close>

lemma each_batch_all:
  assumes never: "\<And>v w. outcome (dlv v w) = Inr ()" and quiet: "\<And>v s. snd (snd (dlv v (s, []))) = []"
    and go: "\<And>i. go i" and "processed \<le> maxRecords"
  shows "\<exists>s' k'. each_batch opts maxRecords go dlv processed msgs ((s, k), []) = (Inr (), (s', k'), []) \<and>
    k_resolved k' = k_resolved k @ map m_offset (take (maxRecords - processed) msgs)"
  using assms(4)
proof (induction msgs arbitrary: processed s k)
  case (Cons msg msgs)
  show ?case
  proof (cases "processed < maxRecords")
    case False
    with Cons.prems go show ?thesis by simp
  next
    case True
    obtain s1 where d: "dlv (m_value msg) (s, []) = (Inr (), s1, [])"
      using never [of "m_value msg" "(s, [])"] quiet [of "m_value msg" s]
      by (cases "dlv (m_value msg) (s, [])") auto
    let ?k = "commit_offsets opts (k\<lparr>k_resolved := k_resolved k @ [m_offset msg]\<rparr>)"
    have "each_batch opts maxRecords go dlv processed (msg # msgs) ((s, k), []) =
        each_batch opts maxRecords go dlv (Suc processed) msgs ((s1, ?k), [])"
      using True go d by (simp add: bnd_def on_fst_apply)
    with Cons.IH [of "Suc processed" s1 ?k] True show ?thesis
      by (simp add: Suc_diff_Suc [symmetric])
  qed
qed simp

lemma run_batch_all:
  assumes never: "\<And>v w. outcome (dlv v w) = Inr ()" and quiet: "\<And>v s. snd (snd (dlv v (s, []))) = []"
    and go: "\<And>i. go i" and opts: "\<not> ro_eachBatchAutoResolve opts" "ro_autoCommit opts"
  shows "\<exists>s' k'. run_batch opts maxRecords go dlv msgs ((s, k), []) = (Inr (), (s', k'), []) \<and>
    k_resolved k' = k_resolved k @ map m_offset (take maxRecords msgs) \<and> k_committed k' = k_resolved k'"
proof -
  obtain s' k' where "each_batch opts maxRecords go dlv 0 msgs ((s, k), []) = (Inr (), (s', k'), [])"
    "k_resolved k' = k_resolved k @ map m_offset (take maxRecords msgs)"
    using each_batch_all [where dlv = dlv and go = go and processed = 0 and maxRecords = maxRecords and opts = opts
        and msgs = msgs and s = s and k = k, OF never quiet go] by auto
  with opts show ?thesis by (simp add: run_batch_def bnd_def)
qed

lemma attempts_quiet:
  assumes "\<And>k. fair (h k p)"
  shows "snd (snd (delivery_attempts n k h p (s, []))) = []"
proof (induction n arbitrary: k s)
  case (Suc n)
  obtain r t where w: "h k p (s, []) = (r, t, [])"
    using fair_nil [OF assms, of k s] by (cases "h k p (s, [])") auto
  with Suc.IH [of "Suc k" t] show ?case by (cases r) (simp_all add: try_catch_def)
qed simp

lemma deliver_quiet: "(\<And>k p. fair (h k p)) \<Longrightarrow> snd (snd (deliver n parse h v (s, []))) = []"
  by (simp add: deliver_def attempts_quiet split: option.split)

section \<open>What the discipline gives a handler\<close>

lemma keeps_attempts: "(\<And>k. keeps_inv I (h k p)) \<Longrightarrow> keeps_inv I (delivery_attempts n k h p)"
  by (induction n arbitrary: k) (simp_all add: keeps_try keeps_if keeps_ret)

lemma keeps_deliver:
  "(\<And>p k. parse v = Some p \<Longrightarrow> keeps_inv I (h k p)) \<Longrightarrow> keeps_inv I (deliver n parse h v)"
  unfolding deliver_def by (intro keeps_option keeps_ret keeps_attempts)

text \<open>A handler that keeps an invariant.\<close>

locale record_handler =
  fixes parse :: "string option \<Rightarrow> 'p option"
    and h :: "nat \<Rightarrow> 'p \<Rightarrow> ('s, exn, unit) eff"
    and I :: "'s \<Rightarrow> bool"
  assumes handler_keeps: "keeps_inv I (h k p)"
begin

lemma attempts_keep: "keeps_inv I (delivery_attempts n k h p)"
  by (rule keeps_attempts) (rule handler_keeps)

lemma deliver_keeps: "keeps_inv I (deliver n parse h v)"
  by (rule keeps_deliver) (rule handler_keeps)

lemma delivered_keeps: "delivered (deliver n parse h) msgs s s' \<Longrightarrow> I s \<Longrightarrow> I s'"
  by (induction msgs arbitrary: s) (auto intro: keeps_invD [OF deliver_keeps])

lemma batch_keeps:
  assumes "I s" "commit_ok k" "\<not> ro_eachBatchAutoResolve opts"
  shows "I (fst (final (run_batch opts maxRecords go (deliver n parse h) msgs ((s, k), fs))))"
proof -
  let ?w = "run_batch opts maxRecords go (deliver n parse h) msgs ((s, k), fs)"
  obtain m s' k' where "final ?w = (s', k')" "delivered (deliver n parse h) (take m msgs) s s'"
    using run_batch_prefix [where dlv = "deliver n parse h" and maxRecords = maxRecords
        and s = s and fs = fs and msgs = msgs and opts = opts and go = go,
        OF deliver_never_throws assms(2,3)] by auto
  with delivered_keeps [OF _ assms(1)] show ?thesis by simp
qed

end

text \<open>
  A handler for which a record can be settled: a call that returns settles it, and calls on a
  settled record leave the state the same as far as anyone can observe.
\<close>

locale settling_handler = record_handler parse h I
  for parse :: "string option \<Rightarrow> 'p option" and h :: "nat \<Rightarrow> 'p \<Rightarrow> ('s, exn, unit) eff"
    and I :: "'s \<Rightarrow> bool" +
  fixes settled :: "'p \<Rightarrow> 's \<Rightarrow> bool"
    and same :: "'s \<Rightarrow> 's \<Rightarrow> bool"
  assumes returns_settled: "I s \<Longrightarrow> h k p (s, fs) = (Inr (), s', fs') \<Longrightarrow> settled p s'"
    and settled_same: "settled p s \<Longrightarrow> same s (final (h k p (s, fs)))"
    and same_refl: "same s s"
    and same_trans: "same s t \<Longrightarrow> same t u \<Longrightarrow> same s u"
    and settled_stable: "settled p s \<Longrightarrow> same s t \<Longrightarrow> settled p t"
begin

lemma attempts_same: "settled p s \<Longrightarrow> same s (final (delivery_attempts n k h p (s, fs)))"
proof (induction n arbitrary: k s fs)
  case 0
  then show ?case by (simp add: same_refl)
next
  case (Suc n)
  obtain r t gs where w: "h k p (s, fs) = (r, t, gs)" by (cases "h k p (s, fs)")
  with settled_same [OF Suc.prems, of k fs] have st: "same s t" by simp
  have "settled p t" by (rule settled_stable [OF Suc.prems st])
  from Suc.IH [OF this, of "Suc k" gs] have "same s (final (delivery_attempts n (Suc k) h p (t, gs)))"
    by (rule same_trans [OF st])
  with w st show ?case
    by (cases r) (auto simp: try_catch_def)
qed

text \<open>Redelivery of a settled record is invisible.\<close>

lemma redelivery:
  assumes "parse v = Some p" "settled p s"
  shows "same s (final (deliver n parse h v (s, fs)))"
  using assms attempts_same by (simp add: deliver_def)

text \<open>
  Fewer outages than attempts settle a record: when the handler would return without faults and
  failed attempts keep it that way, some attempt within the limit returns.
\<close>

lemma attempts_settle:
  assumes fair: "\<And>k. fair (h k p)"
    and ok: "\<And>k s. ready s \<Longrightarrow> outcome (h k p (s, [])) = Inr ()"
    and stays: "\<And>k s fs e t gs. I s \<Longrightarrow> ready s \<Longrightarrow> h k p (s, fs) = (Inl e, t, gs) \<Longrightarrow> ready t"
  shows "I s \<Longrightarrow> ready s \<Longrightarrow> nfaults fs < n \<Longrightarrow> settled p (final (delivery_attempts n k h p (s, fs)))"
proof (induction n arbitrary: k s fs)
  case 0
  then show ?case by simp
next
  case (Suc n)
  obtain r t gs where w: "h k p (s, fs) = (r, t, gs)" by (cases "h k p (s, fs)")
  show ?case
  proof (cases r)
    case (Inr u)
    with w returns_settled [OF Suc.prems(1), of k p fs t gs] show ?thesis by (simp add: try_catch_def)
  next
    case (Inl e)
    have "nfaults gs \<noteq> nfaults fs"
    proof
      assume "nfaults gs = nfaults fs"
      from fairD(2) [OF fair w this] have "outcome (h k p (s, [])) = r" by simp
      with ok [OF Suc.prems(2), of k] Inl show False by simp
    qed
    with fairD(1) [OF fair w] Suc.prems(3) have "nfaults gs < n" by simp
    moreover have "I t" using keeps_invD [OF handler_keeps Suc.prems(1), of k p fs] w by simp
    moreover have "ready t" using w Inl by (intro stays [OF Suc.prems(1,2)]) simp
    ultimately have "settled p (final (delivery_attempts n (Suc k) h p (t, gs)))" by (intro Suc.IH)
    moreover from \<open>nfaults gs < n\<close> have "n \<noteq> 0" by simp
    ultimately show ?thesis using w Inl by (simp add: try_catch_def)
  qed
qed

end

end
