(* ===== verification/Config.thy ===== *)
theory Config imports Js_Lib Errors begin

text \<open>
  What the services read from the environment: the Kafka topics, the MySQL and Redis connections and
  the knobs of consumers and publishers.  \<open>env\<close> is \<open>process.env\<close>.  The numbers are read with
  \<open>Number\<close>, which \<open>js_Number\<close> models for decimal texts.
\<close>

type_synonym env = "string \<Rightarrow> string option"

text \<open>\<open>env.NAME ?? default\<close> and \<open>Number(env.NAME ?? default)\<close>\<close>

definition env_or :: "env \<Rightarrow> string \<Rightarrow> string \<Rightarrow> string" where
  "env_or env name dflt = (case env name of None \<Rightarrow> dflt | Some v \<Rightarrow> v)"

definition env_number :: "env \<Rightarrow> string \<Rightarrow> int \<Rightarrow> int" where
  "env_number env name dflt = (case env name of None \<Rightarrow> dflt | Some v \<Rightarrow> js_Number v)"

section \<open>Kafka\<close>

record kafka_topics =
  kt_issueRequest :: string
  kt_issueResult :: string
  kt_partitions :: int
  kt_replicationFactor :: int

definition kafkaTopics_b :: "env \<Rightarrow> kafka_topics" where
  "kafkaTopics_b env =
     \<lparr>kt_issueRequest = env_or env ''KAFKA_TOPIC_ISSUE_REQUEST'' ''coupon-issue-request'',
      kt_issueResult = env_or env ''KAFKA_TOPIC_ISSUE_RESULT'' ''coupon-issue-result'',
      kt_partitions = env_number env ''KAFKA_TOPIC_PARTITIONS'' 3,
      kt_replicationFactor = env_number env ''KAFKA_TOPIC_RF'' 1\<rparr>"

definition kafkaTopics_c :: "env \<Rightarrow> kafka_topics" where
  "kafkaTopics_c env =
     \<lparr>kt_issueRequest = env_or env ''KAFKA_TOPIC_ISSUE_REQUEST'' ''coupon-issue-request'',
      kt_issueResult = env_or env ''KAFKA_TOPIC_ISSUE_RESULT'' ''coupon-issue-result'',
      kt_partitions = env_number env ''KAFKA_TOPIC_PARTITIONS'' 3,
      kt_replicationFactor = env_number env ''KAFKA_TOPIC_RF'' 1\<rparr>"

text \<open>The connection to the brokers.\<close>

record kafka_client =
  kl_clientId :: string
  kl_brokers :: "string list"

definition kafka_client_b :: "env \<Rightarrow> kafka_client" where
  "kafka_client_b env = \<lparr>kl_clientId = ''server-b'',
     kl_brokers = split_on (CHR '','') (env_or env ''KAFKA_BOOTSTRAP'' ''localhost:29092'')\<rparr>"

definition kafka_client_c :: "env \<Rightarrow> kafka_client" where
  "kafka_client_c env = \<lparr>kl_clientId = ''server-c'',
     kl_brokers = split_on (CHR '','') (env_or env ''KAFKA_BOOTSTRAP'' ''localhost:29092'')\<rparr>"

section \<open>MySQL\<close>

record mysql_input =
  mi_database :: string
  mi_port :: int
  mi_entities :: "string list"
  mi_migrations :: "string list"

record mysql_extra =
  mx_connectionLimit :: int
  mx_connectTimeout :: int
  mx_waitForConnections :: bool
  mx_supportBigNumbers :: bool
  mx_bigNumberStrings :: bool

record mysql_options = mysql_input +
  my_type :: string
  my_host :: string
  my_username :: string
  my_password :: string
  my_migrationsRun :: bool
  my_synchronize :: bool
  my_timezone :: string
  my_charset :: string
  my_extra :: mysql_extra
  my_logging :: "string list"

definition buildMysqlOptions :: "env \<Rightarrow> mysql_input \<Rightarrow> mysql_options" where
  "buildMysqlOptions env input = mysql_input.extend input
     \<lparr>my_type = ''mysql'', my_host = env_or env ''DB_HOST'' ''localhost'',
      my_username = env_or env ''DB_USER'' ''promotion'',
      my_password = env_or env ''DB_PASSWORD'' ''promotion'',
      my_migrationsRun = True, my_synchronize = False, my_timezone = ''Z'', my_charset = ''utf8mb4'',
      my_extra =
        \<lparr>mx_connectionLimit = env_number env ''HIKARI_POOL_SIZE'' 10,
         mx_connectTimeout = env_number env ''DB_CONNECT_TIMEOUT_MS'' 3000,
         mx_waitForConnections = True, mx_supportBigNumbers = True, mx_bigNumberStrings = True\<rparr>,
      my_logging = [''error'', ''warn'']\<rparr>"

text \<open>The two databases; \<open>dir\<close> is \<open>__dirname\<close>.\<close>

definition mysql_a :: "string \<Rightarrow> env \<Rightarrow> mysql_options" where
  "mysql_a dir env = buildMysqlOptions env
     \<lparr>mi_database = env_or env ''DB_NAME_A'' ''server_a'', mi_port = env_number env ''DB_PORT_A'' 3306,
      mi_entities = [''IssueRequestOrmEntity''],
      mi_migrations = [dir @ ''/../../../migrations/server-a/[0-9]*.js'']\<rparr>"

definition mysql_c :: "string \<Rightarrow> env \<Rightarrow> mysql_options" where
  "mysql_c dir env = buildMysqlOptions env
     \<lparr>mi_database = env_or env ''DB_NAME_C'' ''server_c'', mi_port = env_number env ''DB_PORT_C'' 3307,
      mi_entities = [''EventOrmEntity'', ''CouponTypeOrmEntity'', ''CouponTypeInventoryOrmEntity'',
        ''UserCouponOrmEntity'', ''OutboxEventOrmEntity''],
      mi_migrations = [dir @ ''/../../../migrations/server-c/[0-9]*.js'']\<rparr>"

definition data_source_a :: "string \<Rightarrow> env \<Rightarrow> mysql_options" where
  "data_source_a dir env = buildMysqlOptions env
     \<lparr>mi_database = env_or env ''DB_NAME_A'' ''server_a'', mi_port = env_number env ''DB_PORT_A'' 3306,
      mi_entities = [], mi_migrations = [dir @ ''/[0-9]*.ts'']\<rparr>"

definition data_source_c :: "string \<Rightarrow> env \<Rightarrow> mysql_options" where
  "data_source_c dir env = buildMysqlOptions env
     \<lparr>mi_database = env_or env ''DB_NAME_C'' ''server_c'', mi_port = env_number env ''DB_PORT_C'' 3307,
      mi_entities = [], mi_migrations = [dir @ ''/[0-9]*.ts'']\<rparr>"

section \<open>Redis\<close>

record redis_options =
  rd_host :: string
  rd_port :: int
  rd_connectTimeout :: int
  rd_commandTimeout :: int
  rd_maxRetriesPerRequest :: int

definition redis_options_a :: "env \<Rightarrow> redis_options" where
  "redis_options_a env =
     \<lparr>rd_host = env_or env ''REDIS_HOST'' ''localhost'', rd_port = env_number env ''REDIS_PORT'' 6379,
      rd_connectTimeout = env_number env ''REDIS_CONNECT_TIMEOUT_MS'' 500,
      rd_commandTimeout = env_number env ''REDIS_TIMEOUT_MS'' 500, rd_maxRetriesPerRequest = 1\<rparr>"

definition redis_options_b :: "env \<Rightarrow> redis_options" where
  "redis_options_b env =
     \<lparr>rd_host = env_or env ''REDIS_HOST'' ''localhost'', rd_port = env_number env ''REDIS_PORT'' 6379,
      rd_connectTimeout = env_number env ''REDIS_CONNECT_TIMEOUT_MS'' 1000,
      rd_commandTimeout = env_number env ''REDIS_TIMEOUT_MS'' 1000, rd_maxRetriesPerRequest = 1\<rparr>"

definition redis_options_c :: "env \<Rightarrow> redis_options" where
  "redis_options_c env =
     \<lparr>rd_host = env_or env ''REDIS_HOST'' ''localhost'', rd_port = env_number env ''REDIS_PORT'' 6379,
      rd_connectTimeout = env_number env ''REDIS_CONNECT_TIMEOUT_MS'' 1000,
      rd_commandTimeout = env_number env ''REDIS_TIMEOUT_MS'' 1000, rd_maxRetriesPerRequest = 1\<rparr>"

section \<open>Calls between the services\<close>

text \<open>The client of server-b in server-a.  The failure rate is in percent.\<close>

record client_settings =
  ct_baseUrl :: string
  ct_readTimeoutMs :: int
  ct_slowCallThresholdMs :: int

definition HttpCouponIssuingClient_settings :: "env \<Rightarrow> client_settings" where
  "HttpCouponIssuingClient_settings env =
     \<lparr>ct_baseUrl = env_or env ''SERVER_B_URL'' ''http://localhost:8081'',
      ct_readTimeoutMs = env_number env ''SERVER_B_READ_TIMEOUT_MS'' 1000,
      ct_slowCallThresholdMs = env_number env ''SERVER_B_SLOW_CALL_MS'' 800\<rparr>"

record policy_settings =
  po_halfOpenAfter :: int
  po_thresholdPercent :: int
  po_size :: nat
  po_minimumNumberOfCalls :: nat
  po_maxAttempts :: nat
  po_initialDelay :: int
  po_maxDelay :: int

definition HttpCouponIssuingClient_policy :: "env \<Rightarrow> policy_settings" where
  "HttpCouponIssuingClient_policy env =
     \<lparr>po_halfOpenAfter = env_number env ''SERVER_B_CB_OPEN_MS'' 5000, po_thresholdPercent = 50, po_size = 20,
      po_minimumNumberOfCalls = 10, po_maxAttempts = 1, po_initialDelay = 50, po_maxDelay = 200\<rparr>"

text \<open>A slow result counts as a failure.\<close>

definition counts_as_failure :: "client_settings \<Rightarrow> int \<Rightarrow> bool" where
  "counts_as_failure settings elapsedMs \<longleftrightarrow> elapsedMs > ct_slowCallThresholdMs settings"

text \<open>The two timeouts of the publisher in server-b.\<close>

definition publisher_sendTimeoutMs :: "env \<Rightarrow> int" where
  "publisher_sendTimeoutMs env = env_number env ''KAFKA_SEND_TIMEOUT_MS'' 3000"

definition publisher_schedulerSendTimeoutMs :: "env \<Rightarrow> int" where
  "publisher_schedulerSendTimeoutMs env = env_number env ''KAFKA_SCHEDULER_SEND_TIMEOUT_MS'' 500"

section \<open>Laws\<close>

text \<open>
  By default server-b may wait three seconds for Kafka before it answers a request, and server-a gives
  up reading the answer after one: when Kafka hangs, the answer to an accepted request is lost.
\<close>

lemma answer_after_read_timeout:
  "env ''KAFKA_SEND_TIMEOUT_MS'' = None \<Longrightarrow> env ''SERVER_B_READ_TIMEOUT_MS'' = None \<Longrightarrow>
   ct_readTimeoutMs (HttpCouponIssuingClient_settings env) < publisher_sendTimeoutMs env"
  by (simp add: HttpCouponIssuingClient_settings_def publisher_sendTimeoutMs_def env_number_def)

text \<open>server-b and server-c mean the same topics of the same brokers, of which there is at least one.\<close>

lemma kafkaTopics_agree: "kafkaTopics_b env = kafkaTopics_c env"
  by (simp add: kafkaTopics_b_def kafkaTopics_c_def)

lemma kafka_clients_agree:
  "kl_brokers (kafka_client_b env) = kl_brokers (kafka_client_c env)"
  "length (kl_brokers (kafka_client_c env)) = Suc (count_list (env_or env ''KAFKA_BOOTSTRAP'' ''localhost:29092'') (CHR '',''))"
  by (simp_all add: kafka_client_b_def kafka_client_c_def length_split_on)

text \<open>
  The settings on which the model of the database rests: BIGINT columns arrive as strings, times are
  UTC, and the schema is that of the migrations.  The migration tool connects to the same databases.
\<close>

lemma mysql_settings:
  "mx_bigNumberStrings (my_extra (buildMysqlOptions env input)) \<and> my_timezone (buildMysqlOptions env input) = ''Z'' \<and>
   my_migrationsRun (buildMysqlOptions env input) \<and> \<not> my_synchronize (buildMysqlOptions env input)"
  by (simp add: buildMysqlOptions_def mysql_input.defs)

lemma data_source_same_database:
  "mi_database (data_source_a dir env) = mi_database (mysql_a dir' env)"
  "mi_port (data_source_a dir env) = mi_port (mysql_a dir' env)"
  "mi_database (data_source_c dir env) = mi_database (mysql_c dir' env)"
  "mi_port (data_source_c dir env) = mi_port (mysql_c dir' env)"
  by (simp_all add: data_source_a_def data_source_c_def mysql_a_def mysql_c_def buildMysqlOptions_def mysql_input.defs)

end
