(* ===== verification/Kafka_Lifecycle.thy ===== *)
theory Kafka_Lifecycle imports Kafka_Consumer Config begin

text \<open>
  Connections to Kafka: the creation of the topics (\<open>kafka.module.ts\<close> of server-b and server-c) and
  the life of a consumer (\<open>onModuleInit\<close>, \<open>startWithRetry\<close>, \<open>start\<close> and \<open>onApplicationShutdown\<close> of the
  two consumers, which agree line by line).  The start runs in the background, so the shutdown
  interleaves with it; \<open>stopped\<close> is read between the attempts.  kafkajs is modelled by what its
  documentation says of the calls: a client object is connected, subscribed, runs and is
  disconnected, and a topic that does not exist cannot be subscribed to.
\<close>

section \<open>The broker and its clients\<close>

record kclient =
  kc_groupId :: string
  kc_connected :: bool
  kc_subscribed :: "(string \<times> bool) option"
  kc_running :: "run_options option"

record broker =
  bk_topics :: "(string \<times> int \<times> int) list"
  bk_admin_open :: bool
  bk_clients :: "kclient list"

text \<open>\<open>admin.createTopics\<close> creates the topics that do not exist.\<close>

fun create_topics :: "(string \<times> int \<times> int) list \<Rightarrow> (string \<times> int \<times> int) list \<Rightarrow> (string \<times> int \<times> int) list" where
  "create_topics [] topics = topics"
| "create_topics (t # ts) topics =
     create_topics ts (if fst t \<in> fst ` set topics then topics else topics @ [t])"

definition ensureTopics :: "kafka_topics \<Rightarrow> (broker, exn, unit) eff" where
  "ensureTopics kt =
     bnd (try_catch
       (bnd (external kafka_gone (\<lambda>b. ((), b\<lparr>bk_admin_open := True\<rparr>))) (\<lambda>_.
        external kafka_gone (\<lambda>b. ((), b\<lparr>bk_topics := create_topics
          (map (\<lambda>topic. (topic, kt_partitions kt, kt_replicationFactor kt)) [kt_issueRequest kt, kt_issueResult kt])
          (bk_topics b)\<rparr>))))
       (\<lambda>e. ret ())) (\<lambda>_.
     try_catch (external kafka_gone (\<lambda>b. ((), b\<lparr>bk_admin_open := False\<rparr>))) (\<lambda>e. ret ()))"

definition ensureTopics_b :: "env \<Rightarrow> (broker, exn, unit) eff" where
  "ensureTopics_b env = ensureTopics (kafkaTopics_b env)"

definition ensureTopics_c :: "env \<Rightarrow> (broker, exn, unit) eff" where
  "ensureTopics_c env = ensureTopics (kafkaTopics_c env)"

section \<open>Starting a consumer\<close>

record consumer_setup =
  cs_groupId :: string
  cs_sessionTimeout :: int
  cs_rebalanceTimeout :: int
  cs_maxWaitTimeInMs :: int
  cs_topic :: string
  cs_fromBeginning :: bool
  cs_run :: run_options

text \<open>\<open>this.consumer\<close> is the client made last.\<close>

definition on_client :: "(kclient \<Rightarrow> kclient) \<Rightarrow> broker \<Rightarrow> broker" where
  "on_client f b = b\<lparr>bk_clients := (if bk_clients b = [] then [] else butlast (bk_clients b) @ [f (last (bk_clients b))])\<rparr>"

definition new_client :: "consumer_setup \<Rightarrow> kclient" where
  "new_client su = \<lparr>kc_groupId = cs_groupId su, kc_connected = False, kc_subscribed = None, kc_running = None\<rparr>"

definition unknown_topic :: exn where
  "unknown_topic = Plain_Error ''This server does not host this topic-partition''"

definition consumer_start :: "consumer_setup \<Rightarrow> (broker, exn, unit) eff" where
  "consumer_start su =
     bnd (modify (\<lambda>b. b\<lparr>bk_clients := bk_clients b @ [new_client su]\<rparr>)) (\<lambda>_.
     bnd (external kafka_gone (\<lambda>b. ((), on_client (\<lambda>c. c\<lparr>kc_connected := True\<rparr>) b))) (\<lambda>_.
     bnd (external_try kafka_gone (\<lambda>b. if cs_topic su \<in> fst ` set (bk_topics b)
          then (Inr (), on_client (\<lambda>c. c\<lparr>kc_subscribed := Some (cs_topic su, cs_fromBeginning su)\<rparr>) b)
          else (Inl unknown_topic, b))) (\<lambda>_.
     external kafka_gone (\<lambda>b. ((), on_client (\<lambda>c. c\<lparr>kc_running := Some (cs_run su)\<rparr>) b)))))"

text \<open>\<open>this.consumer?.disconnect().catch(() => undefined)\<close>\<close>

definition consumer_disconnect :: "(broker, exn, unit) eff" where
  "consumer_disconnect = bnd (gets bk_clients) (\<lambda>cs. if cs = [] then ret () else
     try_catch (external kafka_gone (\<lambda>b. ((), on_client (\<lambda>c. c\<lparr>kc_connected := False, kc_running := None\<rparr>) b)))
       (\<lambda>e. ret ()))"

section \<open>The life of a consumer\<close>

text \<open>
  Where \<open>startWithRetry\<close> stands: at the head of its loop, in the \<open>catch\<close> clause, in the wait, or
  returned.  \<open>backoffMs\<close> is its local variable.  \<open>onApplicationShutdown\<close> sets \<open>stopped\<close>, awaits the
  start and disconnects.
\<close>

datatype start_at = At_Head | At_Cleanup | At_Wait | Start_Returned

datatype shutdown_at = Not_Called | Awaits_Start | Disconnects | Is_Down

record lifecycle =
  lc_broker :: broker
  lc_stopped :: bool
  lc_start :: start_at
  lc_backoffMs :: int
  lc_shutdown :: shutdown_at
  lc_waits :: "int list"

definition onModuleInit :: "broker \<Rightarrow> lifecycle" where
  "onModuleInit b = \<lparr>lc_broker = b\<lparr>bk_clients := []\<rparr>, lc_stopped = False, lc_start = At_Head, lc_backoffMs = 1000,
     lc_shutdown = Not_Called, lc_waits = []\<rparr>"

definition MAX_BACKOFF_MS :: int where
  "MAX_BACKOFF_MS = 30000"

text \<open>\<open>lossy\<close>: a call of \<open>disconnect\<close> may fail.  The waits are recorded.\<close>

inductive lifecycle_step :: "bool \<Rightarrow> consumer_setup \<Rightarrow> lifecycle \<Rightarrow> lifecycle \<Rightarrow> bool"
  for lossy :: bool and su :: consumer_setup where
  sees_stopped: "lc_start s = At_Head \<Longrightarrow> lc_stopped s \<Longrightarrow>
    lifecycle_step lossy su s (s\<lparr>lc_start := Start_Returned\<rparr>)"
| starts: "lc_start s = At_Head \<Longrightarrow> \<not> lc_stopped s \<Longrightarrow>
    consumer_start su (lc_broker s, fs) = (Inr (), b, fs') \<Longrightarrow>
    lifecycle_step lossy su s (s\<lparr>lc_broker := b, lc_start := Start_Returned\<rparr>)"
| fails: "lc_start s = At_Head \<Longrightarrow> \<not> lc_stopped s \<Longrightarrow>
    consumer_start su (lc_broker s, fs) = (Inl e, b, fs') \<Longrightarrow>
    lifecycle_step lossy su s (s\<lparr>lc_broker := b, lc_start := At_Cleanup\<rparr>)"
| cleans_up: "lc_start s = At_Cleanup \<Longrightarrow> lossy \<or> fs = [] \<Longrightarrow>
    consumer_disconnect (lc_broker s, fs) = (r, b, fs') \<Longrightarrow>
    lifecycle_step lossy su s (if lc_stopped s then s\<lparr>lc_broker := b, lc_start := Start_Returned\<rparr>
      else s\<lparr>lc_broker := b, lc_start := At_Wait, lc_waits := lc_waits s @ [lc_backoffMs s]\<rparr>)"
| wakes: "lc_start s = At_Wait \<Longrightarrow>
    lifecycle_step lossy su s (s\<lparr>lc_start := At_Head, lc_backoffMs := min (lc_backoffMs s * 2) MAX_BACKOFF_MS\<rparr>)"
| shutdown_called: "lc_shutdown s = Not_Called \<Longrightarrow>
    lifecycle_step lossy su s (s\<lparr>lc_stopped := True, lc_shutdown := Awaits_Start\<rparr>)"
| start_awaited: "lc_shutdown s = Awaits_Start \<Longrightarrow> lc_start s = Start_Returned \<Longrightarrow>
    lifecycle_step lossy su s (s\<lparr>lc_shutdown := Disconnects\<rparr>)"
| disconnected: "lc_shutdown s = Disconnects \<Longrightarrow> lossy \<or> fs = [] \<Longrightarrow>
    consumer_disconnect (lc_broker s, fs) = (r, b, fs') \<Longrightarrow>
    lifecycle_step lossy su s (s\<lparr>lc_broker := b, lc_shutdown := Is_Down\<rparr>)"

inductive_cases lifecycle_stepE: "lifecycle_step lossy su s s'"

text \<open>Some module creates the topics meanwhile, or an administrator changes them.\<close>

inductive lifecycle_move :: "bool \<Rightarrow> consumer_setup \<Rightarrow> lifecycle \<Rightarrow> lifecycle \<Rightarrow> bool"
  for lossy :: bool and su :: consumer_setup where
  own: "lifecycle_step lossy su s s' \<Longrightarrow> lifecycle_move lossy su s s'"
| topics_change: "lifecycle_move lossy su s (s\<lparr>lc_broker := (lc_broker s)\<lparr>bk_topics := ts, bk_admin_open := a\<rparr>\<rparr>)"

definition lives :: "bool \<Rightarrow> consumer_setup \<Rightarrow> lifecycle \<Rightarrow> bool" where
  "lives lossy su s \<longleftrightarrow> (\<exists>b. (lifecycle_move lossy su)\<^sup>*\<^sup>* (onModuleInit b) s)"

section \<open>The topics\<close>

lemma create_topics_keeps: "set topics \<subseteq> set (create_topics ts topics)"
  by (induction ts topics rule: create_topics.induct) (auto split: if_splits)

lemma create_topics_all: "fst ` set (create_topics ts topics) = fst ` set ts \<union> fst ` set topics"
  by (induction ts topics rule: create_topics.induct) auto

lemma create_topics_again: "fst ` set ts \<subseteq> fst ` set topics \<Longrightarrow> create_topics ts topics = topics"
  by (induction ts topics rule: create_topics.induct) auto

section \<open>Starting and disconnecting\<close>

lemma on_client_simps [simp]:
  "bk_clients (on_client f (b\<lparr>bk_clients := cs @ [c]\<rparr>)) = cs @ [f c]" "bk_topics (on_client f b) = bk_topics b"
  by (simp_all add: on_client_def)

lemma on_client_add:
  "on_client f (b\<lparr>bk_clients := cs @ [c]\<rparr>) = b\<lparr>bk_clients := cs @ [f c]\<rparr>"
  by (simp add: on_client_def)

text \<open>A started client runs; a failed start leaves one client more, which may be connected.\<close>

definition consuming :: "consumer_setup \<Rightarrow> kclient \<Rightarrow> bool" where
  "consuming su c \<longleftrightarrow> kc_groupId c = cs_groupId su \<and> kc_connected c \<and>
     kc_subscribed c = Some (cs_topic su, cs_fromBeginning su) \<and> kc_running c = Some (cs_run su)"

definition tame :: "consumer_setup \<Rightarrow> kclient \<Rightarrow> bool" where
  "tame su c \<longleftrightarrow> (kc_running c \<noteq> None \<longrightarrow> consuming su c)"

lemma consumer_start_cases:
  assumes "consumer_start su (b, fs) = (r, b', fs')"
  shows "\<exists>c. b' = b\<lparr>bk_clients := bk_clients b @ [c]\<rparr> \<and> tame su c \<and> (r = Inr () \<longrightarrow> consuming su c)"
proof -
  let ?b = "\<lambda>c. b\<lparr>bk_clients := bk_clients b @ [c]\<rparr>"
  let ?c1 = "(new_client su)\<lparr>kc_connected := True\<rparr>"
  let ?c2 = "?c1\<lparr>kc_subscribed := Some (cs_topic su, cs_fromBeginning su)\<rparr>"
  let ?c3 = "?c2\<lparr>kc_running := Some (cs_run su)\<rparr>"
  have c: "tame su (new_client su)" "tame su ?c1" "tame su ?c2" "consuming su ?c3" "tame su ?c3"
    by (simp_all add: tame_def consuming_def new_client_def)
  consider "r \<noteq> Inr ()" "b' = ?b (new_client su)" | "r \<noteq> Inr ()" "b' = ?b ?c1" | "r \<noteq> Inr ()" "b' = ?b ?c2" | "b' = ?b ?c3"
    using assms
    by (auto simp: consumer_start_def bnd_def external_try_def external_def on_client_add
        split: list.splits fault.splits sum.splits prod.splits if_splits)
  then show ?thesis using c by cases blast+
qed

lemma consumer_start_ok:
  assumes "cs_topic su \<in> fst ` set (bk_topics b)"
  shows "\<exists>b'. consumer_start su (b, []) = (Inr (), b', [])"
  using assms by (simp add: consumer_start_def external_try_def bnd_def)

definition closed :: "kclient \<Rightarrow> kclient" where
  "closed c = c\<lparr>kc_connected := False, kc_running := None\<rparr>"

lemma closed_simps [simp]: "\<not> kc_connected (closed c)" "tame su (closed c)"
  by (simp_all add: closed_def tame_def)

lemma consumer_disconnect_cases:
  assumes "consumer_disconnect (b, fs) = (r, b', fs')"
  shows "r = Inr () \<and> (b' = b \<or> b' = on_client closed b)" "fs = [] \<Longrightarrow> b' = on_client closed b"
proof -
  have c: "on_client (\<lambda>c. c\<lparr>kc_connected := False, kc_running := None\<rparr>) b = on_client closed b"
    by (simp add: on_client_def closed_def)
  have n: "bk_clients b = [] \<Longrightarrow> on_client closed b = b" by (cases b) (simp add: on_client_def)
  show "r = Inr () \<and> (b' = b \<or> b' = on_client closed b)" "fs = [] \<Longrightarrow> b' = on_client closed b"
    using assms c n
    by (auto simp: consumer_disconnect_def bnd_def try_catch_def external_def split: if_splits list.splits fault.splits)
qed

section \<open>The invariant\<close>

definition backoff :: "nat \<Rightarrow> int" where
  "backoff n = min (1000 * 2 ^ n) MAX_BACKOFF_MS"

lemma backoff_Suc: "min (backoff n * 2) MAX_BACKOFF_MS = backoff (Suc n)"
  by (simp add: backoff_def MAX_BACKOFF_MS_def)

definition clients_ok :: "bool \<Rightarrow> consumer_setup \<Rightarrow> bool \<Rightarrow> kclient list \<Rightarrow> bool" where
  "clients_ok lossy su silent cs \<longleftrightarrow> (\<forall>c \<in> set cs. tame su c) \<and>
     (\<not> lossy \<longrightarrow> (\<forall>c \<in> set (butlast cs). \<not> kc_connected c) \<and> (silent \<longrightarrow> (\<forall>c \<in> set cs. \<not> kc_connected c)))"

definition lifecycle_inv :: "bool \<Rightarrow> consumer_setup \<Rightarrow> lifecycle \<Rightarrow> bool" where
  "lifecycle_inv lossy su s \<longleftrightarrow>
     (let cs = bk_clients (lc_broker s); n = length (lc_waits s) in
      clients_ok lossy su (lc_start s \<in> {At_Head, At_Wait} \<or> lc_shutdown s = Is_Down) cs \<and>
      (lc_start s = Start_Returned \<and> \<not> lc_stopped s \<longrightarrow> cs \<noteq> [] \<and> consuming su (last cs)) \<and>
      lc_waits s = map backoff [0..<n] \<and>
      (lc_start s \<in> {At_Head, At_Cleanup} \<longrightarrow> lc_backoffMs s = backoff n) \<and>
      (lc_start s = At_Wait \<longrightarrow> 0 < n \<and> lc_backoffMs s = backoff (n - 1)) \<and>
      (lc_stopped s \<longleftrightarrow> lc_shutdown s \<noteq> Not_Called) \<and>
      (lc_shutdown s \<in> {Disconnects, Is_Down} \<longrightarrow> lc_start s = Start_Returned))"

lemma set_on_client:
  "bk_clients (on_client f b) = (if bk_clients b = [] then [] else butlast (bk_clients b) @ [f (last (bk_clients b))])"
  by (simp add: on_client_def)

text \<open>A disconnect breaks nothing, and when it gets through no client of a tidy list is connected.\<close>

lemma disconnect_clients:
  assumes d: "consumer_disconnect (b, fs) = (r, b', fs')" and l: "lossy \<or> fs = []"
    and ok: "clients_ok lossy su silent (bk_clients b)"
  shows "clients_ok lossy su True (bk_clients b')"
proof -
  have sub: "set (bk_clients b') \<subseteq> set (bk_clients b) \<union> range closed" "\<not> lossy \<Longrightarrow> b' = on_client closed b"
    using consumer_disconnect_cases [OF d] l by (auto simp: set_on_client dest: in_set_butlastD split: if_splits)
  from ok sub(1) have "\<forall>c \<in> set (bk_clients b'). tame su c"
    unfolding clients_ok_def using closed_simps(2) by blast
  moreover have "\<forall>c \<in> set (bk_clients b'). \<not> kc_connected c" if "\<not> lossy"
    using ok sub(2) [OF that] that by (auto simp: clients_ok_def set_on_client)
  ultimately show ?thesis unfolding clients_ok_def by (meson in_set_butlastD)
qed

lemma clients_ok_add:
  "clients_ok lossy su True cs \<Longrightarrow> tame su c \<Longrightarrow> clients_ok lossy su False (cs @ [c])"
  by (auto simp: clients_ok_def)

lemma clients_ok_weaken: "clients_ok lossy su silent cs \<Longrightarrow> (q \<Longrightarrow> silent) \<Longrightarrow> clients_ok lossy su q cs"
  by (auto simp: clients_ok_def)

lemma lifecycle_inv_step:
  assumes "lifecycle_step lossy su s s'" "lifecycle_inv lossy su s"
  shows "lifecycle_inv lossy su s'"
  using assms
proof (induction rule: lifecycle_step.induct)
  case (sees_stopped s)
  then show ?case by (auto simp: lifecycle_inv_def Let_def elim: clients_ok_weaken)
next
  case (starts s fs b fs')
  from consumer_start_cases [OF starts(3)] obtain c where
    "b = (lc_broker s)\<lparr>bk_clients := bk_clients (lc_broker s) @ [c]\<rparr>" "tame su c" "consuming su c" by auto
  with starts show ?case by (auto simp: lifecycle_inv_def Let_def clients_ok_add)
next
  case (fails s fs e b fs')
  from consumer_start_cases [OF fails(3)] obtain c where
    "b = (lc_broker s)\<lparr>bk_clients := bk_clients (lc_broker s) @ [c]\<rparr>" "tame su c" by auto
  with fails show ?case by (auto simp: lifecycle_inv_def Let_def clients_ok_add)
next
  case (cleans_up s fs r b fs')
  then have "clients_ok lossy su False (bk_clients (lc_broker s))"
    by (auto simp: lifecycle_inv_def Let_def elim: clients_ok_weaken)
  from disconnect_clients [OF cleans_up(3,2) this] have "clients_ok lossy su True (bk_clients b)" .
  with cleans_up(1,4) show ?case
    by (cases "lc_stopped s") (auto simp: lifecycle_inv_def Let_def elim: clients_ok_weaken)
next
  case (wakes s)
  then show ?case by (auto simp: lifecycle_inv_def Let_def backoff_Suc)
next
  case (shutdown_called s)
  then show ?case by (auto simp: lifecycle_inv_def Let_def)
next
  case (start_awaited s)
  then show ?case by (auto simp: lifecycle_inv_def Let_def)
next
  case (disconnected s fs r b fs')
  then have "clients_ok lossy su False (bk_clients (lc_broker s))"
    by (auto simp: lifecycle_inv_def Let_def elim: clients_ok_weaken)
  from disconnect_clients [OF disconnected(3,2) this] have "clients_ok lossy su True (bk_clients b)" .
  with disconnected(1,4) show ?case by (auto simp: lifecycle_inv_def Let_def)
qed

lemma lifecycle_inv_lives:
  assumes "lives lossy su s"
  shows "lifecycle_inv lossy su s"
proof -
  from assms obtain b where "(lifecycle_move lossy su)\<^sup>*\<^sup>* (onModuleInit b) s" by (auto simp: lives_def)
  then show ?thesis
  proof (induction rule: rtranclp_induct)
    case base
    then show ?case by (simp add: lifecycle_inv_def onModuleInit_def backoff_def MAX_BACKOFF_MS_def clients_ok_def)
  next
    case (step s s')
    from step(2,3) show ?case
    proof (induction rule: lifecycle_move.induct)
      case (own s s')
      then show ?case by (rule lifecycle_inv_step)
    next
      case (topics_change s ts a)
      then show ?case by (simp add: lifecycle_inv_def Let_def)
    qed
  qed
qed

section \<open>Going up and going down\<close>

text \<open>Without faults and with its topic at the broker, a consumer that is not stopped gets to work.\<close>

lemma gets_going:
  assumes inv: "lifecycle_inv lossy su s" and up: "\<not> lc_stopped s"
    and topic: "cs_topic su \<in> fst ` set (bk_topics (lc_broker s))"
  shows "\<exists>s'. (lifecycle_step lossy su)\<^sup>*\<^sup>* s s' \<and> lc_start s' = Start_Returned \<and> \<not> lc_stopped s'"
proof -
  have head: "\<exists>s'. (lifecycle_step lossy su)\<^sup>*\<^sup>* s s' \<and> lc_start s' = Start_Returned \<and> \<not> lc_stopped s'"
    if s: "lc_start s = At_Head" "\<not> lc_stopped s" "cs_topic su \<in> fst ` set (bk_topics (lc_broker s))" for s
  proof -
    obtain b where "consumer_start su (lc_broker s, []) = (Inr (), b, [])"
      using consumer_start_ok [OF s(3)] by blast
    from lifecycle_step.starts [OF s(1,2) this, of lossy]
    show ?thesis using s(2) by (intro exI [of _ "s\<lparr>lc_broker := b, lc_start := Start_Returned\<rparr>"]) auto
  qed
  have wait: "\<exists>s'. (lifecycle_step lossy su)\<^sup>*\<^sup>* s s' \<and> lc_start s' = Start_Returned \<and> \<not> lc_stopped s'"
    if s: "lc_start s = At_Wait" "\<not> lc_stopped s" "cs_topic su \<in> fst ` set (bk_topics (lc_broker s))" for s
    using head [of "s\<lparr>lc_start := At_Head, lc_backoffMs := min (lc_backoffMs s * 2) MAX_BACKOFF_MS\<rparr>"] s(2,3)
      lifecycle_step.wakes [OF s(1), of lossy su]
    by (auto intro: converse_rtranclp_into_rtranclp)
  show ?thesis
  proof (cases "lc_start s")
    case At_Head
    then show ?thesis using head up topic by blast
  next
    case At_Wait
    then show ?thesis using wait up topic by blast
  next
    case At_Cleanup
    obtain r b gs where d: "consumer_disconnect (lc_broker s, []) = (r, b, gs)" by (cases "consumer_disconnect (lc_broker s, [])")
    have "bk_topics b = bk_topics (lc_broker s)" using consumer_disconnect_cases(2) [OF d] by simp
    moreover have "lifecycle_step lossy su s (s\<lparr>lc_broker := b, lc_start := At_Wait, lc_waits := lc_waits s @ [lc_backoffMs s]\<rparr>)"
      using lifecycle_step.cleans_up [OF At_Cleanup _ d, of lossy su] up by simp
    ultimately show ?thesis
      using wait [of "s\<lparr>lc_broker := b, lc_start := At_Wait, lc_waits := lc_waits s @ [lc_backoffMs s]\<rparr>"] up topic
      by (auto intro: converse_rtranclp_into_rtranclp)
  next
    case Start_Returned
    with up show ?thesis by blast
  qed
qed

text \<open>After the shutdown has been called every step is one of at most six, and until it is over there is one.\<close>

definition steps_left :: "lifecycle \<Rightarrow> nat" where
  "steps_left s = (case lc_start s of At_Head \<Rightarrow> 2 | At_Wait \<Rightarrow> 3 | At_Cleanup \<Rightarrow> 1 | Start_Returned \<Rightarrow> 0) +
     (case lc_shutdown s of Not_Called \<Rightarrow> 3 | Awaits_Start \<Rightarrow> 2 | Disconnects \<Rightarrow> 1 | Is_Down \<Rightarrow> 0)"

lemma stopped_step:
  assumes "lifecycle_step lossy su s s'" "lc_stopped s"
  shows "steps_left s' < steps_left s \<and> lc_stopped s'"
  using assms by (induction rule: lifecycle_step.induct) (auto simp: steps_left_def split: shutdown_at.split)

lemma shutdown_enabled:
  assumes "lc_stopped s" "lc_shutdown s \<noteq> Is_Down" "lc_shutdown s \<noteq> Not_Called"
  shows "\<exists>s'. lifecycle_step lossy su s s'"
proof -
  obtain r b gs where d: "consumer_disconnect (lc_broker s, []) = (r, b, gs)" by (cases "consumer_disconnect (lc_broker s, [])")
  show ?thesis
  proof (cases "lc_start s")
    case At_Head
    with assms(1) show ?thesis by (blast intro: lifecycle_step.sees_stopped)
  next
    case At_Cleanup
    from lifecycle_step.cleans_up [OF At_Cleanup _ d] show ?thesis by blast
  next
    case At_Wait
    then show ?thesis by (blast intro: lifecycle_step.wakes)
  next
    case Start_Returned
    show ?thesis
    proof (cases "lc_shutdown s")
      case Awaits_Start
      with Start_Returned show ?thesis by (blast intro: lifecycle_step.start_awaited)
    next
      case Disconnects
      from lifecycle_step.disconnected [OF this _ d] show ?thesis by blast
    qed (use assms in simp_all)
  qed
qed

lemma shuts_down:
  assumes "lifecycle_inv lossy su s" "lc_stopped s"
  shows "\<exists>s'. (lifecycle_step lossy su)\<^sup>*\<^sup>* s s' \<and> lc_shutdown s' = Is_Down"
  using assms
proof (induction "steps_left s" arbitrary: s rule: less_induct)
  case less
  show ?case
  proof (cases "lc_shutdown s = Is_Down")
    case False
    have "lc_shutdown s \<noteq> Not_Called" using less.prems by (simp add: lifecycle_inv_def Let_def)
    with False obtain s1 where s1: "lifecycle_step lossy su s s1"
      using shutdown_enabled less.prems(2) by blast
    with less.hyps [of s1] stopped_step [OF s1 less.prems(2)] lifecycle_inv_step [OF s1 less.prems(1)]
    show ?thesis by (blast intro: converse_rtranclp_into_rtranclp)
  qed blast
qed

end
