(* ===== verification/C_Consumer.thy ===== *)
theory C_Consumer imports C_Issue_Facts Kafka_Lifecycle begin

text \<open>
  \<open>apps/server-c/src/infrastructure/kafka/coupon-issue-request.consumer.ts\<close>: the consumer
  discipline of \<open>Kafka_Consumer\<close> on the issue processor.  The message value is the raw text of
  the topic.  \<open>clock k\<close> and \<open>rnd k\<close> are the clock and the random digits of attempt \<open>k\<close>.
\<close>

definition parse_request :: "string option \<Rightarrow> issue_request option" where
  "parse_request val = (case val of
      None \<Rightarrow> None
    | Some raw \<Rightarrow> (case JSON_parse raw of
        None \<Rightarrow> None
      | Some parsed \<Rightarrow> (case assertIssueRequestPayload parsed of
          Inl e \<Rightarrow> None
        | Inr _ \<Rightarrow> request_of parsed)))"

definition process_attempt ::
  "(string \<Rightarrow> string) \<Rightarrow> int \<Rightarrow> (nat \<Rightarrow> int) \<Rightarrow> (nat \<Rightarrow> nat \<Rightarrow> nat) \<Rightarrow> nat \<Rightarrow> issue_request \<Rightarrow> (cstate, exn, unit) eff" where
  "process_attempt ck ttl clock rnd k request = process ck ttl (clock k) (rnd k) request"

definition request_deliver ::
  "(string \<Rightarrow> string) \<Rightarrow> int \<Rightarrow> nat \<Rightarrow> (nat \<Rightarrow> int) \<Rightarrow> (nat \<Rightarrow> nat \<Rightarrow> nat) \<Rightarrow> string option \<Rightarrow> (cstate, exn, unit) eff" where
  "request_deliver ck ttl maxDeliveryAttempts clock rnd val =
     deliver maxDeliveryAttempts parse_request (process_attempt ck ttl clock rnd) val"

text \<open>The options the consumer runs with; the threshold and the concurrency come from the environment.\<close>

definition request_run_options :: "nat \<Rightarrow> int \<Rightarrow> run_options" where
  "request_run_options commitThreshold concurrency =
     \<lparr>ro_autoCommit = True, ro_autoCommitThreshold = commitThreshold, ro_eachBatchAutoResolve = False,
      ro_partitionsConsumedConcurrently = concurrency\<rparr>"

definition request_consumer_setup :: "env \<Rightarrow> consumer_setup" where
  "request_consumer_setup env =
     \<lparr>cs_groupId = ''coupon-issue-server-c'', cs_sessionTimeout = 45000, cs_rebalanceTimeout = 300000,
      cs_maxWaitTimeInMs = 500, cs_topic = kt_issueRequest (kafkaTopics_c env), cs_fromBeginning = True,
      cs_run = request_run_options (nat (env_number env ''KAFKA_COMMIT_THRESHOLD'' 1))
        (env_number env ''KAFKA_CONSUMER_CONCURRENCY'' 1)\<rparr>"

definition request_batch ::
  "(string \<Rightarrow> string) \<Rightarrow> int \<Rightarrow> nat \<Rightarrow> nat \<Rightarrow> int \<Rightarrow> nat \<Rightarrow> (nat \<Rightarrow> bool) \<Rightarrow> (nat \<Rightarrow> int) \<Rightarrow> (nat \<Rightarrow> nat \<Rightarrow> nat) \<Rightarrow>
   message list \<Rightarrow> (cstate \<times> offsets, exn, unit) eff" where
  "request_batch ck ttl maxDeliveryAttempts commitThreshold concurrency maxRecordsPerBatch go clock rnd msgs =
     run_batch (request_run_options commitThreshold concurrency) maxRecordsPerBatch go
       (request_deliver ck ttl maxDeliveryAttempts clock rnd) msgs"

section \<open>The processor as a handler\<close>

definition same_for_client :: "cstate \<Rightarrow> cstate \<Rightarrow> bool" where
  "same_for_client c c' \<longleftrightarrow> same_tables (c_db c) (c_db c') \<and> c_redis c' = c_redis c"

definition request_settled :: "issue_request \<Rightarrow> cstate \<Rightarrow> bool" where
  "request_settled p c \<longleftrightarrow> has_row (rq_userId p) (rq_couponTypeId p) (c_db c)"

lemma issue_spec_settles:
  assumes "issue_spec ck now rnd request db = (Inr x, db')"
  shows "has_row (rq_userId request) (rq_couponTypeId request) db'"
proof (cases "has_row (rq_userId request) (rq_couponTypeId request) db")
  case True
  with assms show ?thesis by (simp add: issue_spec_def)
next
  case False
  with assms obtain status code check db1 where
    "record_result ck request status code now check db1 = (Inr x, db')"
    by (auto simp: issue_spec_def split: option.splits if_splits)
  from record_result_Inr(2) [OF this] show ?thesis
    by (auto simp: has_row_def announce_def sql_insert_outbox_def add_row_def same_user_type_def result_row_def)
qed

lemma issue_spec_no_duplicate_error:
  assumes "fst (issue_spec ck now rnd request db) = Inl e"
  shows "\<not> duplicate_error e"
proof -
  have "\<not> duplicate_error e" if "fst (record_result ck request status code now check db1) = Inl e"
      "\<not> has_row (rq_userId request) (rq_couponTypeId request) db1" for status code check db1
    using that by (auto simp: record_result_def user_coupon_insert_nil result_row_def duplicate_error_def
        dup_entry_def split: if_splits)
  moreover have "has_row u t (take_one row db) \<longleftrightarrow> has_row u t db" for u t row
    by (simp add: has_row_def take_one_def sql_update_available_def)
  ultimately show ?thesis
    using assms by (auto simp: issue_spec_def duplicate_error_def split: option.splits if_splits)
qed

lemma process_returns_settled:
  assumes "process ck ttl now rnd request (c, fs) = (Inr (), c', fs')"
  shows "request_settled request c'"
proof -
  obtain o' db' r where t: "runIssueTransaction ck now rnd request (c_db c, fs) = (o', db', r)"
    by (cases "runIssueTransaction ck now rnd request (c_db c, fs)")
  note ref = issue_transaction_refines [of ck now rnd request "c_db c" fs, unfolded t committed_or_untouched_def]
  have db': "c_db c' = db'" using process_cases(1) [OF t, of ttl] assms by simp
  show ?thesis
  proof (cases o')
    case (Inr x)
    with ref have "issue_spec ck now rnd request (c_db c) = (Inr x, db')" by simp
    from issue_spec_settles [OF this] show ?thesis by (simp add: request_settled_def db')
  next
    case (Inl e)
    with process_cases(2) [OF t, of ttl] assms have "duplicate_error e" by (auto split: if_splits)
    moreover from this have "e \<noteq> mysql_down" by (auto simp: duplicate_error_def mysql_down_def)
    moreover from this ref Inl have "fst (issue_spec ck now rnd request (c_db c)) = Inl e" by simp
    ultimately show ?thesis using issue_spec_no_duplicate_error by blast
  qed
qed

lemma same_tables_trans: "same_tables a b \<Longrightarrow> same_tables b c \<Longrightarrow> same_tables a c"
  by (simp add: same_tables_def)

interpretation requests: settling_handler parse_request "process_attempt ck ttl clock rnd"
  "\<lambda>c. db_ok ck (c_db c)" request_settled same_for_client
  for ck ttl clock rnd
proof
  show "keeps_inv (\<lambda>c. db_ok ck (c_db c)) (process_attempt ck ttl clock rnd k p)" for k p
    unfolding process_attempt_def by (rule keeps_process)
  show "request_settled p s'" if "process_attempt ck ttl clock rnd k p (s, fs) = (Inr (), s', fs')" for s k p fs s' fs'
    using that unfolding process_attempt_def by (rule process_returns_settled)
  show "same_for_client s (final (process_attempt ck ttl clock rnd k p (s, fs)))" if "request_settled p s" for p s k fs
    using settled_untouched [of p s ck ttl "clock k" "rnd k" fs] that
    by (simp add: process_attempt_def same_for_client_def request_settled_def)
  show "same_for_client s s" for s by (simp add: same_for_client_def)
  show "same_for_client s u" if "same_for_client s t" "same_for_client t u" for s t u
    using that by (auto simp: same_for_client_def intro: same_tables_trans)
  show "request_settled p t" if "request_settled p s" "same_for_client s t" for p s t
    using that by (simp add: request_settled_def same_for_client_def same_tables_def has_row_def)
qed

section \<open>Outages against attempts\<close>

lemma fair_on_db [fair]: "fair m \<Longrightarrow> fair (on_db m)"
  unfolding on_db_def by (rule fair_zoom)

lemma fair_on_redis [fair]: "fair m \<Longrightarrow> fair (on_redis m)"
  unfolding on_redis_def by (rule fair_zoom)

lemma fair_user_coupon_insert [fair]: "fair (user_coupon_insert ck c)"
  unfolding user_coupon_insert_def by (intro fair)

lemma fair_issue_body: "fair (issue_body ck now rnd request)"
  unfolding issue_body_def saveResult_def saveOutbox_def outbox_append_def findForUpdate_def
    updateAvailableCount_def event_findById_def existsByUserIdAndCouponTypeId_def Let_def
  by (intro fair)

lemma fair_process: "fair (process ck ttl now rnd request)"
proof -
  have "fair (case e of DuplicateUserCouponError m \<Rightarrow> ret None | _ \<Rightarrow> throw e)" for e
    by (cases e) (simp_all add: fair_ret fair_throw)
  then show ?thesis
    unfolding process_def runIssueTransaction_def markSoldOutIfDepleted_def markSoldOut_def
      inventory_findByEventIdAndCouponTypeId_def redis_set_ex_def
    by (intro fair_bnd fair_try fair_on_db fair_on_redis fair_transaction fair_issue_body fair_ret
        fair_option fair_if fair_external)
qed

text \<open>No attempt is rejected by the database itself.\<close>

definition acceptable ::
  "(string \<Rightarrow> string) \<Rightarrow> (nat \<Rightarrow> int) \<Rightarrow> (nat \<Rightarrow> nat \<Rightarrow> nat) \<Rightarrow> issue_request \<Rightarrow> cstate \<Rightarrow> bool" where
  "acceptable ck clock rnd request c \<longleftrightarrow> (\<forall>k. \<not> isl (fst (issue_spec ck (clock k) (rnd k) request (c_db c))))"

lemma fst_issue_spec_tables:
  assumes "same_tables db db'"
  shows "fst (issue_spec ck now rnd request db') = fst (issue_spec ck now rnd request db)"
proof -
  have rec: "fst (record_result ck request status code now check a) = fst (record_result ck request status code now check b)"
    if "d_user_coupons a = d_user_coupons b" "d_coupon_types a = d_coupon_types b" for status code check a b
    using that by (auto simp: record_result_def user_coupon_insert_nil code_taken_def has_row_def known_type_def)
  have t: "d_user_coupons (take_one row d) = d_user_coupons d" "d_coupon_types (take_one row d) = d_coupon_types d" for row d
    by (simp_all add: take_one_def sql_update_available_def)
  show ?thesis
    using assms rec [of db' db] rec [of "take_one row db'" "take_one row db" for row]
    by (auto simp: issue_spec_def same_tables_def has_row_def select_inventory_def t split: option.split)
qed

lemma acceptable_outcome:
  assumes "acceptable ck clock rnd request c"
  shows "outcome (process ck ttl (clock k) (rnd k) request (c, [])) = Inr ()"
proof -
  obtain x db' where spec: "issue_spec ck (clock k) (rnd k) request (c_db c) = (Inr x, db')"
    using assms by (cases "issue_spec ck (clock k) (rnd k) request (c_db c)";
        cases "fst (issue_spec ck (clock k) (rnd k) request (c_db c))") (auto simp: acceptable_def dest: spec [of _ k])
  have "runIssueTransaction ck (clock k) (rnd k) request (c_db c, []) = (Inr x, db', [])"
    by (simp add: runIssueTransaction_def transaction_def issue_body_nil spec)
  from process_cases(2) [OF this] show ?thesis by simp
qed

lemma acceptable_stays:
  assumes acc: "acceptable ck clock rnd request c"
    and p: "process ck ttl now' rnd' request (c, fs) = (Inl e, c', fs')"
  shows "acceptable ck clock rnd request c'"
proof -
  obtain o' db' r where t: "runIssueTransaction ck now' rnd' request (c_db c, fs) = (o', db', r)"
    by (cases "runIssueTransaction ck now' rnd' request (c_db c, fs)")
  have db': "c_db c' = db'" and "o' = Inl e"
    using process_cases(1,2) [OF t, of ttl] p by (auto split: sum.splits if_splits)
  with issue_transaction_refines [of ck now' rnd' request "c_db c" fs, unfolded t committed_or_untouched_def]
  consider "same_tables (c_db c) db'" | x where "issue_spec ck now' rnd' request (c_db c) = (Inr x, db')"
    by auto
  then show ?thesis
  proof cases
    case 1
    with acc show ?thesis by (simp add: acceptable_def db' fst_issue_spec_tables)
  next
    case 2
    from issue_spec_settles [OF 2] show ?thesis by (simp add: acceptable_def db' issue_spec_def)
  qed
qed

section \<open>Properties\<close>

text \<open>C39. The offsets of a batch never run ahead of the work: whatever fails or whenever the consumer
  is stopped, the records whose offsets are resolved are a prefix of the batch of at most
  \<open>maxRecordsPerBatch\<close> records, the state is the one their deliveries lead to, and committed
  offsets are resolved ones; no record that the throttle leaves for the next fetch is given up.  When
  nothing fails, the batch is worked off up to the limit and all of that is committed.\<close>

theorem request_batch_offsets:
  assumes "commit_ok k"
  shows "(\<exists>n c' k'. final (request_batch ck ttl maxDeliveryAttempts commitThreshold concurrency maxRecordsPerBatch go
      clock rnd msgs ((c, k), fs)) = (c', k') \<and> n \<le> length msgs \<and> n \<le> maxRecordsPerBatch \<and>
    k_resolved k' = k_resolved k @ map m_offset (take n msgs) \<and> commit_ok k' \<and>
    delivered (request_deliver ck ttl maxDeliveryAttempts clock rnd) (take n msgs) c c') \<and>
    (\<exists>c' k'. request_batch ck ttl maxDeliveryAttempts commitThreshold concurrency maxRecordsPerBatch (\<lambda>_. True)
      clock rnd msgs ((c, k), []) = (Inr (), (c', k'), []) \<and>
    k_resolved k' = k_resolved k @ map m_offset (take maxRecordsPerBatch msgs) \<and> k_committed k' = k_resolved k')"
proof (rule conjI)
  show "\<exists>n c' k'. final (request_batch ck ttl maxDeliveryAttempts commitThreshold concurrency maxRecordsPerBatch go
      clock rnd msgs ((c, k), fs)) = (c', k') \<and> n \<le> length msgs \<and> n \<le> maxRecordsPerBatch \<and>
    k_resolved k' = k_resolved k @ map m_offset (take n msgs) \<and> commit_ok k' \<and>
    delivered (request_deliver ck ttl maxDeliveryAttempts clock rnd) (take n msgs) c c'"
    unfolding request_batch_def request_deliver_def
    by (rule run_batch_prefix [OF deliver_never_throws assms]) (simp add: request_run_options_def)
  show "\<exists>c' k'. request_batch ck ttl maxDeliveryAttempts commitThreshold concurrency maxRecordsPerBatch (\<lambda>_. True)
      clock rnd msgs ((c, k), []) = (Inr (), (c', k'), []) \<and>
    k_resolved k' = k_resolved k @ map m_offset (take maxRecordsPerBatch msgs) \<and> k_committed k' = k_resolved k'"
    unfolding request_batch_def request_deliver_def
    by (rule run_batch_all)
      (simp_all add: deliver_never_throws deliver_quiet request_run_options_def process_attempt_def fair_process)
qed

theorem request_batch_offsets_witness:
  "\<exists>c' k'. request_batch id 86400 10 1 1 1 (\<lambda>_. True) (\<lambda>_. 6000) (\<lambda>_ _. 0)
      [\<lparr>m_value = None, m_offset = 4\<rparr>, \<lparr>m_value = None, m_offset = 5\<rparr>]
      ((shop 5, \<lparr>k_resolved = [], k_committed = []\<rparr>), []) = (Inr (), (c', k'), []) \<and>
    k_resolved k' = [4] \<and> k_committed k' = k_resolved k'"
  using request_batch_offsets [of "\<lparr>k_resolved = [], k_committed = []\<rparr>" id 86400 10 1 1 1 "\<lambda>_. True" "\<lambda>_. 6000"
      "\<lambda>_ _. 0" "[\<lparr>m_value = None, m_offset = 4\<rparr>, \<lparr>m_value = None, m_offset = 5\<rparr>]" "shop 5" "[FailBefore]"]
  by (simp add: commit_ok_def)

text \<open>C16. Every accepted request is decided in spite of outages: a well-formed record that the
  database does not reject leaves a result row for its user and coupon type as long as fewer
  calls fail than there are delivery attempts.\<close>

theorem request_delivery_settles:
  assumes "parse_request val = Some request" "db_ok ck (c_db c)"
    and "acceptable ck clock rnd request c" "nfaults fs < maxDeliveryAttempts"
  shows "has_row (rq_userId request) (rq_couponTypeId request)
    (c_db (final (request_deliver ck ttl maxDeliveryAttempts clock rnd val (c, fs))))"
proof -
  have "request_settled request (final (delivery_attempts maxDeliveryAttempts 1
      (process_attempt ck ttl clock rnd) request (c, fs)))"
  proof (rule requests.attempts_settle [where ready = "acceptable ck clock rnd request" and p = request, OF _ _ _ assms(2-4)])
    show "fair (process_attempt ck ttl clock rnd k request)" for k
      unfolding process_attempt_def by (rule fair_process)
    show "outcome (process_attempt ck ttl clock rnd k request (s, [])) = Inr ()"
      if "acceptable ck clock rnd request s" for k s
      unfolding process_attempt_def using that by (rule acceptable_outcome)
    show "acceptable ck clock rnd request t"
      if "acceptable ck clock rnd request s" "process_attempt ck ttl clock rnd k request (s, fs) = (Inl e, t, gs)"
      for k s fs e t gs
      using that unfolding process_attempt_def by (rule acceptable_stays)
  qed
  then show ?thesis
    using assms(1) by (simp add: request_deliver_def deliver_def request_settled_def)
qed

text \<open>At-least-once delivery is harmless: delivering again any message for a pair that has its
  row, any number of times and under any faults, changes no table and not the cache.\<close>

lemma request_redelivery_invisible:
  assumes "parse_request val = Some request"
    and "has_row (rq_userId request) (rq_couponTypeId request) (c_db c)"
  shows "same_for_client c (final (request_deliver ck ttl maxDeliveryAttempts clock rnd val (c, fs)))"
  unfolding request_deliver_def
  using requests.redelivery [OF assms(1)] assms(2) by (simp add: request_settled_def)

text \<open>Witnesses: the request of user 11, once with two outages, once delivered again.\<close>

definition request_text :: string where
  "request_text = JSON_stringify (request_json (request_of_user 11))"

lemma parse_request_json:
  assumes "\<not> blank (rq_requestId p)" "0 < rq_userId p" "0 < rq_eventId p" "0 < rq_couponTypeId p"
  shows "parse_request (Some (JSON_stringify (request_json p))) = Some p"
  using assms assert_request_json [of p]
  by (simp add: parse_request_def JSON_parse_stringify split: sum.split)

lemma parse_request_text: "parse_request (Some request_text) = Some (request_of_user 11)"
  unfolding request_text_def
  by (rule parse_request_json) (simp_all add: request_of_user_def blank_def is_space_def)

theorem request_delivery_settles_witness:
  "has_row 11 3 (c_db (final (request_deliver id 86400 10 (\<lambda>_. 6000) (\<lambda>_ _. 0) (Some request_text)
     (shop 5, [FailBefore, NoFault, NoFault, FailAfter]))))"
proof -
  have "acceptable id (\<lambda>_. 6000) (\<lambda>_ _. 0) (request_of_user 11) (shop 5)"
    by (simp add: acceptable_def issue_spec_def record_result_def user_coupon_insert_nil has_row_def
        code_taken_def known_type_def select_inventory_def shop_def shop_db_def shop_event_def
        shop_stock_def request_of_user_def result_row_def take_one_def sql_update_available_def)
  moreover have "db_ok id (c_db (shop 5))" by (simp add: shop_def shop_db_ok)
  ultimately show ?thesis
    using request_delivery_settles [OF parse_request_text, of id "shop 5" "\<lambda>_. 6000" "\<lambda>_ _. 0"
        "[FailBefore, NoFault, NoFault, FailAfter]" 10 86400]
    by (simp add: request_of_user_def)
qed

lemma request_redelivery_invisible_witness:
  "same_for_client (served_shop 5) (final (request_deliver id 86400 10 (\<lambda>_. 6000) (\<lambda>_ _. 0) (Some request_text)
     (served_shop 5, [FailBefore, FailAfter])))"
  by (rule request_redelivery_invisible [OF parse_request_text])
    (simp add: has_row_def same_user_type_def served_shop_def served_coupon_def request_of_user_def)

end
