(* ===== verification/C_Outbox.thy ===== *)
theory C_Outbox imports C_Issue_Facts "HOL-Library.Multiset" begin

text \<open>
  \<open>apps/server-c/src/application/outbox.poller.ts\<close> and the publisher it calls
  (\<open>infrastructure/kafka/issue-result.publisher.ts\<close>).  A send that fails after it took effect is a
  message the broker has although the producer saw an error, the source of duplicates on the
  topic.
\<close>

section \<open>The publisher\<close>

definition kafka_down :: exn where
  "kafka_down = Connection_Error ''kafka''"

definition IssueResultPublisher_publish :: "string \<Rightarrow> string \<Rightarrow> (cstate, exn, unit) eff" where
  "IssueResultPublisher_publish key val =
     bnd (gets c_connected) (\<lambda>connected.
     bnd (if \<not> connected
          then bnd (external kafka_down (\<lambda>c. ((), c))) (\<lambda>_. modify (\<lambda>c. c\<lparr>c_connected := True\<rparr>))
          else ret ()) (\<lambda>_.
     external kafka_down (\<lambda>c. ((), c\<lparr>c_topic := c_topic c @ [(key, val)]\<rparr>))))"

text \<open>
  The producer connects in the background when the module starts; a failure is only logged.  The
  shutdown waits for that and disconnects, whatever comes of it.
\<close>

definition IssueResultPublisher_onModuleInit :: "(cstate, exn, unit) eff" where
  "IssueResultPublisher_onModuleInit = try_catch
     (bnd (external kafka_down (\<lambda>c. ((), c))) (\<lambda>_. modify (\<lambda>c. c\<lparr>c_connected := True\<rparr>)))
     (\<lambda>e. ret ())"

definition IssueResultPublisher_onApplicationShutdown :: "(cstate, exn, unit) eff" where
  "IssueResultPublisher_onApplicationShutdown = try_catch (external kafka_down (\<lambda>c. ((), c))) (\<lambda>e. ret ())"

text \<open>A process that starts again has lost what it had in memory; the producer shuts down and connects anew.\<close>

definition c_restart :: "(cstate, exn, unit) eff" where
  "c_restart = bnd IssueResultPublisher_onApplicationShutdown (\<lambda>_.
     bnd (modify (\<lambda>c. c\<lparr>c_polling := False, c_refreshing := False, c_connected := False\<rparr>)) (\<lambda>_.
     IssueResultPublisher_onModuleInit))"

lemma c_restart_cases:
  "\<exists>x. final (c_restart (c, fs)) = c\<lparr>c_polling := False, c_refreshing := False, c_connected := x\<rparr>"
  "outcome (c_restart (c, fs)) = Inr ()"
  by (auto simp: c_restart_def IssueResultPublisher_onApplicationShutdown_def IssueResultPublisher_onModuleInit_def
      bnd_def try_catch_def external_def split: list.split fault.split)

section \<open>The poller\<close>

text \<open>The loop over the batch; \<open>published\<close> collects the identifiers whose send returned.\<close>

fun publish_each :: "outbox_record list \<Rightarrow> int list \<Rightarrow> (cstate, exn, int list) eff" where
  "publish_each [] published = ret published"
| "publish_each (ev # evs) published =
     bnd (try_catch
           (bnd (IssueResultPublisher_publish (or_aggregateId ev) (or_payload ev)) (\<lambda>_.
              ret (published @ [or_id ev])))
           (\<lambda>e. ret published))
         (publish_each evs)"

definition publishPending :: "nat \<Rightarrow> int \<Rightarrow> (cstate, exn, unit) eff" where
  "publishPending batchSize now =
     bnd (on_db (findPending batchSize)) (\<lambda>evs.
     if evs = [] then ret () else
     bnd (publish_each evs []) (\<lambda>published.
     if published \<noteq> [] then bnd (on_db (markPublished published now)) (\<lambda>_. ret ()) else ret ()))"

definition poll :: "nat \<Rightarrow> int \<Rightarrow> (cstate, exn, unit) eff" where
  "poll batchSize now =
     bnd (gets c_polling) (\<lambda>running.
     if running then ret () else
     bnd (modify (\<lambda>c. c\<lparr>c_polling := True\<rparr>)) (\<lambda>_.
     bnd (try_catch (publishPending batchSize now) (\<lambda>e. ret ())) (\<lambda>_.
     modify (\<lambda>c. c\<lparr>c_polling := False\<rparr>))))"

section \<open>A poll cannot fail and always releases its guard\<close>

lemma poll_ends:
  "outcome (poll n now (c, fs)) = Inr ()" "c_polling (final (poll n now (c, fs))) = c_polling c"
proof -
  let ?t = "try_catch (publishPending n now) (\<lambda>e. ret ()) (c\<lparr>c_polling := True\<rparr>, fs)"
  obtain r c' fs' where t: "?t = (r, c', fs')" by (cases ?t)
  with try_ret_unit [of "publishPending n now" "(c\<lparr>c_polling := True\<rparr>, fs)"] have "r = Inr ()" by simp
  with t show "outcome (poll n now (c, fs)) = Inr ()"
    "c_polling (final (poll n now (c, fs))) = c_polling c"
    by (simp_all add: poll_def bnd_def)
qed

section \<open>Published means sent\<close>

definition sent :: "outbox_row \<Rightarrow> (string \<times> string) list \<Rightarrow> bool" where
  "sent o' topic \<longleftrightarrow> (o_aggregateId o', o_payload o') \<in> set topic"

definition published_sent :: "cstate \<Rightarrow> bool" where
  "published_sent c \<longleftrightarrow> outbox_ids_ok (c_db c) \<and>
     (\<forall>o' \<in> set (d_outbox (c_db c)). o_status o' = OB_PUBLISHED \<longrightarrow> sent o' (c_topic c))"

text \<open>The rows with the given identifiers are all on the topic.\<close>

definition ids_sent :: "int list \<Rightarrow> cstate \<Rightarrow> bool" where
  "ids_sent ids c \<longleftrightarrow> (\<forall>o' \<in> set (d_outbox (c_db c)). o_outboxEventId o' \<in> set (map dec ids) \<longrightarrow> sent o' (c_topic c))"

text \<open>What a read batch knows of the table.\<close>

definition batch_of :: "outbox_record list \<Rightarrow> cdb \<Rightarrow> bool" where
  "batch_of evs db \<longleftrightarrow> (\<forall>ev \<in> set evs. \<exists>o' \<in> set (d_outbox db). ev = outbox_record_of o')"

lemma set_select_pending: "set (select_pending n db) \<subseteq> {o' \<in> set (d_outbox db). o_status o' = OB_PENDING}"
  unfolding select_pending_def by (rule subset_trans [OF set_take_subset]) simp

lemma batch_of_select: "batch_of (map outbox_record_of (select_pending n db)) db"
  using set_select_pending by (fastforce simp: batch_of_def)

lemma outbox_row_by_id:
  assumes "outbox_ids_ok db" "o1 \<in> set (d_outbox db)" "o2 \<in> set (d_outbox db)"
    and "o_outboxEventId o1 = o_outboxEventId o2"
  shows "o1 = o2"
  using assms by (auto simp: outbox_ids_ok_def distinct_map inj_on_def)

lemma outbox_id_canonical: "outbox_ids_ok db \<Longrightarrow> o' \<in> set (d_outbox db) \<Longrightarrow> dec (or_id (outbox_record_of o')) = o_outboxEventId o'"
  by (auto simp: outbox_ids_ok_def outbox_record_of_def)

text \<open>A publish leaves the database alone, only adds to the topic, and returns only when the
  message is on it.\<close>

lemma publish_cases:
  obtains (sent) c' r where "IssueResultPublisher_publish k v (c, fs) = (Inr (), c', r)"
      "c_db c' = c_db c" "c_topic c' = c_topic c @ [(k, v)]"
  | (failed) e c' r where "IssueResultPublisher_publish k v (c, fs) = (Inl e, c', r)"
      "c_db c' = c_db c" "\<exists>more. c_topic c' = c_topic c @ more \<and> set more \<subseteq> {(k, v)}"
proof -
  let ?conn = "if \<not> c_connected c
          then bnd (external kafka_down (\<lambda>c. ((), c))) (\<lambda>_. modify (\<lambda>c. c\<lparr>c_connected := True\<rparr>))
          else (ret () :: (cstate, exn, unit) eff)"
  let ?send = "external kafka_down (\<lambda>c. ((), c\<lparr>c_topic := c_topic c @ [(k, v)]\<rparr>)) :: (cstate, exn, unit) eff"
  have p: "IssueResultPublisher_publish k v (c, fs) = bnd ?conn (\<lambda>_. ?send) (c, fs)"
    by (simp add: IssueResultPublisher_publish_def bnd_def)
  obtain r1 c1 fs1 where w: "?conn (c, fs) = (r1, c1, fs1)" by (cases "?conn (c, fs)")
  have c1: "c_db c1 = c_db c" "c_topic c1 = c_topic c"
    using w by (cases fs; cases "hd fs"; auto simp: bnd_def modify_def external_def split: if_splits)+
  show thesis
  proof (cases r1)
    case (Inl e)
    with w c1 show ?thesis
      by (intro failed [of e c1 fs1]) (simp_all add: p bnd_def)
  next
    case (Inr u)
    show ?thesis
      by (cases rule: external_cases [where e = kafka_down and s = c1 and fs = fs1 and
            f = "\<lambda>c. ((), c\<lparr>c_topic := c_topic c @ [(k, v)]\<rparr>)"])
        (use w Inr c1 in \<open>auto simp: p bnd_def intro: sent failed\<close>)
  qed
qed

lemma sent_mono: "sent o' t \<Longrightarrow> set t \<subseteq> set t' \<Longrightarrow> sent o' t'"
  by (auto simp: sent_def)

lemma ids_sent_mono:
  "ids_sent ids c \<Longrightarrow> c_db c' = c_db c \<Longrightarrow> set (c_topic c) \<subseteq> set (c_topic c') \<Longrightarrow> ids_sent ids c'"
  by (auto simp: ids_sent_def intro: sent_mono)

lemma publish_each_sent:
  assumes "outbox_ids_ok (c_db c)" "batch_of evs (c_db c)" "ids_sent published c"
  shows "\<exists>ids c' r. publish_each evs published (c, fs) = (Inr ids, c', r) \<and> c_db c' = c_db c \<and>
    set (c_topic c) \<subseteq> set (c_topic c') \<and> ids_sent ids c'"
  using assms
proof (induction evs arbitrary: published c fs)
  case Nil
  then show ?case by simp
next
  case (Cons ev evs)
  let ?k = "or_aggregateId ev" and ?v = "or_payload ev"
  have b: "batch_of evs (c_db c)" using Cons.prems(2) by (simp add: batch_of_def)
  show ?case
  proof (cases rule: publish_cases [where k = ?k and v = ?v and c = c and fs = fs])
    case (sent c' r)
    from Cons.prems(2) obtain o' where o': "o' \<in> set (d_outbox (c_db c))" "ev = outbox_record_of o'"
      by (auto simp: batch_of_def)
    have "ids_sent (published @ [or_id ev]) c'"
      unfolding ids_sent_def
    proof (intro ballI impI)
      fix x assume x: "x \<in> set (d_outbox (c_db c'))" "o_outboxEventId x \<in> set (map dec (published @ [or_id ev]))"
      show "sent x (c_topic c')"
      proof (cases "o_outboxEventId x = dec (or_id ev)")
        case True
        with o' x sent(2) have "x = o'"
          by (intro outbox_row_by_id [OF Cons.prems(1)]) (auto simp: outbox_id_canonical [OF Cons.prems(1)])
        with o' sent(3) show ?thesis by (simp add: sent_def outbox_record_of_def)
      next
        case False
        with x sent(2) Cons.prems(3) have "sent x (c_topic c)" by (auto simp: ids_sent_def)
        with sent(3) show ?thesis by (auto simp: sent_def)
      qed
    qed
    with sent(2) Cons.prems(1) b obtain ids c2 r2
      where rest: "publish_each evs (published @ [or_id ev]) (c', r) = (Inr ids, c2, r2)" "c_db c2 = c_db c'"
        "set (c_topic c') \<subseteq> set (c_topic c2)" "ids_sent ids c2"
      using Cons.IH [of c' "published @ [or_id ev]" r] by auto
    have "publish_each (ev # evs) published (c, fs) = (Inr ids, c2, r2)"
      using sent(1) rest(1) by (simp add: bnd_def try_catch_def ret_def)
    with sent(2,3) rest show ?thesis by auto
  next
    case (failed e c' r)
    have "ids_sent published c'"
      by (rule ids_sent_mono [OF Cons.prems(3)]) (use failed in auto)
    with failed(2) Cons.prems(1) b obtain ids c2 r2
      where rest: "publish_each evs published (c', r) = (Inr ids, c2, r2)" "c_db c2 = c_db c'"
        "set (c_topic c') \<subseteq> set (c_topic c2)" "ids_sent ids c2"
      using Cons.IH [of c' published r] by auto
    have "publish_each (ev # evs) published (c, fs) = (Inr ids, c2, r2)"
      using failed(1) rest(1) by (simp add: bnd_def try_catch_def ret_def)
    with failed(2,3) rest show ?thesis by auto
  qed
qed

definition mark_row :: "int list \<Rightarrow> int \<Rightarrow> outbox_row \<Rightarrow> outbox_row" where
  "mark_row ids now row = (if o_outboxEventId row \<in> set (map dec ids)
     then row\<lparr>o_status := OB_PUBLISHED, o_publishedAt := Some now\<rparr> else row)"

lemma mark_row_simps [simp]:
  "o_outboxEventId (mark_row ids now row) = o_outboxEventId row"
  "o_aggregateId (mark_row ids now row) = o_aggregateId row"
  "o_payload (mark_row ids now row) = o_payload row"
  "o_createdAt (mark_row ids now row) = o_createdAt row"
  by (simp_all add: mark_row_def)

lemma d_outbox_mark: "d_outbox (snd (sql_mark_published ids now db)) = map (mark_row ids now) (d_outbox db)"
  by (simp add: sql_mark_published_def mark_row_def [abs_def])

lemma mark_other_tables [simp]:
  "d_next_outbox (snd (sql_mark_published ids now db)) = d_next_outbox db"
  "d_user_coupons (snd (sql_mark_published ids now db)) = d_user_coupons db"
  "d_inventories (snd (sql_mark_published ids now db)) = d_inventories db"
  "d_next_user_coupon (snd (sql_mark_published ids now db)) = d_next_user_coupon db"
  by (simp_all add: sql_mark_published_def)

lemma outbox_ids_ok_mark: "outbox_ids_ok db \<Longrightarrow> outbox_ids_ok (snd (sql_mark_published ids now db))"
  by (simp add: outbox_ids_ok_def d_outbox_mark comp_def)

lemma published_sent_mark:
  assumes "published_sent c" "ids_sent ids c"
  shows "published_sent (c\<lparr>c_db := snd (sql_mark_published ids now (c_db c))\<rparr>)"
proof -
  have "sent (mark_row ids now o') t \<longleftrightarrow> sent o' t" for o' t
    by (simp add: sent_def)
  with assms show ?thesis
    by (auto simp: published_sent_def ids_sent_def outbox_ids_ok_mark d_outbox_mark)
      (auto simp: mark_row_def split: if_splits)
qed

lemma markPublished_cases:
  "final (on_db (markPublished ids now) (c, fs)) \<in> {c, c\<lparr>c_db := snd (sql_mark_published ids now (c_db c))\<rparr>}"
proof (cases "ids = []")
  case True
  then show ?thesis by (simp add: markPublished_def on_db_def zoom_def)
next
  case False
  show ?thesis
    by (cases rule: external_cases [where e = mysql_down and s = "c_db c" and fs = fs and
          f = "sql_mark_published ids now"])
      (use False in \<open>auto simp: markPublished_def on_db_def zoom_def\<close>)
qed

lemma publishPending_published_sent:
  assumes inv: "published_sent c"
  shows "published_sent (final (publishPending n now (c, fs)))"
proof (cases rule: external_cases [where e = mysql_down and s = "c_db c" and fs = fs and
      f = "\<lambda>db. (map outbox_record_of (select_pending n db), db)"])
  case (ok r)
  let ?evs = "map outbox_record_of (select_pending n (c_db c))"
  from ok have find: "on_db (findPending n) (c, fs) = (Inr ?evs, c, r)"
    by (simp add: on_db_def zoom_def findPending_def)
  obtain ids c' r' where e: "publish_each ?evs [] (c, r) = (Inr ids, c', r')" "c_db c' = c_db c"
      "set (c_topic c) \<subseteq> set (c_topic c')" "ids_sent ids c'"
    using publish_each_sent [of c ?evs "[]" r] inv batch_of_select
    by (auto simp: published_sent_def ids_sent_def)
  have inv': "published_sent c'"
    using inv e(2,3) by (auto simp: published_sent_def intro: sent_mono)
  have "published_sent (final (on_db (markPublished ids now) (c', r')))"
    using markPublished_cases [of ids now c' r'] inv' published_sent_mark [OF inv' e(4)] by auto
  with find e(1) inv inv' show ?thesis
    by (auto simp: publishPending_def bnd_def ret_def split: prod.split sum.split)
next
  case (before r)
  with inv show ?thesis by (simp add: publishPending_def bnd_def on_db_def zoom_def findPending_def)
next
  case (after r)
  with inv show ?thesis by (simp add: publishPending_def bnd_def on_db_def zoom_def findPending_def)
qed

lemma keeps_poll_published_sent: "keeps_inv published_sent (poll n now)"
proof -
  have flag: "published_sent (c\<lparr>c_polling := b\<rparr>) \<longleftrightarrow> published_sent c" for c b
    by (simp add: published_sent_def)
  have "keeps_inv published_sent (publishPending n now)"
    by (rule keeps_invI) (rule publishPending_published_sent)
  then show ?thesis
    unfolding poll_def by (intro keeps_bnd keeps_gets keeps_modify keeps_try keeps_if keeps_ret) (simp_all add: flag)
qed

section \<open>A poll without faults\<close>

definition message_of :: "outbox_row \<Rightarrow> string \<times> string" where
  "message_of row = (o_aggregateId row, o_payload row)"

definition batch_ids :: "nat \<Rightarrow> cdb \<Rightarrow> int list" where
  "batch_ids n db = map (\<lambda>row. js_Number (o_outboxEventId row)) (select_pending n db)"

lemma publish_nil:
  "IssueResultPublisher_publish k v (c, []) = (Inr (), c\<lparr>c_connected := True, c_topic := c_topic c @ [(k, v)]\<rparr>, [])"
  by (simp add: IssueResultPublisher_publish_def bnd_def)

lemma publish_each_nil:
  "publish_each evs ids (c, []) = (Inr (ids @ map or_id evs),
     c\<lparr>c_connected := c_connected c \<or> evs \<noteq> [],
       c_topic := c_topic c @ map (\<lambda>ev. (or_aggregateId ev, or_payload ev)) evs\<rparr>, [])"
proof (induction evs arbitrary: ids c)
  case (Cons ev evs)
  then show ?case by (simp add: bnd_def try_catch_def publish_nil)
qed simp

lemma poll_nil:
  assumes "\<not> c_polling c"
  shows "d_outbox (c_db (final (poll n now (c, [])))) = map (mark_row (batch_ids n (c_db c)) now) (d_outbox (c_db c))"
    "c_topic (final (poll n now (c, []))) = c_topic c @ map message_of (select_pending n (c_db c))"
    "\<not> c_polling (final (poll n now (c, [])))"
proof -
  let ?S = "select_pending n (c_db c)" and ?c = "c\<lparr>c_polling := True\<rparr>"
  have find: "on_db (findPending n) (?c, []) = (Inr (map outbox_record_of ?S), ?c, [])"
    by (simp add: on_db_def zoom_def findPending_def)
  have msgs: "map (\<lambda>ev. (or_aggregateId ev, or_payload ev)) (map outbox_record_of ?S) = map message_of ?S"
    "map or_id (map outbox_record_of ?S) = batch_ids n (c_db c)"
    by (simp_all add: message_of_def outbox_record_of_def batch_ids_def)
  have "d_outbox (c_db (final (publishPending n now (?c, [])))) = map (mark_row (batch_ids n (c_db c)) now) (d_outbox (c_db c)) \<and>
    c_topic (final (publishPending n now (?c, []))) = c_topic c @ map message_of ?S \<and>
    outcome (publishPending n now (?c, [])) = Inr ()"
  proof (cases "?S = []")
    case True
    moreover have "map (mark_row [] now) rows = rows" for rows
      by (simp add: mark_row_def map_idI)
    ultimately show ?thesis
      using find by (simp add: publishPending_def bnd_def batch_ids_def)
  next
    case False
    then have "batch_ids n (c_db c) \<noteq> []" by (simp add: batch_ids_def)
    with False find show ?thesis
      unfolding publishPending_def
      by (simp add: bnd_def publish_each_nil msgs [simplified] on_db_def zoom_def markPublished_def
          d_outbox_mark)
  qed
  then obtain c' r' where p: "publishPending n now (?c, []) = (Inr (), c', r')"
      "d_outbox (c_db c') = map (mark_row (batch_ids n (c_db c)) now) (d_outbox (c_db c))"
      "c_topic c' = c_topic c @ map message_of ?S"
    by (cases "publishPending n now (?c, [])") auto
  with assms show "d_outbox (c_db (final (poll n now (c, [])))) = map (mark_row (batch_ids n (c_db c)) now) (d_outbox (c_db c))"
    "c_topic (final (poll n now (c, []))) = c_topic c @ map message_of ?S"
    "\<not> c_polling (final (poll n now (c, [])))"
    by (simp_all add: poll_def bnd_def try_catch_def)
qed

definition pending_rows :: "cdb \<Rightarrow> outbox_row list" where
  "pending_rows db = filter (\<lambda>row. o_status row = OB_PENDING) (d_outbox db)"

lemma length_minus_batch:
  assumes "distinct xs"
  shows "length (filter (\<lambda>x. x \<notin> set (take n (sort_key k xs))) xs) = length xs - n"
proof -
  let ?t = "take n (sort_key k xs)"
  have d: "distinct ?t" using assms by simp
  have sub: "set ?t \<subseteq> set xs" by (rule subset_trans [OF set_take_subset]) simp
  have "length (filter (\<lambda>x. x \<notin> set ?t) xs) = card (set xs - set ?t)"
    using assms by (simp add: distinct_card [symmetric] set_diff_eq)
  also have "\<dots> = card (set xs) - card (set ?t)" using sub by (simp add: card_Diff_subset)
  also have "\<dots> = length xs - min (length xs) n"
    using distinct_card [OF d] distinct_card [OF assms] by simp
  finally show ?thesis by simp
qed

lemma pending_after_poll:
  assumes "\<not> c_polling c" "outbox_ids_ok (c_db c)"
  shows "length (pending_rows (c_db (final (poll n now (c, []))))) = length (pending_rows (c_db c)) - n"
proof -
  let ?db = "c_db c"
  let ?S = "select_pending n ?db"
  have sel: "?S = take n (sort_key o_createdAt (pending_rows ?db))"
    by (simp add: select_pending_def pending_rows_def)
  have mem: "o_outboxEventId row \<in> set (map dec (batch_ids n ?db)) \<longleftrightarrow> row \<in> set ?S"
    if "row \<in> set (d_outbox ?db)" for row
  proof -
    have "set ?S \<subseteq> set (d_outbox ?db)" using set_select_pending [of n ?db] by blast
    then have "set (map dec (batch_ids n ?db)) = o_outboxEventId ` set ?S"
      using outbox_id_canonical [OF assms(2)]
      by (force simp: batch_ids_def outbox_record_of_def)
    with that \<open>set ?S \<subseteq> set (d_outbox ?db)\<close> outbox_row_by_id [OF assms(2)] show ?thesis by blast
  qed
  have "pending_rows (c_db (final (poll n now (c, [])))) =
      map (mark_row (batch_ids n ?db) now) (filter (\<lambda>row. o_status (mark_row (batch_ids n ?db) now row) = OB_PENDING) (d_outbox ?db))"
    by (simp add: pending_rows_def poll_nil(1) [OF assms(1)] filter_map comp_def)
  also have "filter (\<lambda>row. o_status (mark_row (batch_ids n ?db) now row) = OB_PENDING) (d_outbox ?db) =
      filter (\<lambda>row. row \<notin> set ?S) (pending_rows ?db)"
    unfolding pending_rows_def filter_filter
    by (intro filter_cong refl) (use mem in \<open>auto simp: mark_row_def\<close>)
  finally have "length (pending_rows (c_db (final (poll n now (c, []))))) =
      length (filter (\<lambda>row. row \<notin> set ?S) (pending_rows ?db))" by simp
  also have "distinct (pending_rows ?db)"
    using assms(2) by (simp add: pending_rows_def outbox_ids_ok_def distinct_map)
  from length_minus_batch [OF this, of n o_createdAt]
  have "length (filter (\<lambda>row. row \<notin> set ?S) (pending_rows ?db)) = length (pending_rows ?db) - n"
    by (simp add: sel)
  finally show ?thesis .
qed

section \<open>Repeated polls\<close>

fun polls :: "nat \<Rightarrow> nat \<Rightarrow> int \<Rightarrow> cstate \<Rightarrow> cstate" where
  "polls 0 n now c = c"
| "polls (Suc k) n now c = polls k n now (final (poll n now (c, [])))"

lemma polls_drain:
  assumes "\<not> c_polling c" "published_sent c" "length (pending_rows (c_db c)) \<le> k * n"
  shows "published_sent (polls k n now c) \<and> pending_rows (c_db (polls k n now c)) = []"
  using assms
proof (induction k arbitrary: c)
  case (Suc k)
  let ?c = "final (poll n now (c, []))"
  have "length (pending_rows (c_db ?c)) = length (pending_rows (c_db c)) - n"
    using Suc.prems by (intro pending_after_poll) (auto simp: published_sent_def)
  moreover have "published_sent ?c" by (rule keeps_invD [OF keeps_poll_published_sent Suc.prems(2)])
  moreover have "\<not> c_polling ?c" by (rule poll_nil(3) [OF Suc.prems(1)])
  ultimately show ?case using Suc.IH [of ?c] Suc.prems(3) by simp
qed simp

section \<open>Properties\<close>

text \<open>At-least-once, the safety half: under every pattern of faults a poll never marks a row
  PUBLISHED whose message the broker has not accepted.\<close>

lemma poll_marks_only_sent:
  assumes "published_sent c"
  shows "published_sent (final (poll batchSize now (c, fs)))"
  by (rule keeps_invD [OF keeps_poll_published_sent assms])

text \<open>C29. At-least-once, the liveness half: once MySQL and Kafka answer, as many polls as there are
  batches send every pending result and leave no row PENDING.\<close>

theorem polls_publish_everything:
  assumes "published_sent c" "\<not> c_polling c" "length (pending_rows (c_db c)) \<le> k * batchSize"
  shows "list_all (\<lambda>row. o_status row = OB_PUBLISHED \<and> message_of row \<in> set (c_topic (polls k batchSize now c)))
    (d_outbox (c_db (polls k batchSize now c)))"
  unfolding list_all_iff
proof
  fix row assume row: "row \<in> set (d_outbox (c_db (polls k batchSize now c)))"
  from polls_drain [OF assms(2,1,3)] have d: "published_sent (polls k batchSize now c)"
    "pending_rows (c_db (polls k batchSize now c)) = []" by simp_all
  with row have "o_status row \<noteq> OB_PENDING" by (auto simp: pending_rows_def filter_empty_conv)
  then have "o_status row = OB_PUBLISHED" by (cases "o_status row") simp_all
  with d(1) row show "o_status row = OB_PUBLISHED \<and> message_of row \<in> set (c_topic (polls k batchSize now c))"
    by (auto simp: published_sent_def sent_def message_of_def)
qed

text \<open>A poll without faults sends the oldest pending results first: at most a batch of them,
  keyed by the request identifier, in the order of their creation times, each one no later than
  any pending row it leaves behind.\<close>

lemma poll_sends_oldest_first:
  assumes "\<not> c_polling c"
  shows "\<exists>batch rest. c_topic (final (poll batchSize now (c, []))) = c_topic c @ map message_of batch \<and>
    length batch \<le> batchSize \<and> sorted (map o_createdAt (batch @ rest)) \<and>
    mset (batch @ rest) = mset (pending_rows (c_db c))"
proof (intro exI conjI)
  let ?xs = "sort_key o_createdAt (pending_rows (c_db c))"
  show "c_topic (final (poll batchSize now (c, []))) = c_topic c @ map message_of (take batchSize ?xs)"
    using poll_nil(2) [OF assms] by (simp add: select_pending_def pending_rows_def)
  show "length (take batchSize ?xs) \<le> batchSize" by simp
  show "sorted (map o_createdAt (take batchSize ?xs @ drop batchSize ?xs))" by simp
  show "mset (take batchSize ?xs @ drop batchSize ?xs) = mset (pending_rows (c_db c))"
    by (simp only: append_take_drop_id mset_sort)
qed

text \<open>No fault kills the poller: every call returns normally and leaves the guard as it found it,
  so a later tick runs.\<close>

lemma poll_never_dies:
  "outcome (poll batchSize now (c, fs)) = Inr () \<and> c_polling (final (poll batchSize now (c, fs))) = c_polling c"
  using poll_ends by blast

text \<open>Witnesses: the served shop, whose one result is pending.\<close>

lemma served_shop_published_sent: "published_sent (served_shop 5)"
  using served_db_ok [of 5 id]
  by (simp add: published_sent_def db_ok_def served_shop_def shop_def)
    (simp add: served_db_def announce_def sql_insert_outbox_def add_row_def bump_def take_one_def
      sql_update_available_def shop_db_def)

theorem poll_marks_only_sent_witness:
  "published_sent (final (poll 50 9000 (served_shop 5, [NoFault, NoFault, FailAfter])))"
  by (rule poll_marks_only_sent) (rule served_shop_published_sent)

theorem polls_publish_everything_witness:
  "list_all (\<lambda>row. o_status row = OB_PUBLISHED \<and> message_of row \<in> set (c_topic (polls 1 50 9000 (served_shop 5))))
     (d_outbox (c_db (polls 1 50 9000 (served_shop 5))))"
proof (rule polls_publish_everything)
  show "published_sent (served_shop 5)" by (rule served_shop_published_sent)
  show "\<not> c_polling (served_shop 5)" by (simp add: served_shop_def shop_def)
  show "length (pending_rows (c_db (served_shop 5))) \<le> 1 * 50"
    by (simp add: served_shop_def pending_rows_def served_db_def announce_def sql_insert_outbox_def
        add_row_def bump_def take_one_def sql_update_available_def shop_db_def)
qed

theorem poll_sends_oldest_first_witness:
  "\<exists>batch rest. c_topic (final (poll 50 9000 (served_shop 5, []))) = c_topic (served_shop 5) @ map message_of batch \<and>
    length batch \<le> 50 \<and> sorted (map o_createdAt (batch @ rest)) \<and>
    mset (batch @ rest) = mset (pending_rows (c_db (served_shop 5)))"
  by (rule poll_sends_oldest_first) (simp add: served_shop_def shop_def)

end
