(* ===== verification/C_Query.thy ===== *)
theory C_Query imports C_Issue_Facts "HOL-Library.Multiset" begin

text \<open>
  The read side of server-c: the views (\<open>application/views.ts\<close>), the event cache
  (\<open>infrastructure/redis/event-cache.store.ts\<close>), its refresher and the two query services.  A
  view is an API body and, for events, the cached text as well; what comes back from the cache is
  whatever JSON value the text denotes.
\<close>

section \<open>Views\<close>

record event_view =
  vw_eventId :: int
  vw_name :: string
  vw_content :: "string option"
  vw_startedAt :: string
  vw_endedAt :: string
  vw_status :: event_status

definition toEventView :: "event \<Rightarrow> event_view" where
  "toEventView ev = \<lparr>vw_eventId = ev_id ev, vw_name = ev_name ev, vw_content = ev_content ev,
     vw_startedAt = toLocalDateTimeString (ev_startedAt ev),
     vw_endedAt = toLocalDateTimeString (ev_endedAt ev), vw_status = ev_status ev\<rparr>"

text \<open>An absent \<open>content\<close> is not a property of the object.\<close>

definition event_view_json :: "event_view \<Rightarrow> json" where
  "event_view_json v = JObj (
     [(''eventId'', JNum (vw_eventId v)), (''name'', JStr (vw_name v))] @
     (case vw_content v of None \<Rightarrow> [] | Some c \<Rightarrow> [(''content'', JStr c)]) @
     [(''startedAt'', JStr (vw_startedAt v)), (''endedAt'', JStr (vw_endedAt v)),
      (''status'', JStr (event_status_wire (vw_status v)))])"

definition toUserCouponView :: "user_coupon \<Rightarrow> json" where
  "toUserCouponView c = JObj
     [(''userId'', JNum (uc_userId c)), (''eventId'', JNum (uc_eventId c)),
      (''couponTypeId'', JNum (uc_couponTypeId c)), (''code'', JStr (uc_code c)),
      (''status'', JStr (user_coupon_wire (uc_status c))),
      (''issuedAt'', JStr (toLocalDateTimeString (uc_issuedAt c))),
      (''usedAt'', (case toLocalDateTimeStringOrNull (uc_usedAt c) of None \<Rightarrow> JNull | Some t \<Rightarrow> JStr t))]"

definition toUserCouponInternalView :: "user_coupon \<Rightarrow> json" where
  "toUserCouponInternalView c = JObj
     [(''userId'', JNum (uc_userId c)), (''eventId'', JNum (uc_eventId c)),
      (''couponTypeId'', JNum (uc_couponTypeId c)), (''code'', JStr (uc_code c)),
      (''status'', JStr (user_coupon_wire (uc_status c))),
      (''issuedAt'', JStr (toLocalDateTimeString (uc_issuedAt c)))]"

section \<open>The event cache\<close>

definition EventCacheStore_put :: "int \<Rightarrow> event_view \<Rightarrow> (redis, exn, unit) eff" where
  "EventCacheStore_put ttlSeconds v = try_catch
     (redis_set_ex (event_key (vw_eventId v)) (JSON_stringify (event_view_json v)) ttlSeconds)
     (\<lambda>e. ret ())"

definition cached_value :: "string option \<Rightarrow> json option" where
  "cached_value text = (case text of
      None \<Rightarrow> None
    | Some s \<Rightarrow> (case JSON_parse s of None \<Rightarrow> None | Some v \<Rightarrow> if v = JNull then None else Some v))"

definition EventCacheStore_get :: "int \<Rightarrow> (redis, exn, json option) eff" where
  "EventCacheStore_get eventId = try_catch
     (bnd (redis_get (event_key eventId)) (\<lambda>text. ret (cached_value text)))
     (\<lambda>e. ret None)"

definition EventQueryService_findById :: "int \<Rightarrow> int \<Rightarrow> (cstate, exn, json) eff" where
  "EventQueryService_findById ttlSeconds eventId =
     bnd (on_redis (EventCacheStore_get eventId)) (\<lambda>cached. case cached of
       Some v \<Rightarrow> ret v
     | None \<Rightarrow>
         bnd (on_db (event_findById eventId)) (\<lambda>ev. case ev of
           None \<Rightarrow> throw (EventNotFoundError (''event not found: '' @ dec eventId))
         | Some ev \<Rightarrow>
             let v = toEventView ev in
             bnd (on_redis (EventCacheStore_put ttlSeconds v)) (\<lambda>_. ret (event_view_json v))))"

definition refreshActiveEvents :: "int \<Rightarrow> (cstate, exn, unit) eff" where
  "refreshActiveEvents ttlSeconds =
     bnd (gets c_refreshing) (\<lambda>running.
     if running then ret () else
     bnd (modify (\<lambda>c. c\<lparr>c_refreshing := True\<rparr>)) (\<lambda>_.
     bnd (try_catch
       (bnd (on_db (event_findByStatus EV_IN_PROGRESS)) (\<lambda>evs.
          foreach evs (\<lambda>ev. on_redis (EventCacheStore_put ttlSeconds (toEventView ev)))))
       (\<lambda>e. ret ())) (\<lambda>_.
     modify (\<lambda>c. c\<lparr>c_refreshing := False\<rparr>))))"

section \<open>User coupons\<close>

definition UserCouponQueryService_findByUserIdAndCouponTypeId :: "int \<Rightarrow> int \<Rightarrow> (cdb, exn, json option) eff" where
  "UserCouponQueryService_findByUserIdAndCouponTypeId userId couponTypeId =
     bnd (findByUserIdAndCouponTypeId userId couponTypeId) (\<lambda>coupon.
       ret (map_option toUserCouponInternalView coupon))"

definition UserCouponQueryService_findAllByUserId :: "int \<Rightarrow> (cdb, exn, json list) eff" where
  "UserCouponQueryService_findAllByUserId userId =
     bnd (findAllByUserId userId) (\<lambda>coupons. ret (map toUserCouponView coupons))"

section \<open>Laws\<close>

lemma event_view_json_ne [simp]: "event_view_json v \<noteq> JNull"
  by (simp add: event_view_json_def)

lemma wf_event_view_json: "wf_json (event_view_json v)"
  by (simp add: event_view_json_def split: option.split)

lemma cached_value_view: "cached_value (Some (JSON_stringify (event_view_json v))) = Some (event_view_json v)"
  by (simp add: cached_value_def JSON_parse_stringify [OF wf_event_view_json])

lemma event_key_inject [simp]: "event_key a = event_key b \<longleftrightarrow> a = b"
  by (simp add: event_key_def)

lemma keys_disjoint [simp]: "event_key a \<noteq> couponAvailable_key e t" "couponAvailable_key e t \<noteq> event_key a"
  by (simp_all add: event_key_def couponAvailable_key_def)

text \<open>The view of the row a query would read.\<close>

definition view_of_event :: "int \<Rightarrow> cdb \<Rightarrow> event_view option" where
  "view_of_event e db = map_option (\<lambda>row. toEventView (EventMapper_toDomain row))
     (find (\<lambda>row. e_eventId row = dec e) (d_events db))"

text \<open>Every live cache entry is the view of its event.\<close>

definition cache_fresh :: "cstate \<Rightarrow> bool" where
  "cache_fresh c \<longleftrightarrow> (\<forall>e s. live_string (c_redis c) (event_key e) = Some s \<longrightarrow>
     (\<exists>v. view_of_event e (c_db c) = Some v \<and> s = JSON_stringify (event_view_json v)))"

lemma view_of_event_id: "view_of_event e db = Some v \<Longrightarrow> vw_eventId v = e"
  by (auto simp: view_of_event_def toEventView_def EventMapper_toDomain_def find_Some_iff)

lemma put_cases:
  "outcome (EventCacheStore_put ttl v (r, fs)) = Inr ()"
  "final (EventCacheStore_put ttl v (r, fs)) \<in>
     {r, snd (do_set_ex (event_key (vw_eventId v)) (JSON_stringify (event_view_json v)) ttl r)}"
  by (cases rule: external_cases [where e = redis_down and s = r and fs = fs and
        f = "do_set_ex (event_key (vw_eventId v)) (JSON_stringify (event_view_json v)) ttl"];
      simp add: EventCacheStore_put_def redis_set_ex_def try_catch_def do_set_ex_def)+

lemma get_cases:
  "outcome (EventCacheStore_get e (r, fs)) \<in> {Inr None, Inr (cached_value (live_string r (event_key e)))}"
  "final (EventCacheStore_get e (r, fs)) = r"
  "outcome (EventCacheStore_get e (r, [])) = Inr (cached_value (live_string r (event_key e)))"
  "snd (snd (EventCacheStore_get e (r, []))) = []"
  by (cases rule: external_cases [where e = redis_down and s = r and fs = fs and
        f = "\<lambda>r. (live_string r (event_key e), r)"];
      simp add: EventCacheStore_get_def redis_get_def try_catch_def bnd_def)+

lemma cache_fresh_put:
  assumes "cache_fresh c" "view_of_event (vw_eventId v) (c_db c) = Some v" "0 < ttl"
  shows "cache_fresh (c\<lparr>c_redis := final (EventCacheStore_put ttl v (c_redis c, fs))\<rparr>)"
  using put_cases(2) [of ttl v "c_redis c" fs] assms by (auto simp: cache_fresh_def split: if_splits)

text \<open>Every answer, whatever fails: the view of the event, its absence, or the failure of MySQL.\<close>

lemma findById_outcome:
  assumes "cache_fresh c"
  shows "outcome (EventQueryService_findById ttl e (c, fs)) \<in>
    {Inl mysql_down, (case view_of_event e (c_db c) of
        None \<Rightarrow> Inl (EventNotFoundError (''event not found: '' @ dec e))
      | Some v \<Rightarrow> Inr (event_view_json v))}"
proof -
  obtain fs1 where g: "EventCacheStore_get e (c_redis c, fs) =
      (outcome (EventCacheStore_get e (c_redis c, fs)), c_redis c, fs1)"
    using get_cases(2) [of e "c_redis c" fs] by (cases "EventCacheStore_get e (c_redis c, fs)") auto
  have hit: "\<exists>v'. view_of_event e (c_db c) = Some v' \<and> v = event_view_json v'"
    if val: "cached_value (live_string (c_redis c) (event_key e)) = Some v" for v
  proof -
    from val obtain s where s: "live_string (c_redis c) (event_key e) = Some s"
      by (cases "live_string (c_redis c) (event_key e)") (auto simp: cached_value_def)
    with assms obtain v' where "view_of_event e (c_db c) = Some v'" "s = JSON_stringify (event_view_json v')"
      by (auto simp: cache_fresh_def)
    with val s show ?thesis by (simp add: cached_value_view)
  qed
  consider v where "outcome (EventCacheStore_get e (c_redis c, fs)) = Inr (Some v)"
      "cached_value (live_string (c_redis c) (event_key e)) = Some v"
    | "outcome (EventCacheStore_get e (c_redis c, fs)) = Inr None"
    using get_cases(1) [of e "c_redis c" fs]
    by (cases "cached_value (live_string (c_redis c) (event_key e))") auto
  then show ?thesis
  proof cases
    case (1 v)
    with g have "outcome (EventQueryService_findById ttl e (c, fs)) = Inr v"
      by (simp add: EventQueryService_findById_def bnd_def on_redis_apply)
    with hit [OF 1(2)] show ?thesis by auto
  next
    case 2
    have run: "EventQueryService_findById ttl e (c, fs) =
        bnd (on_db (event_findById e)) (\<lambda>ev. case ev of
           None \<Rightarrow> throw (EventNotFoundError (''event not found: '' @ dec e))
         | Some ev \<Rightarrow> bnd (on_redis (EventCacheStore_put ttl (toEventView ev)))
             (\<lambda>_. ret (event_view_json (toEventView ev)))) (c, fs1)"
    proof -
      have "on_redis (EventCacheStore_get e) (c, fs) = (Inr None, c, fs1)"
        using g 2 by (simp add: on_redis_apply)
      then show ?thesis
        unfolding EventQueryService_findById_def by (simp only: bnd_Inr option.case Let_def)
    qed
    show ?thesis
    proof (cases rule: external_cases [where e = mysql_down and s = "c_db c" and fs = fs1 and
          f = "\<lambda>db. (map_option EventMapper_toDomain (find (\<lambda>row. e_eventId row = dec e) (d_events db)), db)"])
      case (ok r)
      then show ?thesis
        using put_cases(1) [of ttl _ "c_redis c" r]
        by (cases "find (\<lambda>row. e_eventId row = dec e) (d_events (c_db c))")
          (simp_all add: run bnd_def on_db_apply on_redis_apply event_findById_def view_of_event_def)
    next
      case (before r)
      then show ?thesis by (simp add: run bnd_def on_db_apply event_findById_def)
    next
      case (after r)
      then show ?thesis by (simp add: run bnd_def on_db_apply event_findById_def)
    qed
  qed
qed

section \<open>Keeping the cache fresh\<close>

lemma keeps_fresh_store:
  assumes "\<And>r fs. final (m (r, fs)) = r \<or> (\<exists>v fs'. final (m (r, fs)) = final (EventCacheStore_put ttl v (r, fs')) \<and>
      view_of_event (vw_eventId v) (c_db c) = Some v)"
    and "cache_fresh c" "0 < ttl"
  shows "cache_fresh (final (on_redis m (c, fs)))"
  using assms(1) [of "c_redis c" fs] cache_fresh_put [OF assms(2) _ assms(3)] assms(2)
  by (auto simp: on_redis_apply)

lemma event_reads [simp]:
  "final (on_db (event_findById e) (c, fs)) = c" "final (on_db (event_findByStatus st) (c, fs)) = c"
  by (cases fs; cases "hd fs"; simp add: on_db_apply event_findById_def event_findByStatus_def external_def)+

text \<open>The rows of the event table have unique, canonical keys.\<close>

definition event_keys_ok :: "cdb \<Rightarrow> bool" where
  "event_keys_ok db \<longleftrightarrow> distinct (map e_eventId (d_events db)) \<and>
     (\<forall>row \<in> set (d_events db). canonical (e_eventId row))"

lemma view_of_row:
  assumes "event_keys_ok db" "row \<in> set (d_events db)"
  shows "view_of_event (ev_id (EventMapper_toDomain row)) db = Some (toEventView (EventMapper_toDomain row))"
proof -
  have "dec (ev_id (EventMapper_toDomain row)) = e_eventId row"
    using assms by (auto simp: EventMapper_toDomain_def event_keys_ok_def canonical_def)
  moreover have "find (\<lambda>r. e_eventId r = e_eventId row) (d_events db) = Some row"
    using assms by (auto simp: event_keys_ok_def find_Some_iff distinct_map inj_on_def in_set_conv_nth)
      (metis nth_mem less_trans nat_neq_iff nth_eq_iff_index_eq)
  ultimately show ?thesis by (simp add: view_of_event_def)
qed

lemma foreach_put:
  assumes "\<And>ev. ev \<in> set evs \<Longrightarrow> view_of_event (ev_id ev) (c_db c) = Some (toEventView ev)" "cache_fresh c" "0 < ttl"
  shows "cache_fresh (final (foreach evs (\<lambda>ev. on_redis (EventCacheStore_put ttl (toEventView ev))) (c, fs))) \<and>
    c_db (final (foreach evs (\<lambda>ev. on_redis (EventCacheStore_put ttl (toEventView ev))) (c, fs))) = c_db c"
  using assms
proof (induction evs arbitrary: c fs)
  case (Cons ev evs)
  let ?r = "final (EventCacheStore_put ttl (toEventView ev) (c_redis c, fs))"
  obtain gs where p: "on_redis (EventCacheStore_put ttl (toEventView ev)) (c, fs) = (Inr (), c\<lparr>c_redis := ?r\<rparr>, gs)"
    using put_cases(1) [of ttl "toEventView ev" "c_redis c" fs] by (simp add: on_redis_apply)
  have "vw_eventId (toEventView ev) = ev_id ev" by (simp add: toEventView_def)
  with Cons.prems have "cache_fresh (c\<lparr>c_redis := ?r\<rparr>)" by (intro cache_fresh_put) simp_all
  with Cons.IH [of "c\<lparr>c_redis := ?r\<rparr>" gs] Cons.prems p show ?case by (simp add: bnd_def)
qed simp

lemma foreach_put_nil:
  assumes "0 < ttl"
  shows "\<exists>c'. foreach evs (\<lambda>ev. on_redis (EventCacheStore_put ttl (toEventView ev))) (c, []) = (Inr (), c', []) \<and>
    (\<forall>k. k \<notin> (\<lambda>ev. event_key (ev_id ev)) ` set evs \<longrightarrow> live_string (c_redis c') k = live_string (c_redis c) k) \<and>
    (\<forall>ev \<in> set evs. (\<forall>ev' \<in> set evs. ev_id ev' = ev_id ev \<longrightarrow> ev' = ev) \<longrightarrow>
       live_string (c_redis c') (event_key (ev_id ev)) = Some (JSON_stringify (event_view_json (toEventView ev))))"
proof (induction evs arbitrary: c)
  case (Cons ev evs)
  let ?c1 = "c\<lparr>c_redis := snd (do_set_ex (event_key (ev_id ev))
    (JSON_stringify (event_view_json (toEventView ev))) ttl (c_redis c))\<rparr>"
  have p: "on_redis (EventCacheStore_put ttl (toEventView ev)) (c, []) = (Inr (), ?c1, [])"
    by (simp add: on_redis_apply EventCacheStore_put_def redis_set_ex_def try_catch_def toEventView_def do_set_ex_def)
  obtain c' where c': "foreach evs (\<lambda>ev. on_redis (EventCacheStore_put ttl (toEventView ev))) (?c1, []) = (Inr (), c', [])"
      "\<forall>k. k \<notin> (\<lambda>ev. event_key (ev_id ev)) ` set evs \<longrightarrow> live_string (c_redis c') k = live_string (c_redis ?c1) k"
      "\<forall>ev \<in> set evs. (\<forall>ev' \<in> set evs. ev_id ev' = ev_id ev \<longrightarrow> ev' = ev) \<longrightarrow>
         live_string (c_redis c') (event_key (ev_id ev)) = Some (JSON_stringify (event_view_json (toEventView ev)))"
    using Cons.IH [of ?c1] by (elim exE conjE) (rule that)
  have run: "foreach (ev # evs) (\<lambda>ev. on_redis (EventCacheStore_put ttl (toEventView ev))) (c, []) = (Inr (), c', [])"
    using p c'(1) by (simp add: bnd_def)
  have other: "live_string (c_redis c') k = live_string (c_redis c) k"
    if "k \<notin> (\<lambda>ev. event_key (ev_id ev)) ` set (ev # evs)" for k
    using c'(2) that assms by simp
  have "live_string (c_redis c') (event_key (ev_id e)) = Some (JSON_stringify (event_view_json (toEventView e)))"
    if e: "e \<in> set (ev # evs)" "\<forall>ev' \<in> set (ev # evs). ev_id ev' = ev_id e \<longrightarrow> ev' = e" for e
  proof (cases "e \<in> set evs")
    case True
    with e(2) c'(3) show ?thesis by simp
  next
    case False
    with e have "e = ev" "event_key (ev_id e) \<notin> (\<lambda>ev. event_key (ev_id ev)) ` set evs" by auto
    then show ?thesis using c'(2) assms by simp
  qed
  with run other show ?case by blast
qed simp

section \<open>Properties\<close>


lemma shop_cache_fresh: "cache_fresh (shop n)"
  by (simp add: cache_fresh_def shop_def empty_redis_def live_string_def)


text \<open>A refresh cannot fail, releases its guard and never makes the cache stale; without faults
  every event IN_PROGRESS is cached with its current view afterwards.\<close>

lemma refresh_active_events:
  assumes "cache_fresh c" "event_keys_ok (c_db c)" "0 < ttlSeconds" "\<not> c_refreshing c"
  shows "outcome (refreshActiveEvents ttlSeconds (c, fs)) = Inr () \<and>
    \<not> c_refreshing (final (refreshActiveEvents ttlSeconds (c, fs))) \<and>
    cache_fresh (final (refreshActiveEvents ttlSeconds (c, fs))) \<and>
    (\<forall>row \<in> set (d_events (c_db c)). e_status row = EV_IN_PROGRESS \<longrightarrow>
      live_string (c_redis (final (refreshActiveEvents ttlSeconds (c, [])))) (event_key (js_Number (e_eventId row))) =
        Some (JSON_stringify (event_view_json (toEventView (EventMapper_toDomain row)))))"
proof -
  let ?c = "c\<lparr>c_refreshing := True\<rparr>"
  let ?rows = "filter (\<lambda>row. e_status row = EV_IN_PROGRESS) (d_events (c_db c))"
  let ?evs = "map EventMapper_toDomain ?rows"
  let ?loop = "foreach ?evs (\<lambda>ev. on_redis (EventCacheStore_put ttlSeconds (toEventView ev)))"
  let ?body = "bnd (on_db (event_findByStatus EV_IN_PROGRESS)) (\<lambda>evs.
      foreach evs (\<lambda>ev. on_redis (EventCacheStore_put ttlSeconds (toEventView ev))))"
  have flag: "cache_fresh (x\<lparr>c_refreshing := b\<rparr>) \<longleftrightarrow> cache_fresh x" for x b by (simp add: cache_fresh_def)
  have views: "view_of_event (ev_id ev) (c_db ?c) = Some (toEventView ev)" if "ev \<in> set ?evs" for ev
    using that view_of_row [OF assms(2)] by auto
  have ids: "ev' = ev" if ev: "ev \<in> set ?evs" "ev' \<in> set ?evs" "ev_id ev' = ev_id ev" for ev ev'
  proof -
    from ev obtain r r' where r: "r \<in> set (d_events (c_db c))" "ev = EventMapper_toDomain r"
        "r' \<in> set (d_events (c_db c))" "ev' = EventMapper_toDomain r'" by auto
    with ev(3) assms(2) have "e_eventId r' = e_eventId r"
      by (auto simp: EventMapper_toDomain_def event_keys_ok_def canonical_def) metis
    with r assms(2) show ?thesis by (auto simp: event_keys_ok_def distinct_map inj_on_def)
  qed
  have body: "cache_fresh (final (?body (?c, fs)))"
  proof (cases rule: external_cases [where e = mysql_down and s = "c_db c" and fs = fs and
        f = "\<lambda>db. (map EventMapper_toDomain (filter (\<lambda>row. e_status row = EV_IN_PROGRESS) (d_events db)), db)"])
    case (ok r)
    then have "?body (?c, fs) = ?loop (?c, r)"
      by (simp add: bnd_def on_db_apply event_findByStatus_def)
    with foreach_put [OF views _ assms(3), of ?evs r] assms(1) show ?thesis by (simp add: flag)
  qed (use assms(1) in \<open>simp_all add: bnd_def on_db_apply event_findByStatus_def flag\<close>)
  have nofault: "?body (?c, []) = ?loop (?c, [])"
    by (simp add: bnd_def on_db_apply event_findByStatus_def)
  obtain c' where c': "?loop (?c, []) = (Inr (), c', [])"
      "\<And>ev. ev \<in> set ?evs \<Longrightarrow> live_string (c_redis c') (event_key (ev_id ev)) =
        Some (JSON_stringify (event_view_json (toEventView ev)))"
    using foreach_put_nil [OF assms(3), of ?evs ?c] ids by blast
  have run: "refreshActiveEvents ttlSeconds (c, gs) =
      (Inr (), (final (?body (?c, gs)))\<lparr>c_refreshing := False\<rparr>, snd (snd (?body (?c, gs))))" for gs
    using assms(4)
    by (cases "?body (?c, gs)"; cases "fst (?body (?c, gs))")
      (simp_all add: refreshActiveEvents_def bnd_Inr try_catch_def)
  have cached: "live_string (c_redis c') (event_key (js_Number (e_eventId row))) =
      Some (JSON_stringify (event_view_json (toEventView (EventMapper_toDomain row))))"
    if "row \<in> set (d_events (c_db c))" "e_status row = EV_IN_PROGRESS" for row
    using c'(2) [of "EventMapper_toDomain row"] that by (simp add: EventMapper_toDomain_def)
  show ?thesis
    using body cached by (simp add: run nofault c'(1) flag)
qed

theorem refresh_active_events_witness:
  "live_string (c_redis (final (refreshActiveEvents 300 (shop 5, [])))) (event_key 7) =
     Some (JSON_stringify (event_view_json (toEventView (EventMapper_toDomain shop_event))))"
proof -
  have "event_keys_ok (c_db (shop 5))" "\<not> c_refreshing (shop 5)" "d_events (c_db (shop 5)) = [shop_event]"
    by (simp_all add: event_keys_ok_def shop_def shop_db_def shop_event_def)
  with refresh_active_events [OF shop_cache_fresh, of 5 300 "[]"] show ?thesis
    by (simp add: shop_event_def)
qed

text \<open>The list of a user's coupons holds exactly the views of that user's rows, latest issue
  first.\<close>

lemma user_coupon_list:
  "\<exists>rows. outcome (UserCouponQueryService_findAllByUserId userId (db, [])) =
      Inr (map (\<lambda>row. toUserCouponView (UserCouponMapper_toDomain row)) rows) \<and>
    mset rows = mset (filter (\<lambda>row. u_userId row = dec userId) (d_user_coupons db)) \<and>
    sorted (map (\<lambda>row. - u_issuedAt row) rows)"
  by (intro exI [of _ "sort_key (\<lambda>row. - u_issuedAt row)
      (filter (\<lambda>row. u_userId row = dec userId) (d_user_coupons db))"])
    (simp add: UserCouponQueryService_findAllByUserId_def findAllByUserId_def)

end
