(* ===== verification/C_System.thy ===== *)
theory C_System imports C_Consumer C_Redeem C_Outbox C_Query begin

text \<open>
  server-c as a whole: its entry points (a delivered record, a redeem request, a poller tick, a
  cache refresh, an event query, a restart of the process, the passing of time) as the steps of one transition relation, each under any
  faults, and what holds in every state they can reach from a freshly opened shop.
\<close>

inductive c_step :: "(string \<Rightarrow> string) \<Rightarrow> cstate \<Rightarrow> cstate \<Rightarrow> bool" for ck :: "string \<Rightarrow> string" where
  deliver_record: "c_step ck c (final (request_deliver ck ttl maxDeliveryAttempts clock rnd val (c, fs)))"
| redeem_call: "c_step ck c (final (on_db (redeem ck now command) (c, fs)))"
| poll_tick: "c_step ck c (final (poll batchSize now (c, fs)))"
| refresh_tick: "c_step ck c (final (refreshActiveEvents ttl (c, fs)))"
| restarts: "c_step ck c (final (c_restart (c, fs)))"
| event_query: "c_step ck c (final (EventQueryService_findById ttl eventId (c, fs)))"
| clock_moves: "c_step ck c (c\<lparr>c_db := (c_db c)\<lparr>d_now := t\<rparr>, c_redis := (c_redis c)\<lparr>r_now := t'\<rparr>\<rparr>)"

inductive_cases c_stepE: "c_step ck c c'"

text \<open>A shop that has just opened: stock, no results.\<close>

definition opened :: "cstate \<Rightarrow> bool" where
  "opened c \<longleftrightarrow> d_user_coupons (c_db c) = [] \<and> d_outbox (c_db c) = [] \<and> inventory_keys_ok (c_db c) \<and>
     (\<forall>i \<in> set (d_inventories (c_db c)). 0 \<le> i_totalInventory i \<and> i_availableCount i = i_totalInventory i)"

definition c_reachable :: "(string \<Rightarrow> string) \<Rightarrow> cstate \<Rightarrow> cstate \<Rightarrow> bool" where
  "c_reachable ck c0 c \<longleftrightarrow> opened c0 \<and> (c_step ck)\<^sup>*\<^sup>* c0 c"

section \<open>The invariant of server-c\<close>

definition c_ok :: "(string \<Rightarrow> string) \<Rightarrow> cstate \<Rightarrow> bool" where
  "c_ok ck c \<longleftrightarrow> db_ok ck (c_db c) \<and> published_sent c"

lemma opened_ok: "opened c \<Longrightarrow> c_ok ck c"
  by (auto simp: opened_def c_ok_def db_ok_defs published_sent_def inventory_keys_ok_def)

lemma keeps_conj: "keeps_inv I m \<Longrightarrow> keeps_inv J m \<Longrightarrow> keeps_inv (\<lambda>s. I s \<and> J s) m"
  by (simp add: keeps_inv_def)

text \<open>The outbox of the issue transaction only gains PENDING rows, and no other operation than
  the poller touches the outbox or the topic.\<close>

lemma outbox_of_spec:
  assumes "issue_spec ck now rnd request db = (Inr x, db')"
  shows "\<exists>new. d_outbox db' = d_outbox db @ new \<and> (\<forall>o' \<in> set new. o_status o' = OB_PENDING)"
proof (cases "has_row (rq_userId request) (rq_couponTypeId request) db")
  case True
  with assms show ?thesis by (simp add: issue_spec_def)
next
  case False
  with assms obtain status code check db1 where r: "record_result ck request status code now check db1 = (Inr x, db')"
      "d_outbox db1 = d_outbox db"
    by (auto simp: issue_spec_def take_one_def sql_update_available_def split: option.splits if_splits)
  from record_result_Inr(2) [OF r(1)] r(2) show ?thesis
    by (simp add: announce_def sql_insert_outbox_def add_row_def bump_def)
qed

lemma process_topic: "c_topic (final (process ck ttl now rnd request (c, fs))) = c_topic c"
proof -
  obtain o' db' r where t: "runIssueTransaction ck now rnd request (c_db c, fs) = (o', db', r)"
    by (cases "runIssueTransaction ck now rnd request (c_db c, fs)")
  show ?thesis
    using markSoldOutIfDepleted_cases [of ttl "rq_eventId request" "rq_couponTypeId request" "c\<lparr>c_db := db'\<rparr>" r]
    unfolding process_run [OF t] by (cases o') auto
qed

lemma keeps_process_published:
  "keeps_inv (\<lambda>c. c_ok ck c) (process ck ttl now rnd request)"
proof (rule keeps_invI)
  fix c fs assume ok: "c_ok ck c"
  let ?c = "final (process ck ttl now rnd request (c, fs))"
  obtain o' db' r where t: "runIssueTransaction ck now rnd request (c_db c, fs) = (o', db', r)"
    by (cases "runIssueTransaction ck now rnd request (c_db c, fs)")
  have db': "c_db ?c = db'" by (rule process_cases(1) [OF t])
  have dbok: "db_ok ck (c_db ?c)"
    by (rule keeps_invD [OF keeps_process]) (use ok in \<open>simp add: c_ok_def\<close>)
  have "\<exists>new. d_outbox db' = d_outbox (c_db c) @ new \<and> (\<forall>o' \<in> set new. o_status o' = OB_PENDING)"
    using issue_transaction_refines [of ck now rnd request "c_db c" fs, unfolded t committed_or_untouched_def]
      outbox_of_spec [of ck now rnd request "c_db c" _ db']
    by (auto simp: same_tables_def split: sum.splits)
  with ok dbok show "c_ok ck ?c"
    by (auto simp: c_ok_def published_sent_def db' process_topic db_ok_def)
qed

interpretation requests_c: record_handler parse_request "process_attempt ck ttl clock rnd" "c_ok ck"
  for ck ttl clock rnd
  by unfold_locales (simp add: process_attempt_def keeps_process_published)

lemma redeem_outbox: "d_outbox (final (redeem ck now command (db, fs))) = d_outbox db"
proof -
  have "keeps_inv (\<lambda>d. d_outbox d = d_outbox db) (redeem_body ck now command)"
    unfolding redeem_body_def redeem_update_def findByCode_def markUsed_def
    by (intro keeps; simp add: sql_mark_used_def)
  then have "d_outbox (final (redeem_body ck now command (db, gs))) = d_outbox db" for gs
    by (rule keeps_invD) simp
  then have m: "redeem_body ck now command (db, gs) = (q, db', r) \<Longrightarrow> d_outbox db' = d_outbox db" for gs q db' r
    by (metis fst_conv snd_conv)
  show ?thesis
    unfolding redeem_def
    by (cases rule: transaction_cases [where m = "redeem_body ck now command" and db = db and fs = fs])
      (auto dest: m)
qed

lemma redeem_c_ok: "c_ok ck c \<Longrightarrow> c_ok ck (final (on_db (redeem ck now command) (c, fs)))"
  using keeps_invD [OF keeps_redeem, of ck "c_db c" now command fs] redeem_outbox [of ck now command "c_db c" fs]
  by (simp add: c_ok_def published_sent_def on_db_apply db_ok_def)

lemma mark_db_ok:
  assumes "db_ok ck db"
  shows "db_ok ck (snd (sql_mark_published ids now db))"
proof -
  have "announces (mark_row ids now o') r \<longleftrightarrow> announces o' r" for o' r by (simp add: announces_def)
  with assms show ?thesis
    by (simp add: db_ok_def inventory_keys_ok_def stock_ok_def one_per_user_def codes_unique_def
        coupon_ids_ok_def outbox_ids_ok_def all_announced_def issued_count_def d_outbox_mark comp_def)
qed

lemma keeps_poll_db_ok: "keeps_inv (\<lambda>c. db_ok ck (c_db c)) (poll n now)"
proof -
  have pub: "keeps_inv (\<lambda>c. db_ok ck (c_db c)) (IssueResultPublisher_publish k v)" for k v
    unfolding IssueResultPublisher_publish_def by (intro keeps_bnd keeps_gets keeps_if keeps_external keeps_modify keeps_ret) simp_all
  have each: "keeps_inv (\<lambda>c. db_ok ck (c_db c)) (publish_each evs ids)" for evs ids
    by (induction evs arbitrary: ids) (auto intro!: keeps_bnd keeps_try keeps_ret pub)
  have "keeps_inv (db_ok ck) (markPublished ids now)" for ids
    unfolding markPublished_def by (intro keeps_if keeps_ret keeps_external mark_db_ok)
  then show ?thesis
    unfolding poll_def publishPending_def findPending_def
    by (intro keeps_bnd keeps_gets keeps_if keeps_ret keeps_modify keeps_try each keeps_on_db keeps_external) simp_all
qed

text \<open>The read side leaves the database and the topic alone.\<close>

definition same_db :: "cstate \<Rightarrow> cstate \<Rightarrow> bool" where
  "same_db c c' \<longleftrightarrow> c_db c' = c_db c \<and> c_topic c' = c_topic c"

lemma keeps_on_redis_db: "keeps_inv (same_db c) (on_redis m)"
  unfolding on_redis_def by (rule keeps_zoom [where J = "\<lambda>_. True"]) (simp_all add: keeps_inv_def same_db_def)

lemma keeps_on_db_read:
  "(\<And>d. snd (f d) = d) \<Longrightarrow> keeps_inv (same_db c) (on_db (external e f))"
  unfolding on_db_def
  by (rule keeps_zoom [where J = "\<lambda>d. d = c_db c"]) (auto intro!: keeps_external simp: same_db_def)

lemma reads_same_db:
  "same_db c (final (refreshActiveEvents ttl (c, fs)))"
  "same_db c (final (EventQueryService_findById ttl eventId (c, fs)))"
proof -
  have "keeps_inv (same_db c) (refreshActiveEvents ttl)"
    unfolding refreshActiveEvents_def event_findByStatus_def
    by (intro keeps_bnd keeps_gets keeps_if keeps_ret keeps_modify keeps_try keeps_foreach keeps_on_redis_db
        keeps_on_db_read) (simp_all add: same_db_def)
  then show "same_db c (final (refreshActiveEvents ttl (c, fs)))"
    by (rule keeps_invD) (simp add: same_db_def)
  have "keeps_inv (same_db c) (EventQueryService_findById ttl eventId)"
    unfolding EventQueryService_findById_def event_findById_def Let_def
    by (intro keeps_bnd keeps_option keeps_ret keeps_throw keeps_on_redis_db keeps_on_db_read) simp
  then show "same_db c (final (EventQueryService_findById ttl eventId (c, fs)))"
    by (rule keeps_invD) (simp add: same_db_def)
qed

lemma c_step_ok: "c_step ck c c' \<Longrightarrow> c_ok ck c \<Longrightarrow> c_ok ck c'"
proof (induction rule: c_step.induct)
  case (deliver_record c ttl n clock rnd val fs)
  then show ?case
    unfolding request_deliver_def by (rule keeps_invD [OF requests_c.deliver_keeps])
next
  case (redeem_call c now command fs)
  then show ?case by (rule redeem_c_ok)
next
  case (poll_tick c n now fs)
  then show ?case
    using keeps_invD [OF keeps_poll_db_ok, of ck c n now fs] keeps_invD [OF keeps_poll_published_sent, of c n now fs]
    by (simp add: c_ok_def)
next
  case (refresh_tick c ttl fs)
  then show ?case using reads_same_db(1) [of c ttl fs] by (simp add: c_ok_def same_db_def published_sent_def)
next
  case (restarts c fs)
  obtain x where "final (c_restart (c, fs)) = c\<lparr>c_polling := False, c_refreshing := False, c_connected := x\<rparr>"
    using c_restart_cases(1) by blast
  with restarts show ?case by (simp add: c_ok_def published_sent_def)
next
  case (event_query c ttl eventId fs)
  then show ?case using reads_same_db(2) [of c ttl eventId fs] by (simp add: c_ok_def same_db_def published_sent_def)
next
  case (clock_moves c t t')
  then show ?case by (simp add: c_ok_def db_ok_defs published_sent_def)
qed

lemma c_reachable_ok:
  assumes "c_reachable ck c0 c"
  shows "c_ok ck c"
proof -
  from assms have "(c_step ck)\<^sup>*\<^sup>* c0 c" "opened c0" by (simp_all add: c_reachable_def)
  then show ?thesis by (induction rule: rtranclp_induct) (auto intro: opened_ok c_step_ok)
qed

section \<open>Properties\<close>

text \<open>C1. No oversell: in every state server-c can reach, under any faults and redeliveries, no
  inventory is negative and the coupons available and the coupons issued add up to the total.\<close>

theorem no_oversell:
  assumes "c_reachable ck c0 c" "i \<in> set (d_inventories (c_db c))"
  shows "0 \<le> i_availableCount i \<and>
    i_availableCount i + int (issued_count (i_eventId i) (i_couponTypeId i) (c_db c)) = i_totalInventory i"
  using c_reachable_ok [OF assms(1)] assms(2) by (auto simp: c_ok_def db_ok_def stock_ok_def)

text \<open>C2. One coupon per user: no reachable state has two result rows for the same user and coupon
  type, nor two rows with the same code.\<close>

theorem one_coupon_per_user:
  assumes "c_reachable ck c0 c" "r \<in> set (d_user_coupons (c_db c))" "r' \<in> set (d_user_coupons (c_db c))"
    and "u_userId r = u_userId r' \<and> u_couponTypeId r = u_couponTypeId r' \<or> ck (u_code r) = ck (u_code r')"
  shows "r = r'"
  using c_reachable_ok [OF assms(1)] assms(2-4)
  by (auto simp: c_ok_def db_ok_def one_per_user_def codes_unique_def distinct_map inj_on_def)


text \<open>Witnesses: the shop with five coupons after user 11 has been served.\<close>

definition served_run :: cstate where
  "served_run = final (request_deliver id 86400 10 (\<lambda>_. 6000) (\<lambda>_ _. 0) (Some request_text) (shop 5, []))"

lemma served_run_reachable: "c_reachable id (shop 5) served_run"
proof -
  have "opened (shop 5)"
    using shop_db_ok [of 5 id] by (simp add: opened_def shop_def db_ok_def) (simp add: shop_db_def shop_stock_def)
  moreover have "c_step id (shop 5) served_run"
    unfolding served_run_def by (rule c_step.deliver_record)
  ultimately show ?thesis by (auto simp: c_reachable_def)
qed

lemma served_run_tables:
  "d_inventories (c_db served_run) = [(shop_stock 5)\<lparr>i_availableCount := 4\<rparr>]"
  "d_user_coupons (c_db served_run) = [with_key (dec 1) (UserCouponMapper_toInsertValues
     (UserCoupon_issue (CouponCode_generate (\<lambda>_. 0)) 11 7 3 UC_SUCCESS 6000))]"
proof -
  let ?run = "process id 86400 6000 (\<lambda>_. 0) (request_of_user 11) (shop 5, [])"
  have keys: "inventory_keys_ok (c_db (shop 5))" using shop_db_ok [of 5 id] by (simp add: shop_def db_ok_def)
  have p: "outcome ?run = Inr () \<and> d_user_coupons (c_db (final ?run)) = [with_key (dec 1)
        (UserCouponMapper_toInsertValues (UserCoupon_issue (CouponCode_generate (\<lambda>_. 0)) 11 7 3 UC_SUCCESS 6000))] \<and>
      d_inventories (c_db (final ?run)) = [(shop_stock 5)\<lparr>i_availableCount := 4\<rparr>]"
    using keys issue_effect [of "shop 5" "request_of_user 11" id "\<lambda>_. 0" shop_event 6000 "shop_stock 5" 86400]
    by (simp add: shop_def shop_db_def shop_event_def shop_stock_def request_of_user_def has_row_def
        code_taken_def known_type_def select_inventory_def)
  then obtain c' r where run: "?run = (Inr (), c', r)" by (cases ?run) auto
  have "served_run = c'"
    using run parse_request_text
    by (simp add: served_run_def request_deliver_def deliver_def process_attempt_def try_catch_def numeral_eq_Suc)
  with p run show "d_inventories (c_db served_run) = [(shop_stock 5)\<lparr>i_availableCount := 4\<rparr>]"
    "d_user_coupons (c_db served_run) = [with_key (dec 1) (UserCouponMapper_toInsertValues
       (UserCoupon_issue (CouponCode_generate (\<lambda>_. 0)) 11 7 3 UC_SUCCESS 6000))]"
    by simp_all
qed

theorem no_oversell_witness:
  "(4::int) + int (issued_count (dec 7) (dec 3) (c_db served_run)) = 5"
  using no_oversell [OF served_run_reachable, of "(shop_stock 5)\<lparr>i_availableCount := 4\<rparr>"]
  by (simp add: served_run_tables shop_stock_def)

theorem one_coupon_per_user_witness:
  "with_key (dec 1) (UserCouponMapper_toInsertValues (UserCoupon_issue (CouponCode_generate (\<lambda>_. 0)) 11 7 3
     UC_SUCCESS 6000)) = hd (d_user_coupons (c_db served_run))"
  by (rule one_coupon_per_user [OF served_run_reachable]) (simp_all add: served_run_tables)


end
