(* ===== verification/C_Truth.thy ===== *)
theory C_Truth imports C_System begin

text \<open>
  What server-c lets the others see is true.  \<open>evolves\<close> is what any operation may do to the
  database: result rows stay, a row may turn from SUCCESS to USED, a new row belongs to the request
  that is being processed, and what is sold out stays sold out.  With it, three invariants: every
  outbox row tells a result row and every issued code is well formed, every message on the topic is an outbox row, and every entry of the
  sold-out cache names an inventory that is empty.
\<close>

section \<open>How the database evolves\<close>

definition became :: "user_coupon_row \<Rightarrow> user_coupon_row \<Rightarrow> bool" where
  "became r r' \<longleftrightarrow> u_userCouponId r' = u_userCouponId r \<and> u_code r' = u_code r \<and> u_userId r' = u_userId r \<and>
     u_eventId r' = u_eventId r \<and> u_couponTypeId r' = u_couponTypeId r \<and>
     (u_status r' = u_status r \<or> u_status r = UC_SUCCESS \<and> u_status r' = UC_USED)"

definition asked_by :: "issue_request \<Rightarrow> user_coupon_row \<Rightarrow> bool" where
  "asked_by p r \<longleftrightarrow> u_userId r = dec (rq_userId p) \<and> u_eventId r = dec (rq_eventId p) \<and>
     u_couponTypeId r = dec (rq_couponTypeId p)"

definition evolves :: "(issue_request \<Rightarrow> bool) \<Rightarrow> cdb \<Rightarrow> cdb \<Rightarrow> bool" where
  "evolves P d d' \<longleftrightarrow>
     (\<forall>r \<in> set (d_user_coupons d). \<exists>r' \<in> set (d_user_coupons d'). became r r') \<and>
     (\<forall>r' \<in> set (d_user_coupons d'). (\<exists>r \<in> set (d_user_coupons d). became r r') \<or> (\<exists>p. P p \<and> asked_by p r')) \<and>
     message_of ` set (d_outbox d) \<subseteq> message_of ` set (d_outbox d') \<and>
     (\<forall>e t. sold_out_in e t d \<longrightarrow> sold_out_in e t d')"

definition coded :: "user_coupon_row \<Rightarrow> bool" where
  "coded r \<longleftrightarrow> u_status r \<in> {UC_SUCCESS, UC_USED} \<longrightarrow> CouponCode_of (Some (u_code r)) = Inr (u_code r)"

definition told :: "cdb \<Rightarrow> bool" where
  "told d \<longleftrightarrow> (\<forall>o' \<in> set (d_outbox d). \<exists>r \<in> set (d_user_coupons d). announces o' r) \<and>
     (\<forall>r \<in> set (d_user_coupons d). coded r)"

lemma became_refl [simp]: "became r r"
  by (simp add: became_def)

lemma became_trans: "became r s \<Longrightarrow> became s t \<Longrightarrow> became r t"
  by (auto simp: became_def)

lemma asked_by_became: "asked_by p r \<Longrightarrow> became r r' \<Longrightarrow> asked_by p r'"
  by (simp add: asked_by_def became_def)

lemma announces_became: "announces o' r \<Longrightarrow> became r r' \<Longrightarrow> announces o' r'"
  unfolding announces_def became_def by auto

lemma coded_became: "coded r \<Longrightarrow> became r r' \<Longrightarrow> coded r'"
  by (auto simp: coded_def became_def)

lemma evolves_refl [simp]: "evolves P d d"
  by (auto simp: evolves_def intro: became_refl)

lemma evolvesD:
  assumes "evolves P d d'"
  shows "r \<in> set (d_user_coupons d) \<Longrightarrow> \<exists>r' \<in> set (d_user_coupons d'). became r r'"
    "r' \<in> set (d_user_coupons d') \<Longrightarrow> (\<exists>r \<in> set (d_user_coupons d). became r r') \<or> (\<exists>p. P p \<and> asked_by p r')"
    "message_of ` set (d_outbox d) \<subseteq> message_of ` set (d_outbox d')"
    "sold_out_in e t d \<Longrightarrow> sold_out_in e t d'"
  using assms by (simp_all add: evolves_def)

lemma evolves_new:
  assumes "evolves P d d'" "r' \<in> set (d_user_coupons d')"
  obtains (old) r where "r \<in> set (d_user_coupons d)" "became r r'" | (asked) p where "P p" "asked_by p r'"
  using evolvesD(2) [OF assms] by blast

lemma evolves_trans:
  assumes "evolves P d d1" "evolves P d1 d2"
  shows "evolves P d d2"
  unfolding evolves_def
proof (intro conjI ballI allI impI)
  fix r assume "r \<in> set (d_user_coupons d)"
  from evolvesD(1) [OF assms(1) this] obtain r1 where r1: "r1 \<in> set (d_user_coupons d1)" "became r r1" by blast
  from evolvesD(1) [OF assms(2) r1(1)] r1(2) show "\<exists>r' \<in> set (d_user_coupons d2). became r r'"
    using became_trans by blast
next
  fix r' assume r': "r' \<in> set (d_user_coupons d2)"
  from assms(2) r' show "(\<exists>r \<in> set (d_user_coupons d). became r r') \<or> (\<exists>p. P p \<and> asked_by p r')"
  proof (cases rule: evolves_new)
    case (old r1)
    from assms(1) old(1) show ?thesis
      by (cases rule: evolves_new) (use old(2) became_trans asked_by_became in blast)+
  qed blast
next
  show "message_of ` set (d_outbox d) \<subseteq> message_of ` set (d_outbox d2)"
    by (rule subset_trans [OF evolvesD(3) [OF assms(1)] evolvesD(3) [OF assms(2)]])
next
  fix e t assume "sold_out_in e t d"
  then show "sold_out_in e t d2" by (intro evolvesD(4) [OF assms(2)] evolvesD(4) [OF assms(1)])
qed

lemma evolves_mono:
  assumes "evolves P d d'" "\<And>p. P p \<Longrightarrow> Q p"
  shows "evolves Q d d'"
  unfolding evolves_def
proof (intro conjI ballI allI impI)
  fix r' assume "r' \<in> set (d_user_coupons d')"
  with assms(1) show "(\<exists>r \<in> set (d_user_coupons d). became r r') \<or> (\<exists>p. Q p \<and> asked_by p r')"
    by (cases rule: evolves_new) (use assms(2) in blast)+
qed (use evolvesD [OF assms(1)] in blast)+

lemma evolves_tables:
  "d_user_coupons d' = d_user_coupons d \<Longrightarrow> d_outbox d' = d_outbox d \<Longrightarrow> d_inventories d' = d_inventories d \<Longrightarrow>
   evolves P d d'"
  by (auto simp: evolves_def sold_out_in_def select_inventory_def intro: became_refl)

lemma evolves_same_tables: "same_tables d d' \<Longrightarrow> evolves P d d'"
  by (simp add: same_tables_def evolves_tables)

lemma told_same_tables: "same_tables d d' \<Longrightarrow> told d' = told d"
  by (simp add: told_def same_tables_def)

section \<open>The statements\<close>

lemma announce_tables [simp]:
  "d_user_coupons (announce p d) = d_user_coupons d" "d_inventories (announce p d) = d_inventories d"
  "message_of ` set (d_outbox (announce p d)) = insert (rs_requestId p, JSON_stringify (result_json p))
     (message_of ` set (d_outbox d))"
  by (auto simp: announce_def sql_insert_outbox_def message_of_def)

lemma add_row_tables [simp]:
  "d_user_coupons (add_row c d) = d_user_coupons d @ [with_key (dec (d_next_user_coupon d)) (UserCouponMapper_toInsertValues c)]"
  "d_inventories (add_row c d) = d_inventories d" "d_outbox (add_row c d) = d_outbox d"
  by (simp_all add: add_row_def bump_def)

lemma take_one_tables [simp]:
  "d_user_coupons (take_one row d) = d_user_coupons d" "d_outbox (take_one row d) = d_outbox d"
  by (simp_all add: take_one_def sql_update_available_def)

lemma find_map_same:
  "(\<And>x. x \<in> set xs \<Longrightarrow> Q (f x) = Q x) \<Longrightarrow> find Q (map f xs) = map_option f (find Q xs)"
  by (induction xs) auto

lemma sold_out_take_one:
  assumes "inventory_keys_ok d" "row \<in> set (d_inventories d)" "0 < i_availableCount row" "sold_out_in e t d"
  shows "sold_out_in e t (take_one row d)"
proof -
  from assms(4) obtain x where x: "select_inventory e t d = Some x" "i_availableCount x = 0"
    by (auto simp: sold_out_in_def)
  with assms(3) have "x \<noteq> row" by auto
  with x show ?thesis
    by (simp add: sold_out_in_def select_inventory_def inventories_take_one [OF assms(1-3)] find_map_same)
qed

lemma issue_spec_evolves:
  assumes "valid_rnd rnd" "db_ok ck d" "issue_spec ck now rnd request d = (Inr x, d')"
  shows "evolves (\<lambda>p. p = request) d d'" "told d \<Longrightarrow> told d'"
proof -
  have "evolves (\<lambda>p. p = request) d d' \<and> (told d \<longrightarrow> told d')"
  proof (cases "has_row (rq_userId request) (rq_couponTypeId request) d")
    case True
    with assms(3) show ?thesis by (simp add: issue_spec_def)
  next
    case False
    with assms(3) obtain status code check d1 where r: "record_result ck request status code now check d1 = (Inr x, d')"
      and status: "status \<noteq> UC_USED" "code \<noteq> None \<longleftrightarrow> status = UC_SUCCESS"
          "code \<in> {None, Some (CouponCode_generate rnd)}"
      and d1: "d1 = d \<or> (\<exists>row. select_inventory (rq_eventId request) (rq_couponTypeId request) d = Some row \<and>
        0 < i_availableCount row \<and> d1 = take_one row d)"
      by (auto simp: issue_spec_def split: option.splits if_splits)
    have same: "d_user_coupons d1 = d_user_coupons d" "d_outbox d1 = d_outbox d"
      using d1 by auto
    have sold: "sold_out_in e t d \<longrightarrow> sold_out_in e t d1" for e t
      using d1 assms(2) by (auto simp: db_ok_def select_inventory_def find_Some_iff intro: sold_out_take_one)
    let ?row = "with_key (dec (d_next_user_coupon d1)) (UserCouponMapper_toInsertValues (result_row request status code now))"
    note eq = record_result_Inr(2) [OF r]
    have rows: "d_user_coupons d' = d_user_coupons d @ [?row]" by (simp add: eq same)
    have asked: "asked_by request ?row" by (simp add: asked_by_def result_row_def)
    have "sold_out_in e t d1 \<longrightarrow> sold_out_in e t d'" for e t
      by (simp add: sold_out_in_def select_inventory_def eq)
    with sold rows asked have "evolves (\<lambda>p. p = request) d d'"
      by (auto simp: evolves_def eq same intro: became_refl)
    moreover have "told d \<longrightarrow> told d'"
    proof
      assume t: "told d"
      let ?p = "toResultPayload request (result_status_of status) code now"
      have "rs_status ?p = R_SUCCESS \<longleftrightarrow> status = UC_SUCCESS"
        using status(1) by (cases status) (simp_all add: toResultPayload_def)
      then have new: "announces o' ?row" if "o_payload o' = JSON_stringify (result_json ?p)" "o_aggregateId o' = rs_requestId ?p" for o'
        unfolding announces_def using that status
        by (intro exI [of _ ?p]) (auto simp: toResultPayload_def result_row_def split: option.split)
      have "d_outbox d' = d_outbox d @ [\<lparr>o_outboxEventId = dec (d_next_outbox d1), o_aggregateId = rs_requestId ?p,
          o_eventType = EVENT_TYPE_ISSUE_RESULT, o_payload = JSON_stringify (result_json ?p), o_status = OB_PENDING,
          o_createdAt = d_now d1, o_publishedAt = None\<rparr>]"
        by (simp add: eq announce_def sql_insert_outbox_def same add_row_def bump_def)
      moreover have "coded ?row" using status by (auto simp: coded_def result_row_def CouponCode_of_generate [OF assms(1)])
      ultimately show "told d'" using t rows new by (auto simp: told_def)
    qed
    ultimately show ?thesis by simp
  qed
  then show "evolves (\<lambda>p. p = request) d d'" "told d \<Longrightarrow> told d'" by simp_all
qed

lemma map_rows_evolves:
  assumes "\<And>r. r \<in> set (d_user_coupons d) \<Longrightarrow> became r (f r)"
  shows "evolves P d (d\<lparr>d_user_coupons := map f (d_user_coupons d)\<rparr>)"
    "told d \<Longrightarrow> told (d\<lparr>d_user_coupons := map f (d_user_coupons d)\<rparr>)"
  using assms announces_became coded_became
  by (auto simp: evolves_def told_def sold_out_in_def select_inventory_def) blast+

lemma redeem_spec_evolves:
  assumes "redeem_spec ck now command d = (Inr x, d')"
  shows "evolves P d d'" "told d \<Longrightarrow> told d'"
proof -
  have "d' = d \<or> (\<exists>row. u_status row = UC_SUCCESS \<and> d' = replace_row row (use_row now row) d)"
    using assms by (auto simp: redeem_spec_def split: option.splits if_splits)
  moreover have "evolves P d (replace_row row (use_row now row) d)"
      "told d \<Longrightarrow> told (replace_row row (use_row now row) d)" if "u_status row = UC_SUCCESS" for row
    unfolding replace_row_def using that
    by (intro map_rows_evolves; simp add: became_def)+
  ultimately show "evolves P d d'" "told d \<Longrightarrow> told d'" by auto
qed

lemma mark_published_evolves:
  "evolves P d (snd (sql_mark_published ids now d))"
  "told d \<Longrightarrow> told (snd (sql_mark_published ids now d))"
proof -
  have m: "message_of (mark_row ids now o') = message_of o'" "announces (mark_row ids now o') r \<longleftrightarrow> announces o' r" for o' r
    by (simp_all add: message_of_def announces_def)
  show "evolves P d (snd (sql_mark_published ids now d))"
    by (auto simp: evolves_def d_outbox_mark image_image m sold_out_in_def select_inventory_def intro: became_refl)
  show "told d \<Longrightarrow> told (snd (sql_mark_published ids now d))"
    by (simp add: told_def d_outbox_mark m)
qed

text \<open>An operation that commits what its specification computes or nothing.\<close>

lemma committed_evolves:
  assumes "committed_or_untouched S d (q, d', fs')"
    and "\<And>x d'. S d = (Inr x, d') \<Longrightarrow> evolves P d d' \<and> (told d \<longrightarrow> told d')"
  shows "evolves P d d'" "told d \<Longrightarrow> told d'"
  using assms told_same_tables evolves_same_tables
  by (auto simp: committed_or_untouched_def split: sum.splits)

section \<open>The operations\<close>

definition topic_told :: "cstate \<Rightarrow> bool" where
  "topic_told c \<longleftrightarrow> set (c_topic c) \<subseteq> message_of ` set (d_outbox (c_db c))"

definition flagged :: "redis \<Rightarrow> int \<Rightarrow> int \<Rightarrow> bool" where
  "flagged r e t \<longleftrightarrow> r_strings r (couponAvailable_key e t) \<noteq> None"

definition flags_told :: "cstate \<Rightarrow> bool" where
  "flags_told c \<longleftrightarrow> (\<forall>e t. flagged (c_redis c) e t \<longrightarrow> sold_out_in e t (c_db c))"

definition truthful :: "(string \<Rightarrow> string) \<Rightarrow> cstate \<Rightarrow> bool" where
  "truthful ck c \<longleftrightarrow> c_ok ck c \<and> told (c_db c) \<and> topic_told c \<and> flags_told c"

definition moves :: "(string \<Rightarrow> string) \<Rightarrow> (issue_request \<Rightarrow> bool) \<Rightarrow> cstate \<Rightarrow> cstate \<Rightarrow> bool" where
  "moves ck P c c' \<longleftrightarrow> truthful ck c' \<and> evolves P (c_db c) (c_db c')"

lemma couponAvailable_key_inject: "couponAvailable_key e t = couponAvailable_key e' t' \<longleftrightarrow> e = e' \<and> t = t'"
  by (simp add: couponAvailable_key_def append_colon_inject)

lemma flagged_set: "flagged (snd (do_set_ex k v ttl r)) e t \<longleftrightarrow> k = couponAvailable_key e t \<or> flagged r e t"
  by (auto simp: flagged_def do_set_ex_def)

lemma movesI:
  assumes "truthful ck c" "evolves P (c_db c) (c_db c')" "c_ok ck c'" "told (c_db c) \<Longrightarrow> told (c_db c')"
    and "set (c_topic c') \<subseteq> set (c_topic c) \<union> message_of ` set (d_outbox (c_db c))"
    and "\<And>e t. flagged (c_redis c') e t \<Longrightarrow> flagged (c_redis c) e t \<or> sold_out_in e t (c_db c')"
  shows "moves ck P c c'"
proof -
  have "topic_told c'"
    using assms(1,5) evolvesD(3) [OF assms(2)] unfolding truthful_def topic_told_def by blast
  moreover have "flags_told c'"
    using assms(1,6) evolvesD(4) [OF assms(2)] unfolding truthful_def flags_told_def by blast
  ultimately show ?thesis using assms(1-4) by (simp add: moves_def truthful_def)
qed

lemma moves_trans: "moves ck P c c1 \<Longrightarrow> moves ck P c1 c2 \<Longrightarrow> moves ck P c c2"
  by (auto simp: moves_def intro: evolves_trans)

lemma moves_refl: "truthful ck c \<Longrightarrow> moves ck P c c"
  by (simp add: moves_def)

lemma process_moves:
  assumes "truthful ck c" "valid_rnd rnd"
  shows "moves ck (\<lambda>p. p = request) c (final (process ck ttl now rnd request (c, fs)))"
proof (rule movesI [OF assms(1)])
  let ?c = "final (process ck ttl now rnd request (c, fs))"
  obtain o' db' r where t: "runIssueTransaction ck now rnd request (c_db c, fs) = (o', db', r)"
    by (cases "runIssueTransaction ck now rnd request (c_db c, fs)")
  note p = process_cases [OF t, of ttl]
  have ok: "c_ok ck c" using assms(1) by (simp add: truthful_def)
  then have "db_ok ck (c_db c)" by (simp add: c_ok_def)
  from issue_spec_evolves [OF assms(2) this]
  have s: "issue_spec ck now rnd request (c_db c) = (Inr x, d') \<Longrightarrow>
      evolves (\<lambda>p. p = request) (c_db c) d' \<and> (told (c_db c) \<longrightarrow> told d')" for x d' by blast
  note ref = issue_transaction_refines [of ck now rnd request "c_db c" fs, unfolded t]
  from committed_evolves(1) [OF ref s] show "evolves (\<lambda>p. p = request) (c_db c) (c_db ?c)" by (simp add: p(1))
  show "told (c_db c) \<Longrightarrow> told (c_db ?c)" using committed_evolves(2) [OF ref s] by (simp add: p(1))
  show "c_ok ck ?c" by (rule keeps_invD [OF keeps_process_published ok])
  show "set (c_topic ?c) \<subseteq> set (c_topic c) \<union> message_of ` set (d_outbox (c_db c))"
    by (simp add: process_topic)
  show "flagged (c_redis c) e t \<or> sold_out_in e t (c_db ?c)" if "flagged (c_redis ?c) e t" for e t
    using p(3) that by (auto simp: flagged_set couponAvailable_key_inject p(1))
qed

lemma deliver_moves:
  assumes "truthful ck c" "\<And>k. valid_rnd (rnd k)"
  shows "moves ck (\<lambda>p. parse_request val = Some p) c (final (request_deliver ck ttl n clock rnd val (c, fs)))"
proof -
  have "keeps_inv (\<lambda>c'. moves ck (\<lambda>p. parse_request val = Some p) c c') (process_attempt ck ttl clock rnd k p)"
    if p: "parse_request val = Some p" for k p
  proof (rule keeps_invI)
    fix c1 gs assume m: "moves ck (\<lambda>p. parse_request val = Some p) c c1"
    then have "moves ck (\<lambda>q. q = p) c1 (final (process ck ttl (clock k) (rnd k) p (c1, gs)))"
      by (intro process_moves assms(2)) (simp add: moves_def)
    with p have "moves ck (\<lambda>p. parse_request val = Some p) c1 (final (process ck ttl (clock k) (rnd k) p (c1, gs)))"
      by (auto simp: moves_def elim: evolves_mono)
    with moves_trans [OF m this] show "moves ck (\<lambda>p. parse_request val = Some p) c (final (process_attempt ck ttl clock rnd k p (c1, gs)))"
      by (simp add: process_attempt_def)
  qed
  then have "keeps_inv (\<lambda>c'. moves ck (\<lambda>p. parse_request val = Some p) c c') (request_deliver ck ttl n clock rnd val)"
    unfolding request_deliver_def by (intro keeps_deliver)
  then show ?thesis by (rule keeps_invD) (rule moves_refl [OF assms(1)])
qed

lemma redeem_moves:
  assumes "truthful ck c"
  shows "moves ck P c (final (on_db (redeem ck now command) (c, fs)))"
proof (rule movesI [OF assms])
  have ok: "c_ok ck c" using assms by (simp add: truthful_def)
  then have "db_ok ck (c_db c)" by (simp add: c_ok_def)
  note ref = redeem_refines [OF this, of now command fs]
  obtain q d' r where t: "redeem ck now command (c_db c, fs) = (q, d', r)"
    by (cases "redeem ck now command (c_db c, fs)")
  note ev = committed_evolves [OF ref [unfolded t]]
  show "evolves P (c_db c) (c_db (final (on_db (redeem ck now command) (c, fs))))"
    using ev(1) redeem_spec_evolves by (simp add: on_db_apply t)
  show "told (c_db c) \<Longrightarrow> told (c_db (final (on_db (redeem ck now command) (c, fs))))"
    using ev(2) redeem_spec_evolves by (simp add: on_db_apply t)
  show "c_ok ck (final (on_db (redeem ck now command) (c, fs)))" by (rule redeem_c_ok [OF ok])
qed (simp_all add: on_db_apply)

text \<open>A poll adds messages of outbox rows to the topic and marks rows.\<close>

lemma publish_each_topic:
  assumes "set (map (\<lambda>ev. (or_aggregateId ev, or_payload ev)) evs) \<subseteq> M"
  shows "keeps_inv (\<lambda>c'. c_db c' = d \<and> c_redis c' = r \<and> set (c_topic c') \<subseteq> M) (publish_each evs ids)"
  using assms
proof (induction evs arbitrary: ids)
  case (Cons ev evs)
  then have "(or_aggregateId ev, or_payload ev) \<in> M" by simp
  then have "keeps_inv (\<lambda>c'. c_db c' = d \<and> c_redis c' = r \<and> set (c_topic c') \<subseteq> M)
      (IssueResultPublisher_publish (or_aggregateId ev) (or_payload ev))"
    unfolding IssueResultPublisher_publish_def by (intro keeps) auto
  with Cons show ?case by (auto intro!: keeps)
qed (simp add: keeps_ret)

lemma publishPending_moves:
  assumes "set (c_topic c) \<subseteq> message_of ` set (d_outbox (c_db c))"
  shows "let c' = final (publishPending n now (c, fs)) in
    (c_db c' = c_db c \<or> (\<exists>ids. c_db c' = snd (sql_mark_published ids now (c_db c)))) \<and> c_redis c' = c_redis c \<and>
    set (c_topic c') \<subseteq> message_of ` set (d_outbox (c_db c))"
proof (cases rule: external_cases [where e = mysql_down and s = "c_db c" and fs = fs and
      f = "\<lambda>db. (map outbox_record_of (select_pending n db), db)"])
  case (ok r)
  let ?evs = "map outbox_record_of (select_pending n (c_db c))"
  let ?M = "message_of ` set (d_outbox (c_db c))"
  from ok have find: "on_db (findPending n) (c, fs) = (Inr ?evs, c, r)"
    by (simp add: on_db_apply findPending_def)
  obtain q c1 gs where e: "publish_each ?evs [] (c, r) = (q, c1, gs)" by (cases "publish_each ?evs [] (c, r)")
  have "set (map (\<lambda>ev. (or_aggregateId ev, or_payload ev)) ?evs) \<subseteq> ?M"
    using set_select_pending [of n "c_db c"] by (auto simp: outbox_record_of_def message_of_def)
  from keeps_invD [OF publish_each_topic [OF this, where d = "c_db c" and r = "c_redis c" and ids = "[]"], where s = c and fs = r]
    assms e
  have c1: "c_db c1 = c_db c" "c_redis c1 = c_redis c" "set (c_topic c1) \<subseteq> ?M" by simp_all
  have mark: "final (on_db (markPublished ids now) (c1, gs)) \<in>
      {c1, c1\<lparr>c_db := snd (sql_mark_published ids now (c_db c))\<rparr>}" for ids
    using markPublished_cases [of ids now c1 gs] c1(1) by simp
  show ?thesis
  proof (cases "?evs = [] \<or> isl q \<or> q = Inr []")
    case True
    with find e c1 assms show ?thesis
      by (cases q) (auto simp: publishPending_def bnd_def Let_def)
  next
    case False
    then obtain ids where q: "q = Inr ids" "ids \<noteq> []" by (cases q) auto
    with False find e have "final (publishPending n now (c, fs)) = final (on_db (markPublished ids now) (c1, gs))"
      by (simp add: publishPending_def bnd_def split: prod.split sum.split)
    with mark [of ids] c1 show ?thesis by (auto simp: Let_def)
  qed
qed (use assms in \<open>simp_all add: publishPending_def bnd_def on_db_apply findPending_def Let_def\<close>)

lemma poll_moves:
  assumes "truthful ck c"
  shows "moves ck P c (final (poll n now (c, fs)))"
proof -
  let ?c = "final (poll n now (c, fs))"
  have "set (c_topic c) \<subseteq> message_of ` set (d_outbox (c_db c))" "c_ok ck c"
    using assms by (simp_all add: truthful_def topic_told_def)
  then have p: "(c_db ?c = c_db c \<or> (\<exists>ids. c_db ?c = snd (sql_mark_published ids now (c_db c)))) \<and> c_redis ?c = c_redis c \<and>
      set (c_topic ?c) \<subseteq> message_of ` set (d_outbox (c_db c))" "c_ok ck ?c"
    using publishPending_moves [of "c\<lparr>c_polling := True\<rparr>" n now fs] c_step_ok [OF c_step.poll_tick]
    by (auto simp: poll_def bnd_def try_catch_def Let_def split: prod.split sum.split)
  show ?thesis
    by (rule movesI [OF assms]) (use p mark_published_evolves in auto)
qed

text \<open>The read side writes no flag.\<close>

definition same_flags :: "redis \<Rightarrow> redis \<Rightarrow> bool" where
  "same_flags r r' \<longleftrightarrow> flagged r' = flagged r"

lemma keeps_flags_put: "keeps_inv (same_flags r) (EventCacheStore_put ttl v)"
  unfolding EventCacheStore_put_def redis_set_ex_def
  by (intro keeps) (auto simp: same_flags_def fun_eq_iff flagged_set)

lemma keeps_flags_get: "keeps_inv (same_flags r) (EventCacheStore_get e)"
  unfolding EventCacheStore_get_def redis_get_def by (intro keeps) simp

lemma keeps_flags_on: 
  "keeps_inv (same_flags r) m \<Longrightarrow> keeps_inv (\<lambda>c. same_flags r (c_redis c)) (on_redis m)"
  "keeps_inv (\<lambda>c. same_flags r (c_redis c)) (on_db k)"
  unfolding on_redis_def on_db_def
  by (erule keeps_zoom; simp) (rule keeps_zoom [where J = "\<lambda>_. True"]; simp add: keeps_inv_def)

lemma reads_same_flags:
  "same_flags (c_redis c) (c_redis (final (refreshActiveEvents ttl (c, fs))))"
  "same_flags (c_redis c) (c_redis (final (EventQueryService_findById ttl eventId (c, fs))))"
proof -
  have "keeps_inv (\<lambda>c'. same_flags (c_redis c) (c_redis c')) (refreshActiveEvents ttl)"
    unfolding refreshActiveEvents_def
    by (intro keeps_bnd keeps_gets keeps_if keeps_ret keeps_modify keeps_try keeps_foreach keeps_flags_on
        keeps_flags_put) simp_all
  then show "same_flags (c_redis c) (c_redis (final (refreshActiveEvents ttl (c, fs))))"
    by (rule keeps_invD) (simp add: same_flags_def)
  have "keeps_inv (\<lambda>c'. same_flags (c_redis c) (c_redis c')) (EventQueryService_findById ttl eventId)"
    unfolding EventQueryService_findById_def Let_def
    by (intro keeps_bnd keeps_option keeps_ret keeps_throw keeps_flags_on keeps_flags_put keeps_flags_get)
  then show "same_flags (c_redis c) (c_redis (final (EventQueryService_findById ttl eventId (c, fs))))"
    by (rule keeps_invD) (simp add: same_flags_def)
qed

lemma read_moves:
  assumes "truthful ck c" "same_db c c'" "same_flags (c_redis c) (c_redis c')"
  shows "moves ck P c c'"
  by (rule movesI [OF assms(1)])
    (use assms in \<open>auto simp: truthful_def c_ok_def same_db_def same_flags_def published_sent_def\<close>)

lemma clock_moves_true:
  assumes "truthful ck c"
  shows "moves ck P c (c\<lparr>c_db := (c_db c)\<lparr>d_now := t\<rparr>, c_redis := (c_redis c)\<lparr>r_now := t'\<rparr>\<rparr>)"
proof (rule movesI [OF assms])
  show "c_ok ck (c\<lparr>c_db := (c_db c)\<lparr>d_now := t\<rparr>, c_redis := (c_redis c)\<lparr>r_now := t'\<rparr>\<rparr>)"
    using assms by (intro c_step_ok [OF c_step.clock_moves]) (simp add: truthful_def)
qed (simp_all add: evolves_tables told_def flagged_def)

lemma restart_moves:
  assumes "truthful ck c"
  shows "moves ck P c (final (c_restart (c, fs)))"
proof -
  obtain x where x: "final (c_restart (c, fs)) = c\<lparr>c_polling := False, c_refreshing := False, c_connected := x\<rparr>"
    using c_restart_cases(1) by blast
  show ?thesis
  proof (rule movesI [OF assms])
    show "c_ok ck (final (c_restart (c, fs)))"
      using assms by (intro c_step_ok [OF c_step.restarts]) (simp add: truthful_def)
  qed (simp_all add: x)
qed

section \<open>server-c with an empty topic and an empty cache\<close>

definition fresh_c :: "cstate \<Rightarrow> bool" where
  "fresh_c c \<longleftrightarrow> opened c \<and> c_topic c = [] \<and> (\<forall>e t. \<not> flagged (c_redis c) e t)"

lemma fresh_truthful: "fresh_c c \<Longrightarrow> truthful ck c"
  by (simp add: fresh_c_def truthful_def opened_ok) (simp add: told_def topic_told_def flags_told_def opened_def)

end
