(* ===== verification/C_Contention.thy ===== *)
theory C_Contention imports C_Truth begin

text \<open>
  Concurrent issue transactions.  \<open>CouponIssueProcessor.process\<close> is cut at its statements, and the
  pieces of any number of calls interleave on one database.  What a transaction has written stays
  in its phase until COMMIT.  Two of MySQL's rules make a transaction wait: \<open>SELECT ... FOR UPDATE\<close>
  for the transaction that holds the inventory row, an INSERT for the transaction that has a row of
  the same unique key uncommitted.  The generated keys are drawn at the INSERT and never given back.
  A transaction can die at any point and its COMMIT can lose its answer; redeems, polls and refreshes
  run in between.  The rows of a table stand in the order of the commits.
\<close>

section \<open>The pieces of a transaction\<close>

text \<open>What a transaction has decided: the clock reading, the result and the inventory it has written.\<close>

record tx_work =
  tw_now :: int
  tw_status :: user_coupon_status
  tw_code :: "string option"
  tw_written :: "inventory option"

datatype tx_phase =
    Tx_Waiting
  | Tx_Active int
  | Tx_Holding int inventory
  | Tx_Saving tx_work
  | Tx_Saved tx_work user_coupon_row
  | Tx_Announced tx_work user_coupon_row outbox_row
  | Tx_Ended "exn + bool"
  | Tx_Done "exn + unit"

definition tx_read :: "int \<Rightarrow> issue_request \<Rightarrow> (cdb, exn, tx_phase) eff" where
  "tx_read now request =
    bnd (existsByUserIdAndCouponTypeId (rq_userId request) (rq_couponTypeId request)) (\<lambda>issued.
    if issued then ret (Tx_Ended (Inr False)) else
    bnd (event_findById (rq_eventId request)) (\<lambda>event. case event of
      None \<Rightarrow> throw (Plain_Error (''event not found: '' @ dec (rq_eventId request)))
    | Some event \<Rightarrow> ret (if \<not> isActive event now
        then Tx_Saving \<lparr>tw_now = now, tw_status = UC_FAILED, tw_code = None, tw_written = None\<rparr>
        else Tx_Active now)))"

definition tx_lock :: "int \<Rightarrow> issue_request \<Rightarrow> (cdb, exn, tx_phase) eff" where
  "tx_lock now request =
    bnd (findForUpdate (rq_eventId request) (rq_couponTypeId request)) (\<lambda>inventory. case inventory of
      None \<Rightarrow> throw (Plain_Error (''inventory not found: eventId='' @ dec (rq_eventId request) @
                '', couponTypeId='' @ dec (rq_couponTypeId request)))
    | Some inventory \<Rightarrow> ret (Tx_Holding now inventory))"

text \<open>The UPDATE of the inventory writes a row the transaction has locked: it takes effect for the
  others at COMMIT.\<close>

definition tx_decide :: "(nat \<Rightarrow> nat) \<Rightarrow> int \<Rightarrow> inventory \<Rightarrow> tx_phase" where
  "tx_decide rnd now inventory = (let (taken, inventory) = decrement inventory in
     if \<not> taken
     then Tx_Saving \<lparr>tw_now = now, tw_status = UC_SOLD_OUT, tw_code = None, tw_written = None\<rparr>
     else Tx_Saving \<lparr>tw_now = now, tw_status = UC_SUCCESS, tw_code = Some (CouponCode_generate rnd),
            tw_written = Some inventory\<rparr>)"

definition tx_save :: "(string \<Rightarrow> string) \<Rightarrow> issue_request \<Rightarrow> tx_work \<Rightarrow> (cdb, exn, unit) eff" where
  "tx_save ck request w = saveResult ck request (tw_status w) (tw_code w) (tw_now w)"

definition tx_announce :: "issue_request \<Rightarrow> tx_work \<Rightarrow> (cdb, exn, unit) eff" where
  "tx_announce request w =
     saveOutbox (toResultPayload request (result_status_of (tw_status w)) (tw_code w) (tw_now w))"

definition tx_commit :: "tx_work \<Rightarrow> user_coupon_row \<Rightarrow> outbox_row \<Rightarrow> cdb \<Rightarrow> cdb" where
  "tx_commit w row msg db = (case tw_written w of None \<Rightarrow> db | Some inventory \<Rightarrow> sql_update_available inventory db)
     \<lparr>d_user_coupons := d_user_coupons db @ [row], d_outbox := d_outbox db @ [msg]\<rparr>"

definition tx_check :: "tx_work \<Rightarrow> bool" where
  "tx_check w \<longleftrightarrow> tw_status w \<noteq> UC_FAILED"

text \<open>Run one after another by a single transaction the pieces are its body.\<close>

definition tx_write :: "(string \<Rightarrow> string) \<Rightarrow> issue_request \<Rightarrow> tx_phase \<Rightarrow> (cdb, exn, bool) eff" where
  "tx_write ck request p = (case p of
      Tx_Saving w \<Rightarrow>
        bnd (case tw_written w of None \<Rightarrow> ret () | Some inventory \<Rightarrow> updateAvailableCount inventory) (\<lambda>_.
        bnd (tx_save ck request w) (\<lambda>_.
        bnd (tx_announce request w) (\<lambda>_.
        ret (tx_check w))))
    | _ \<Rightarrow> ret False)"

lemma bnd_cong: "(\<And>x. k x = k' x) \<Longrightarrow> bnd m k = bnd m k'"
  by (rule arg_cong [where f = "bnd m"]) (rule ext)

lemma issue_body_pieces:
  "issue_body ck now rnd request = bnd (tx_read now request) (\<lambda>p. case p of
      Tx_Active now \<Rightarrow> bnd (tx_lock now request) (\<lambda>q. case q of
          Tx_Holding now inventory \<Rightarrow> tx_write ck request (tx_decide rnd now inventory) | _ \<Rightarrow> ret False)
    | _ \<Rightarrow> tx_write ck request p)"
proof -
  have writes: "tx_write ck request (Tx_Saving \<lparr>tw_now = now, tw_status = status, tw_code = code, tw_written = w\<rparr>) =
      bnd (case w of None \<Rightarrow> ret () | Some inventory \<Rightarrow> updateAvailableCount inventory) (\<lambda>_.
      bnd (saveResult ck request status code now) (\<lambda>_.
      bnd (saveOutbox (toResultPayload request (result_status_of status) code now)) (\<lambda>_.
      ret (status \<noteq> UC_FAILED))))" for status code w now
    by (simp add: tx_write_def tx_save_def tx_announce_def tx_check_def)
  have ended: "tx_write ck request (Tx_Ended r) = ret False" for r
    by (simp add: tx_write_def)
  have lock: "bnd (tx_lock now request) K = bnd (findForUpdate (rq_eventId request) (rq_couponTypeId request)) (\<lambda>inventory.
      case inventory of None \<Rightarrow> throw (Plain_Error (''inventory not found: eventId='' @ dec (rq_eventId request) @
                '', couponTypeId='' @ dec (rq_couponTypeId request)))
      | Some inventory \<Rightarrow> K (Tx_Holding now inventory))" for now and K :: "tx_phase \<Rightarrow> (cdb, exn, bool) eff"
    unfolding tx_lock_def bnd_assoc by (rule bnd_cong) (simp split: option.split)
  have read: "bnd (tx_read now request) K =
      bnd (existsByUserIdAndCouponTypeId (rq_userId request) (rq_couponTypeId request)) (\<lambda>issued.
      if issued then K (Tx_Ended (Inr False)) else
      bnd (event_findById (rq_eventId request)) (\<lambda>event. case event of
        None \<Rightarrow> throw (Plain_Error (''event not found: '' @ dec (rq_eventId request)))
      | Some event \<Rightarrow> K (if \<not> isActive event now
          then Tx_Saving \<lparr>tw_now = now, tw_status = UC_FAILED, tw_code = None, tw_written = None\<rparr>
          else Tx_Active now)))" for K :: "tx_phase \<Rightarrow> (cdb, exn, bool) eff"
    unfolding tx_read_def bnd_assoc
    by (rule bnd_cong, simp add: bnd_assoc, intro impI bnd_cong) (simp split: option.split)
  show ?thesis
    unfolding issue_body_def read
    by (rule bnd_cong, simp add: ended, intro impI bnd_cong)
      (auto simp: writes lock tx_decide_def Let_def split_def simp del: decrement_simps
        intro!: bnd_cong split: option.split)
qed

section \<open>Locks and waiting\<close>

definition lock_of :: "issue_request \<Rightarrow> string \<times> string" where
  "lock_of request = (dec (rq_eventId request), dec (rq_couponTypeId request))"

fun holds_row :: "tx_phase \<Rightarrow> bool" where
  "holds_row (Tx_Holding now inventory) \<longleftrightarrow> True"
| "holds_row (Tx_Saving w) \<longleftrightarrow> tw_status w \<noteq> UC_FAILED"
| "holds_row (Tx_Saved w row) \<longleftrightarrow> tw_status w \<noteq> UC_FAILED"
| "holds_row (Tx_Announced w row msg) \<longleftrightarrow> tw_status w \<noteq> UC_FAILED"
| "holds_row _ \<longleftrightarrow> False"

fun pending_row :: "tx_phase \<Rightarrow> user_coupon_row option" where
  "pending_row (Tx_Saved w row) = Some row"
| "pending_row (Tx_Announced w row msg) = Some row"
| "pending_row _ = None"

fun pending_message :: "tx_phase \<Rightarrow> outbox_row option" where
  "pending_message (Tx_Announced w row msg) = Some msg"
| "pending_message _ = None"

text \<open>The two unique keys of \<open>user_coupon\<close>.\<close>

definition clash :: "(string \<Rightarrow> string) \<Rightarrow> user_coupon \<Rightarrow> user_coupon_row \<Rightarrow> bool" where
  "clash ck c row \<longleftrightarrow> ck (u_code row) = ck (uc_code c) \<or>
     same_user_type (dec (uc_userId c)) (dec (uc_couponTypeId c)) row"

record contention =
  cn_c :: cstate
  cn_phase :: "nat \<Rightarrow> tx_phase"

definition lock_free :: "(nat \<Rightarrow> issue_request) \<Rightarrow> nat \<Rightarrow> contention \<Rightarrow> bool" where
  "lock_free req i s \<longleftrightarrow> (\<forall>j. j \<noteq> i \<and> lock_of (req j) = lock_of (req i) \<longrightarrow> \<not> holds_row (cn_phase s j))"

definition keys_free :: "(string \<Rightarrow> string) \<Rightarrow> user_coupon \<Rightarrow> nat \<Rightarrow> contention \<Rightarrow> bool" where
  "keys_free ck c i s \<longleftrightarrow> (\<forall>j row. j \<noteq> i \<and> pending_row (cn_phase s j) = Some row \<longrightarrow> \<not> clash ck c row)"

definition cn_db :: "contention \<Rightarrow> cdb" where
  "cn_db s = c_db (cn_c s)"

definition put_phase :: "nat \<Rightarrow> tx_phase \<Rightarrow> contention \<Rightarrow> contention" where
  "put_phase i p s = s\<lparr>cn_phase := (cn_phase s)(i := p)\<rparr>"

definition put_db :: "cdb \<Rightarrow> contention \<Rightarrow> contention" where
  "put_db db s = s\<lparr>cn_c := (cn_c s)\<lparr>c_db := db\<rparr>\<rparr>"

definition or_failed :: "exn + tx_phase \<Rightarrow> tx_phase" where
  "or_failed r = (case r of Inl e \<Rightarrow> Tx_Ended (Inl e) | Inr p \<Rightarrow> p)"

definition row_of :: "issue_request \<Rightarrow> tx_work \<Rightarrow> user_coupon" where
  "row_of request w = result_row request (tw_status w) (tw_code w) (tw_now w)"

section \<open>Steps\<close>

text \<open>A step of transaction \<open>i\<close> in which nothing fails on the way to the database.\<close>

inductive tx_step :: "(string \<Rightarrow> string) \<Rightarrow> int \<Rightarrow> (nat \<Rightarrow> nat \<Rightarrow> nat) \<Rightarrow> (nat \<Rightarrow> issue_request) \<Rightarrow>
    nat \<Rightarrow> contention \<Rightarrow> contention \<Rightarrow> bool"
  for ck :: "string \<Rightarrow> string" and ttl :: int and rnd :: "nat \<Rightarrow> nat \<Rightarrow> nat" and req :: "nat \<Rightarrow> issue_request"
    and i :: nat where
  read_event: "cn_phase s i = Tx_Waiting \<Longrightarrow> tx_read now (req i) (cn_db s, []) = (r, db, []) \<Longrightarrow>
    tx_step ck ttl rnd req i s (put_phase i (or_failed r) s)"
| lock_row: "cn_phase s i = Tx_Active now \<Longrightarrow> lock_free req i s \<Longrightarrow>
    tx_lock now (req i) (cn_db s, []) = (r, db, []) \<Longrightarrow>
    tx_step ck ttl rnd req i s (put_phase i (or_failed r) s)"
| decide: "cn_phase s i = Tx_Holding now inventory \<Longrightarrow>
    tx_step ck ttl rnd req i s (put_phase i (tx_decide (rnd i) now inventory) s)"
| save: "cn_phase s i = Tx_Saving w \<Longrightarrow> keys_free ck (row_of (req i) w) i s \<Longrightarrow>
    tx_save ck (req i) w (cn_db s, []) = (Inr (), db, []) \<Longrightarrow>
    tx_step ck ttl rnd req i s
      (put_phase i (Tx_Saved w (last (d_user_coupons db))) (put_db (rollback (cn_db s) db) s))"
| save_error: "cn_phase s i = Tx_Saving w \<Longrightarrow> keys_free ck (row_of (req i) w) i s \<Longrightarrow>
    tx_save ck (req i) w (cn_db s, []) = (Inl e, db, []) \<Longrightarrow>
    tx_step ck ttl rnd req i s (put_phase i (Tx_Ended (Inl e)) (put_db (rollback (cn_db s) db) s))"
| announce_result: "cn_phase s i = Tx_Saved w row \<Longrightarrow>
    tx_announce (req i) w (cn_db s, []) = (Inr (), db, []) \<Longrightarrow>
    tx_step ck ttl rnd req i s
      (put_phase i (Tx_Announced w row (last (d_outbox db))) (put_db (rollback (cn_db s) db) s))"
| commit: "cn_phase s i = Tx_Announced w row msg \<Longrightarrow>
    tx_step ck ttl rnd req i s
      (put_phase i (Tx_Ended (Inr (tx_check w))) (put_db (tx_commit w row msg (cn_db s)) s))"
| give_up: "cn_phase s i = Tx_Ended (Inl e) \<Longrightarrow>
    tx_step ck ttl rnd req i s (put_phase i (Tx_Done (if duplicate_error e then Inr () else Inl e)) s)"
| return: "cn_phase s i = Tx_Ended (Inr False) \<Longrightarrow>
    tx_step ck ttl rnd req i s (put_phase i (Tx_Done (Inr ())) s)"
| check_stock: "cn_phase s i = Tx_Ended (Inr True) \<Longrightarrow>
    markSoldOutIfDepleted ttl (rq_eventId (req i)) (rq_couponTypeId (req i)) (cn_c s, fs) = (r, c, fs') \<Longrightarrow>
    tx_step ck ttl rnd req i s (put_phase i (Tx_Done r) (s\<lparr>cn_c := c\<rparr>))"

fun in_progress :: "tx_phase \<Rightarrow> bool" where
  "in_progress (Tx_Ended r) \<longleftrightarrow> False"
| "in_progress (Tx_Done r) \<longleftrightarrow> False"
| "in_progress _ \<longleftrightarrow> True"

text \<open>Faults of transaction \<open>i\<close>: its connection dies, or the answer of its COMMIT is lost.\<close>

inductive tx_fault :: "nat \<Rightarrow> contention \<Rightarrow> contention \<Rightarrow> bool" for i :: nat where
  abort: "in_progress (cn_phase s i) \<Longrightarrow> tx_fault i s (put_phase i (Tx_Ended (Inl mysql_down)) s)"
| commit_lost: "cn_phase s i = Tx_Announced w row msg \<Longrightarrow>
    tx_fault i s (put_phase i (Tx_Ended (Inl mysql_down)) (put_db (tx_commit w row msg (cn_db s)) s))"

text \<open>What else happens at server-c meanwhile.\<close>

inductive aside :: "(string \<Rightarrow> string) \<Rightarrow> int \<Rightarrow> cstate \<Rightarrow> cstate \<Rightarrow> bool" for ck :: "string \<Rightarrow> string" and ttl :: int where
  aside_redeem: "aside ck ttl c (final (on_db (redeem ck now command) (c, fs)))"
| aside_poll: "aside ck ttl c (final (poll n now (c, fs)))"
| aside_refresh: "aside ck ttl c (final (refreshActiveEvents ttl (c, fs)))"
| aside_query: "aside ck ttl c (final (EventQueryService_findById ttl eventId (c, fs)))"
| aside_clock: "aside ck ttl c (c\<lparr>c_db := (c_db c)\<lparr>d_now := t\<rparr>, c_redis := (c_redis c)\<lparr>r_now := t'\<rparr>\<rparr>)"

inductive contention_step :: "(string \<Rightarrow> string) \<Rightarrow> int \<Rightarrow> (nat \<Rightarrow> nat \<Rightarrow> nat) \<Rightarrow> (nat \<Rightarrow> issue_request) \<Rightarrow>
    contention \<Rightarrow> contention \<Rightarrow> bool"
  for ck :: "string \<Rightarrow> string" and ttl :: int and rnd :: "nat \<Rightarrow> nat \<Rightarrow> nat" and req :: "nat \<Rightarrow> issue_request" where
  of_transaction: "tx_step ck ttl rnd req i s s' \<Longrightarrow> contention_step ck ttl rnd req s s'"
| of_fault: "tx_fault i s s' \<Longrightarrow> contention_step ck ttl rnd req s s'"
| of_aside: "aside ck ttl (cn_c s) c \<Longrightarrow> contention_step ck ttl rnd req s (s\<lparr>cn_c := c\<rparr>)"

definition contention_start :: "(string \<Rightarrow> string) \<Rightarrow> contention \<Rightarrow> bool" where
  "contention_start ck s \<longleftrightarrow> truthful ck (cn_c s) \<and> (\<forall>i. cn_phase s i = Tx_Waiting)"

definition contends :: "(string \<Rightarrow> string) \<Rightarrow> int \<Rightarrow> (nat \<Rightarrow> nat \<Rightarrow> nat) \<Rightarrow> (nat \<Rightarrow> issue_request) \<Rightarrow>
    contention \<Rightarrow> contention \<Rightarrow> bool" where
  "contends ck ttl rnd req s0 s \<longleftrightarrow> contention_start ck s0 \<and> (contention_step ck ttl rnd req)\<^sup>*\<^sup>* s0 s"

end
