(* ===== verification/C_Serial.thy ===== *)
theory C_Serial imports C_Contention begin

text \<open>
  The interleaved transactions are serialisable: each COMMIT does to the committed tables what the
  whole transaction, run alone at that moment, would have done, up to the generated keys and
  the time of the outbox row.  The invariant says that what each transaction has read, locked and
  written is still true of the committed tables.
\<close>

section \<open>Equality up to the keys\<close>

definition erase_row :: "user_coupon_row \<Rightarrow> user_coupon_row" where
  "erase_row r = r\<lparr>u_userCouponId := []\<rparr>"

definition erase_message :: "outbox_row \<Rightarrow> outbox_row" where
  "erase_message m = m\<lparr>o_outboxEventId := [], o_createdAt := 0\<rparr>"

definition erase_keys :: "cdb \<Rightarrow> cdb" where
  "erase_keys d = d\<lparr>d_user_coupons := map erase_row (d_user_coupons d), d_outbox := map erase_message (d_outbox d),
     d_next_user_coupon := 0, d_next_outbox := 0\<rparr>"

lemma erase_keys_tables [simp]:
  "d_events (erase_keys d) = d_events d" "d_coupon_types (erase_keys d) = d_coupon_types d"
  "d_inventories (erase_keys d) = d_inventories d" "d_user_coupons (erase_keys d) = map erase_row (d_user_coupons d)"
  "d_outbox (erase_keys d) = map erase_message (d_outbox d)" "d_now (erase_keys d) = d_now d"
  by (simp_all add: erase_keys_def)

lemma erase_row_simps [simp]:
  "u_code (erase_row r) = u_code r" "u_userId (erase_row r) = u_userId r" "u_eventId (erase_row r) = u_eventId r"
  "u_couponTypeId (erase_row r) = u_couponTypeId r" "u_status (erase_row r) = u_status r"
  "u_issuedAt (erase_row r) = u_issuedAt r" "u_usedAt (erase_row r) = u_usedAt r"
  "u_version (erase_row r) = u_version r" "row_ok (erase_row r) = row_ok r"
  "holds_coupon e t (erase_row r) = holds_coupon e t r"
  "announces o' (erase_row r) = announces o' r" "coded (erase_row r) = coded r"
  by (simp_all add: erase_row_def row_ok_def announces_def coded_def holds_coupon_def)

lemma erase_message_simps [simp]:
  "o_aggregateId (erase_message m) = o_aggregateId m" "o_payload (erase_message m) = o_payload m"
  "o_status (erase_message m) = o_status m" "announces (erase_message m) r = announces m r"
  "message_of (erase_message m) = message_of m"
  by (simp_all add: erase_message_def announces_def message_of_def)

lemma erase_same_tables: "same_tables d d' \<Longrightarrow> erase_keys d' = erase_keys d"
  by (cases d; cases d') (simp add: same_tables_def erase_keys_def)

text \<open>All clauses of the invariants but those on the keys read nothing else than the erased tables.\<close>

lemma erase_clauses:
  "inventory_keys_ok (erase_keys d) = inventory_keys_ok d" "stock_ok (erase_keys d) = stock_ok d"
  "one_per_user (erase_keys d) = one_per_user d" "codes_unique ck (erase_keys d) = codes_unique ck d"
  "(\<forall>r \<in> set (d_user_coupons (erase_keys d)). row_ok r) = (\<forall>r \<in> set (d_user_coupons d). row_ok r)"
  "all_announced (erase_keys d) = all_announced d" "told (erase_keys d) = told d"
  by (simp_all add: inventory_keys_ok_def stock_ok_def issued_count_def filter_map comp_def
      one_per_user_def codes_unique_def all_announced_def told_def)

lemma db_ok_rekey:
  assumes "db_ok ck d1" "erase_keys d' = erase_keys d1" "coupon_ids_ok d'" "outbox_ids_ok d'"
  shows "db_ok ck d'"
proof -
  have "db_ok ck d \<longleftrightarrow> inventory_keys_ok (erase_keys d) \<and> stock_ok (erase_keys d) \<and> one_per_user (erase_keys d) \<and>
      codes_unique ck (erase_keys d) \<and> (\<forall>r \<in> set (d_user_coupons (erase_keys d)). row_ok r) \<and>
      all_announced (erase_keys d) \<and> coupon_ids_ok d \<and> outbox_ids_ok d" for d
    unfolding erase_clauses db_ok_def by blast
  from this [of d1] this [of d'] assms show ?thesis by argo
qed

lemma told_rekey: "told d1 \<Longrightarrow> erase_keys d' = erase_keys d1 \<Longrightarrow> told d'"
  using erase_clauses(7) [of d1] erase_clauses(7) [of d'] by simp

section \<open>What a transaction relies on\<close>

definition runs_at :: "issue_request \<Rightarrow> int \<Rightarrow> cdb \<Rightarrow> bool" where
  "runs_at request now d \<longleftrightarrow> (\<exists>ev. find (\<lambda>row. e_eventId row = dec (rq_eventId request)) (d_events d) = Some ev \<and>
     \<not> (now < e_startedAt ev \<or> e_endedAt ev < now))"

definition rests_at :: "issue_request \<Rightarrow> int \<Rightarrow> cdb \<Rightarrow> bool" where
  "rests_at request now d \<longleftrightarrow> (\<exists>ev. find (\<lambda>row. e_eventId row = dec (rq_eventId request)) (d_events d) = Some ev \<and>
     (now < e_startedAt ev \<or> e_endedAt ev < now))"

definition stock_of :: "issue_request \<Rightarrow> cdb \<Rightarrow> inventory_row option" where
  "stock_of request d = select_inventory (rq_eventId request) (rq_couponTypeId request) d"

definition settled :: "issue_request \<Rightarrow> cdb \<Rightarrow> bool" where
  "settled request d \<longleftrightarrow> has_row (rq_userId request) (rq_couponTypeId request) d"

definition decided :: "(nat \<Rightarrow> nat) \<Rightarrow> issue_request \<Rightarrow> tx_work \<Rightarrow> cdb \<Rightarrow> bool" where
  "decided rnd request w d \<longleftrightarrow> (case tw_status w of
      UC_FAILED \<Rightarrow> rests_at request (tw_now w) d \<and> tw_code w = None \<and> tw_written w = None
    | UC_SOLD_OUT \<Rightarrow> runs_at request (tw_now w) d \<and> tw_code w = None \<and> tw_written w = None \<and>
        (\<exists>row. stock_of request d = Some row \<and> i_availableCount row \<le> 0)
    | UC_SUCCESS \<Rightarrow> runs_at request (tw_now w) d \<and> tw_code w = Some (CouponCode_generate rnd) \<and>
        (\<exists>row. stock_of request d = Some row \<and> 0 < i_availableCount row \<and>
           tw_written w = Some (snd (decrement (CouponTypeInventoryMapper_toDomain row))))
    | UC_USED \<Rightarrow> False)"

definition placed :: "(string \<Rightarrow> string) \<Rightarrow> issue_request \<Rightarrow> tx_work \<Rightarrow> user_coupon_row \<Rightarrow> cdb \<Rightarrow> bool" where
  "placed ck request w row d \<longleftrightarrow>
     (\<exists>k < d_next_user_coupon d. row = with_key (dec k) (UserCouponMapper_toInsertValues (row_of request w))) \<and>
     u_userCouponId row \<notin> u_userCouponId ` set (d_user_coupons d) \<and>
     (\<forall>r \<in> set (d_user_coupons d). \<not> clash ck (row_of request w) r) \<and> known_type (rq_couponTypeId request) d"

definition worded :: "issue_request \<Rightarrow> tx_work \<Rightarrow> outbox_row \<Rightarrow> cdb \<Rightarrow> bool" where
  "worded request w msg d \<longleftrightarrow> (\<exists>k < d_next_outbox d. o_outboxEventId msg = dec k) \<and>
     o_outboxEventId msg \<notin> o_outboxEventId ` set (d_outbox d) \<and>
     erase_message msg = \<lparr>o_outboxEventId = [], o_aggregateId = rq_requestId request,
       o_eventType = EVENT_TYPE_ISSUE_RESULT, o_payload = JSON_stringify (result_json
          (toResultPayload request (result_status_of (tw_status w)) (tw_code w) (tw_now w))),
       o_status = OB_PENDING, o_createdAt = 0, o_publishedAt = None\<rparr>"

fun tx_ok :: "(string \<Rightarrow> string) \<Rightarrow> (nat \<Rightarrow> nat) \<Rightarrow> issue_request \<Rightarrow> cdb \<Rightarrow> tx_phase \<Rightarrow> bool" where
  "tx_ok ck rnd request d Tx_Waiting \<longleftrightarrow> True"
| "tx_ok ck rnd request d (Tx_Active now) \<longleftrightarrow> runs_at request now d"
| "tx_ok ck rnd request d (Tx_Holding now inventory) \<longleftrightarrow> runs_at request now d \<and>
     (\<exists>row. stock_of request d = Some row \<and> inventory = CouponTypeInventoryMapper_toDomain row)"
| "tx_ok ck rnd request d (Tx_Saving w) \<longleftrightarrow> decided rnd request w d"
| "tx_ok ck rnd request d (Tx_Saved w row) \<longleftrightarrow> decided rnd request w d \<and> placed ck request w row d"
| "tx_ok ck rnd request d (Tx_Announced w row msg) \<longleftrightarrow> decided rnd request w d \<and> placed ck request w row d \<and>
     worded request w msg d"
| "tx_ok ck rnd request d (Tx_Ended r) \<longleftrightarrow> (case r of Inl e \<Rightarrow> duplicate_error e \<longrightarrow> settled request d
     | Inr _ \<Rightarrow> settled request d)"
| "tx_ok ck rnd request d (Tx_Done r) \<longleftrightarrow> (r = Inr () \<longrightarrow> settled request d)"

text \<open>Two rows that can both be inserted.\<close>

definition apart :: "(string \<Rightarrow> string) \<Rightarrow> user_coupon_row \<Rightarrow> user_coupon_row \<Rightarrow> bool" where
  "apart ck r r' \<longleftrightarrow> u_userCouponId r \<noteq> u_userCouponId r' \<and> ck (u_code r) \<noteq> ck (u_code r') \<and>
     \<not> (u_userId r = u_userId r' \<and> u_couponTypeId r = u_couponTypeId r')"

text \<open>A change of the committed tables that does not touch what phase \<open>p\<close> relies on.\<close>

definition undisturbed :: "(string \<Rightarrow> string) \<Rightarrow> issue_request \<Rightarrow> tx_phase \<Rightarrow> cdb \<Rightarrow> cdb \<Rightarrow> bool" where
  "undisturbed ck request p d d' \<longleftrightarrow> d_events d' = d_events d \<and> d_coupon_types d' = d_coupon_types d \<and>
     counters_grow d d' \<and> (\<forall>r \<in> set (d_user_coupons d). \<exists>r' \<in> set (d_user_coupons d'). became r r') \<and>
     (holds_row p \<longrightarrow> stock_of request d' = stock_of request d) \<and>
     (\<forall>row. pending_row p = Some row \<longrightarrow> (\<forall>r' \<in> set (d_user_coupons d').
        (\<exists>r \<in> set (d_user_coupons d). became r r') \<or> apart ck row r')) \<and>
     (\<forall>msg. pending_message p = Some msg \<longrightarrow> (\<forall>m' \<in> set (d_outbox d').
        o_outboxEventId m' \<in> o_outboxEventId ` set (d_outbox d) \<or> o_outboxEventId m' \<noteq> o_outboxEventId msg))"

definition contention_inv :: "(string \<Rightarrow> string) \<Rightarrow> (nat \<Rightarrow> nat \<Rightarrow> nat) \<Rightarrow> (nat \<Rightarrow> issue_request) \<Rightarrow> contention \<Rightarrow> bool" where
  "contention_inv ck rnd req s \<longleftrightarrow> truthful ck (cn_c s) \<and> (\<forall>i. tx_ok ck (rnd i) (req i) (cn_db s) (cn_phase s i)) \<and>
     (\<forall>i. holds_row (cn_phase s i) \<longrightarrow> lock_free req i s) \<and>
     (\<forall>i j r r'. i \<noteq> j \<longrightarrow> pending_row (cn_phase s i) = Some r \<longrightarrow> pending_row (cn_phase s j) = Some r' \<longrightarrow> apart ck r r') \<and>
     (\<forall>i j m m'. i \<noteq> j \<longrightarrow> pending_message (cn_phase s i) = Some m \<longrightarrow> pending_message (cn_phase s j) = Some m' \<longrightarrow>
        o_outboxEventId m \<noteq> o_outboxEventId m')"

section \<open>Stability\<close>

lemma clash_apart:
  assumes "row = with_key k (UserCouponMapper_toInsertValues c)"
  shows "u_userCouponId r \<noteq> k \<Longrightarrow> \<not> clash ck c r \<Longrightarrow> apart ck row r" "apart ck row r \<Longrightarrow> \<not> clash ck c r"
  using assms by (auto simp: clash_def apart_def same_user_type_def)

lemma apart_sym: "apart ck r r' \<longleftrightarrow> apart ck r' r"
  by (auto simp: apart_def)

lemma clash_became: "became r r' \<Longrightarrow> clash ck c r' \<longleftrightarrow> clash ck c r"
  by (simp add: became_def clash_def same_user_type_def)

lemma settled_mono:
  assumes "\<forall>r \<in> set (d_user_coupons d). \<exists>r' \<in> set (d_user_coupons d'). became r r'" "settled request d"
  shows "settled request d'"
proof -
  from assms(2) obtain r where r: "r \<in> set (d_user_coupons d)"
      "same_user_type (dec (rq_userId request)) (dec (rq_couponTypeId request)) r"
    by (auto simp: settled_def has_row_def)
  from bspec [OF assms(1) r(1)] obtain r' where "r' \<in> set (d_user_coupons d')" "became r r'" by blast
  with r(2) show ?thesis by (auto simp: settled_def has_row_def same_user_type_def became_def)
qed

lemma decided_stable:
  assumes "decided rnd request w d" "d_events d' = d_events d"
    and "tw_status w \<noteq> UC_FAILED \<Longrightarrow> stock_of request d' = stock_of request d"
  shows "decided rnd request w d'"
  using assms by (cases "tw_status w") (auto simp: decided_def runs_at_def rests_at_def)

lemma placed_stable:
  assumes "placed ck request w row d" "d_coupon_types d' = d_coupon_types d" "counters_grow d d'"
    and "\<forall>r' \<in> set (d_user_coupons d'). (\<exists>r \<in> set (d_user_coupons d). became r r') \<or> apart ck row r'"
  shows "placed ck request w row d'"
proof -
  from assms(1) obtain k where k: "k < d_next_user_coupon d"
      "row = with_key (dec k) (UserCouponMapper_toInsertValues (row_of request w))"
    by (auto simp: placed_def)
  have new: "u_userCouponId r' \<noteq> u_userCouponId row \<and> \<not> clash ck (row_of request w) r'"
    if r': "r' \<in> set (d_user_coupons d')" for r'
    using bspec [OF assms(4) r']
  proof
    assume "\<exists>r \<in> set (d_user_coupons d). became r r'"
    then obtain r where r: "r \<in> set (d_user_coupons d)" "became r r'" by blast
    with assms(1) have "u_userCouponId row \<noteq> u_userCouponId r" "\<not> clash ck (row_of request w) r"
      unfolding placed_def by blast+
    with r(2) show ?thesis by (simp add: clash_became) (simp add: became_def)
  next
    assume a: "apart ck row r'"
    with clash_apart(2) [OF k(2) a] show ?thesis by (auto simp: apart_def)
  qed
  have "d_next_user_coupon d \<le> d_next_user_coupon d'" using assms(3) by (simp add: counters_grow_def)
  with k(1) have "k < d_next_user_coupon d'" by simp
  moreover have "known_type (rq_couponTypeId request) d'"
    using assms(1,2) by (simp add: placed_def known_type_def)
  ultimately show ?thesis using k(2) new unfolding placed_def by (metis imageE)
qed

lemma worded_stable:
  assumes "worded request w msg d" "counters_grow d d'"
    and "\<forall>m' \<in> set (d_outbox d'). o_outboxEventId m' \<in> o_outboxEventId ` set (d_outbox d) \<or>
        o_outboxEventId m' \<noteq> o_outboxEventId msg"
  shows "worded request w msg d'"
proof -
  from assms(1) obtain k where k: "k < d_next_outbox d" "o_outboxEventId msg = dec k" by (auto simp: worded_def)
  with assms(2) have "k < d_next_outbox d'" by (simp add: counters_grow_def)
  moreover have "o_outboxEventId msg \<notin> o_outboxEventId ` set (d_outbox d')"
    using assms(1,3) unfolding worded_def by (metis imageE)
  ultimately show ?thesis using assms(1) k(2) by (auto simp: worded_def)
qed

lemma tx_ok_undisturbed:
  assumes ok: "tx_ok ck rnd request d p" and u: "undisturbed ck request p d d'"
  shows "tx_ok ck rnd request d' p"
proof -
  have ev: "d_events d' = d_events d" "d_coupon_types d' = d_coupon_types d" "counters_grow d d'"
      "\<forall>r \<in> set (d_user_coupons d). \<exists>r' \<in> set (d_user_coupons d'). became r r'"
    using u by (simp_all add: undisturbed_def)
  have stock: "holds_row p \<Longrightarrow> stock_of request d' = stock_of request d" using u by (simp add: undisturbed_def)
  show ?thesis
  proof (cases p)
    case (Tx_Active now)
    with ok ev show ?thesis by (simp add: runs_at_def)
  next
    case (Tx_Holding now inventory)
    with ok ev stock show ?thesis by (simp add: runs_at_def)
  next
    case (Tx_Saving w)
    with ok decided_stable [OF _ ev(1)] stock show ?thesis by simp
  next
    case (Tx_Saved w row)
    moreover have "\<forall>r' \<in> set (d_user_coupons d'). (\<exists>r \<in> set (d_user_coupons d). became r r') \<or> apart ck row r'"
      using u Tx_Saved by (simp add: undisturbed_def)
    ultimately show ?thesis using ok decided_stable [OF _ ev(1)] placed_stable [OF _ ev(2,3)] stock by simp
  next
    case (Tx_Announced w row msg)
    moreover have "\<forall>r' \<in> set (d_user_coupons d'). (\<exists>r \<in> set (d_user_coupons d). became r r') \<or> apart ck row r'"
        "\<forall>m' \<in> set (d_outbox d'). o_outboxEventId m' \<in> o_outboxEventId ` set (d_outbox d) \<or>
        o_outboxEventId m' \<noteq> o_outboxEventId msg"
      using u Tx_Announced by (simp_all add: undisturbed_def)
    ultimately show ?thesis
      using ok decided_stable [OF _ ev(1)] placed_stable [OF _ ev(2,3)] worded_stable [OF _ ev(3)] stock by simp
  next
    case (Tx_Ended r)
    with ok settled_mono [OF ev(4)] show ?thesis by (cases r) auto
  next
    case (Tx_Done r)
    with ok settled_mono [OF ev(4)] show ?thesis by simp
  qed simp
qed

lemma undisturbed_counters:
  assumes "same_tables d d'" "counters_grow d d'"
  shows "undisturbed ck request p d d'"
  using assms by (auto simp: undisturbed_def same_tables_def stock_of_def select_inventory_def intro: became_refl)

lemma counters_grow_refl [simp]: "counters_grow d d"
  by (simp add: counters_grow_def)

lemma undisturbed_refl [simp]: "undisturbed ck request p d d"
  by (rule undisturbed_counters) simp_all

text \<open>One transaction goes to phase \<open>p\<close> and the state of server-c to \<open>c'\<close>.\<close>

lemma put_phase_simps [simp]:
  "cn_c (put_phase i p s) = cn_c s" "cn_db (put_phase i p s) = cn_db s"
  "cn_phase (put_phase i p s) j = (if j = i then p else cn_phase s j)"
  "cn_c (put_db d s) = (cn_c s)\<lparr>c_db := d\<rparr>" "cn_db (put_db d s) = d" "cn_phase (put_db d s) = cn_phase s"
  "cn_db (s\<lparr>cn_c := c\<rparr>) = c_db c"
  by (simp_all add: put_phase_def put_db_def cn_db_def)

lemma contention_inv_put:
  assumes inv: "contention_inv ck rnd req s" and same: "cn_phase s' = cn_phase s"
    and true: "truthful ck (cn_c s')"
    and others: "\<And>j. j \<noteq> i \<Longrightarrow> undisturbed ck (req j) (cn_phase s j) (cn_db s) (cn_db s')"
    and ok: "tx_ok ck (rnd i) (req i) (cn_db s') p" and lock: "holds_row p \<Longrightarrow> lock_free req i s"
    and rows: "\<And>j row r. j \<noteq> i \<Longrightarrow> pending_row p = Some row \<Longrightarrow> pending_row (cn_phase s j) = Some r \<Longrightarrow> apart ck row r"
    and messages: "\<And>j m m'. j \<noteq> i \<Longrightarrow> pending_message p = Some m \<Longrightarrow> pending_message (cn_phase s j) = Some m' \<Longrightarrow>
        o_outboxEventId m \<noteq> o_outboxEventId m'"
  shows "contention_inv ck rnd req (put_phase i p s')"
  unfolding contention_inv_def
proof (intro conjI allI impI)
  show "truthful ck (cn_c (put_phase i p s'))" using true by simp
  fix j
  show "tx_ok ck (rnd j) (req j) (cn_db (put_phase i p s')) (cn_phase (put_phase i p s') j)"
  proof (cases "j = i")
    case False
    from inv have "tx_ok ck (rnd j) (req j) (cn_db s) (cn_phase s j)" by (simp add: contention_inv_def)
    from tx_ok_undisturbed [OF this others [OF False]] False show ?thesis by (simp add: same)
  qed (simp add: ok)
next
  fix j assume h: "holds_row (cn_phase (put_phase i p s') j)"
  show "lock_free req j (put_phase i p s')"
  proof (cases "j = i")
    case True
    with h lock show ?thesis by (simp add: lock_free_def same)
  next
    case False
    with h have hj: "holds_row (cn_phase s j)" by (simp add: same)
    with inv have free: "lock_free req j s" by (simp add: contention_inv_def)
    have "\<not> holds_row p" if "lock_of (req i) = lock_of (req j)"
      using lock hj that False by (auto simp: lock_free_def)
    with free show ?thesis by (auto simp: lock_free_def same)
  qed
next
  fix j k r r' assume a: "j \<noteq> k" "pending_row (cn_phase (put_phase i p s') j) = Some r"
    "pending_row (cn_phase (put_phase i p s') k) = Some r'"
  have old: "j \<noteq> i \<Longrightarrow> k \<noteq> i \<Longrightarrow> apart ck r r'" using inv a by (simp add: contention_inv_def same)
  show "apart ck r r'"
    using a old rows [of j r' r] rows [of k r r'] by (cases "j = i"; cases "k = i") (auto simp: same apart_sym)
next
  fix j k m m' assume a: "j \<noteq> k" "pending_message (cn_phase (put_phase i p s') j) = Some m"
    "pending_message (cn_phase (put_phase i p s') k) = Some m'"
  have old: "j \<noteq> i \<Longrightarrow> k \<noteq> i \<Longrightarrow> o_outboxEventId m \<noteq> o_outboxEventId m'" using inv a by (simp add: contention_inv_def same)
  show "o_outboxEventId m \<noteq> o_outboxEventId m'"
    using a old messages [of j m' m] messages [of k m m'] by (cases "j = i"; cases "k = i") (auto simp: same)
qed

lemma inv_at:
  assumes "contention_inv ck rnd req s"
  shows "truthful ck (cn_c s)" "tx_ok ck (rnd i) (req i) (cn_db s) (cn_phase s i)"
    "holds_row (cn_phase s i) \<Longrightarrow> lock_free req i s"
  using assms by (simp_all add: contention_inv_def)

section \<open>The steps up to the INSERT\<close>

lemma tx_read_ok:
  assumes "tx_read now request (d, []) = (r, d', fs)"
  shows "tx_ok ck rnd request d (or_failed r)" "\<not> holds_row (or_failed r)"
    "pending_row (or_failed r) = None" "pending_message (or_failed r) = None"
  using assms
  by (auto simp: tx_read_def existsByUserIdAndCouponTypeId_def event_findById_def or_failed_def settled_def
      has_row_filter decided_def runs_at_def rests_at_def isActive_def EventMapper_toDomain_def
      duplicate_error_def split: if_splits option.splits)

lemma tx_lock_ok:
  assumes "tx_lock now request (d, []) = (r, d', fs)" "runs_at request now d"
  shows "tx_ok ck rnd request d (or_failed r)"
    "pending_row (or_failed r) = None" "pending_message (or_failed r) = None"
  using assms
  by (auto simp: tx_lock_def findForUpdate_def or_failed_def stock_of_def duplicate_error_def split: option.splits)

lemma tx_decide_ok:
  assumes "tx_ok ck rnd request d (Tx_Holding now inventory)"
  shows "tx_ok ck rnd request d (tx_decide rnd now inventory)"
    "pending_row (tx_decide rnd now inventory) = None" "pending_message (tx_decide rnd now inventory) = None"
proof -
  from assms obtain row where row: "stock_of request d = Some row" "inventory = CouponTypeInventoryMapper_toDomain row"
    by auto
  then have "in_availableCount inventory = i_availableCount row" by (simp add: CouponTypeInventoryMapper_toDomain_def)
  with assms row show "tx_ok ck rnd request d (tx_decide rnd now inventory)"
    "pending_row (tx_decide rnd now inventory) = None" "pending_message (tx_decide rnd now inventory) = None"
    by (auto simp: tx_decide_def Let_def split_def decided_def)
qed

lemma truthful_counters:
  assumes "truthful ck c" "same_tables (c_db c) d" "counters_grow (c_db c) d"
  shows "truthful ck (c\<lparr>c_db := d\<rparr>)"
proof -
  have "d = rollback (c_db c) d"
    using assms(2) by (cases "c_db c"; cases d) (simp add: same_tables_def rollback_def)
  then have "db_ok ck d"
    using db_ok_rollback [of ck "c_db c" d] assms(1,3) by (simp add: truthful_def c_ok_def)
  moreover from this have "outbox_ids_ok d" by (simp add: db_ok_def)
  ultimately show ?thesis
    using assms(1,2)
    by (auto simp: truthful_def c_ok_def published_sent_def told_same_tables topic_told_def flags_told_def
        same_tables_def sold_out_in_def select_inventory_def told_def)
qed

text \<open>A step that only draws keys.\<close>

lemma contention_inv_draw:
  assumes inv: "contention_inv ck rnd req s" and d: "same_tables (cn_db s) d" "counters_grow (cn_db s) d"
    and ok: "tx_ok ck (rnd i) (req i) d p" and lock: "holds_row p \<Longrightarrow> lock_free req i s"
    and rows: "\<And>j row r. j \<noteq> i \<Longrightarrow> pending_row p = Some row \<Longrightarrow> pending_row (cn_phase s j) = Some r \<Longrightarrow> apart ck row r"
    and messages: "\<And>j m m'. j \<noteq> i \<Longrightarrow> pending_message p = Some m \<Longrightarrow> pending_message (cn_phase s j) = Some m' \<Longrightarrow>
        o_outboxEventId m \<noteq> o_outboxEventId m'"
  shows "contention_inv ck rnd req (put_phase i p (put_db d s))"
proof (rule contention_inv_put [OF inv])
  show "truthful ck (cn_c (put_db d s))"
    using inv d by (simp add: contention_inv_def cn_db_def truthful_counters)
  show "undisturbed ck (req j) (cn_phase s j) (cn_db s) (cn_db (put_db d s))" for j
    using d by (simp add: undisturbed_counters)
qed (use ok lock rows messages in simp_all)

lemma put_db_same [simp]: "put_db (cn_db s) s = s"
  by (simp add: put_db_def cn_db_def)

lemma contention_inv_local:
  assumes "contention_inv ck rnd req s" "tx_ok ck (rnd i) (req i) (cn_db s) p" "holds_row p \<Longrightarrow> lock_free req i s"
    and "pending_row p = None" "pending_message p = None"
  shows "contention_inv ck rnd req (put_phase i p s)"
  using contention_inv_draw [OF assms(1), of "cn_db s" i p] assms by simp

section \<open>INSERT\<close>

lemma clash_code_taken:
  "\<not> code_taken ck (uc_code c) d \<and> \<not> has_row (uc_userId c) (uc_couponTypeId c) d \<longleftrightarrow>
   (\<forall>r \<in> set (d_user_coupons d). \<not> clash ck c r)"
  by (auto simp: code_taken_def has_row_def clash_def)

lemma row_of_simps [simp]:
  "uc_userId (row_of request w) = rq_userId request" "uc_couponTypeId (row_of request w) = rq_couponTypeId request"
  "uc_eventId (row_of request w) = rq_eventId request" "uc_status (row_of request w) = tw_status w"
  by (simp_all add: row_of_def result_row_def)

lemma tx_save_nil: "tx_save ck request w (d, []) = user_coupon_insert ck (row_of request w) (d, [])"
  by (simp add: tx_save_def saveResult_def row_of_def)

lemma add_row_drawn:
  "same_tables d (rollback d (add_row c d))" "counters_grow d (rollback d (add_row c d))"
  "d_next_user_coupon (rollback d (add_row c d)) = d_next_user_coupon d + 1"
  "same_tables d (rollback d (bump d))" "counters_grow d (rollback d (bump d))"
  by (simp_all add: counters_grow_def add_row_def bump_def)

lemma fresh_coupon_id:
  assumes "coupon_ids_ok d" "d_next_user_coupon d \<le> k"
  shows "dec k \<notin> u_userCouponId ` set (d_user_coupons d)"
  using assms by (auto simp: coupon_ids_ok_def)

lemma contention_inv_save:
  assumes inv: "contention_inv ck rnd req s" and p: "cn_phase s i = Tx_Saving w"
    and free: "keys_free ck (row_of (req i) w) i s"
    and run: "tx_save ck (req i) w (cn_db s, []) = (Inr (), d, [])"
  shows "contention_inv ck rnd req (put_phase i (Tx_Saved w (last (d_user_coupons d)))
    (put_db (rollback (cn_db s) d) s))"
proof -
  let ?d = "cn_db s" and ?row = "with_key (dec (d_next_user_coupon (cn_db s))) (UserCouponMapper_toInsertValues (row_of (req i) w))"
  have d: "d = add_row (row_of (req i) w) ?d" and ins: "\<not> code_taken ck (uc_code (row_of (req i) w)) ?d"
      "\<not> has_row (rq_userId (req i)) (rq_couponTypeId (req i)) ?d" "known_type (rq_couponTypeId (req i)) ?d"
    using run by (auto simp: tx_save_nil user_coupon_insert_nil split: if_splits)
  have last: "last (d_user_coupons d) = ?row" by (simp add: d)
  have ok: "truthful ck (cn_c s)" "decided (rnd i) (req i) w ?d"
    and lock: "holds_row (Tx_Saving w) \<Longrightarrow> lock_free req i s"
    using inv_at(1) [OF inv] inv_at(2,3) [OF inv, of i] by (simp_all only: p tx_ok.simps)
  have ids: "coupon_ids_ok ?d" using ok(1) by (simp add: truthful_def c_ok_def db_ok_def cn_db_def)
  have placed: "placed ck (req i) w ?row (rollback ?d d)"
    using ins fresh_coupon_id [OF ids order_refl] clash_code_taken [of ck "row_of (req i) w" ?d]
      add_row_drawn(3) [of ?d "row_of (req i) w", unfolded d [symmetric]]
    by (auto simp: placed_def known_type_def intro!: exI [of _ "d_next_user_coupon ?d"])
  show ?thesis
    unfolding last
  proof (rule contention_inv_draw [OF inv])
    show "same_tables ?d (rollback ?d d)" "counters_grow ?d (rollback ?d d)"
      by (simp_all only: d add_row_drawn)
    show "tx_ok ck (rnd i) (req i) (rollback ?d d) (Tx_Saved w ?row)"
      using placed decided_stable [OF ok(2)] by (simp add: stock_of_def select_inventory_def)
    show "lock_free req i s" if "holds_row (Tx_Saved w ?row)" using lock that by simp
    show "apart ck row r" if j: "j \<noteq> i" "pending_row (Tx_Saved w ?row) = Some row" "pending_row (cn_phase s j) = Some r" for j row r
    proof -
      have "tx_ok ck (rnd j) (req j) ?d (cn_phase s j)" by (rule inv_at(2) [OF inv])
      with j(3) have "\<exists>w'. placed ck (req j) w' r ?d" by (cases "cn_phase s j") auto
      then have "u_userCouponId r \<noteq> dec (d_next_user_coupon ?d)" by (auto simp: placed_def)
      moreover have "\<not> clash ck (row_of (req i) w) r" using free j by (simp add: keys_free_def)
      ultimately have "apart ck ?row r" by (rule clash_apart(1) [OF refl])
      with j(2) show ?thesis by simp
    qed
  qed simp
qed

lemma contention_inv_save_error:
  assumes inv: "contention_inv ck rnd req s"
    and run: "tx_save ck (req i) w (cn_db s, []) = (Inl e, d, [])"
  shows "contention_inv ck rnd req (put_phase i (Tx_Ended (Inl e)) (put_db (rollback (cn_db s) d) s))"
proof (rule contention_inv_draw [OF inv])
  from run have d: "d = bump (cn_db s)" and e: "duplicate_error e \<longrightarrow> settled (req i) (cn_db s)"
    by (auto simp: tx_save_nil user_coupon_insert_nil duplicate_error_def dup_entry_def settled_def split: if_splits)
  show "same_tables (cn_db s) (rollback (cn_db s) d)" "counters_grow (cn_db s) (rollback (cn_db s) d)"
    by (simp_all only: d add_row_drawn)
  show "tx_ok ck (rnd i) (req i) (rollback (cn_db s) d) (Tx_Ended (Inl e))"
    using e by (simp add: settled_def has_row_def)
qed simp_all

lemma contention_inv_announce:
  assumes inv: "contention_inv ck rnd req s" and p: "cn_phase s i = Tx_Saved w row"
    and run: "tx_announce (req i) w (cn_db s, []) = (Inr (), d, [])"
  shows "contention_inv ck rnd req (put_phase i (Tx_Announced w row (last (d_outbox d)))
    (put_db (rollback (cn_db s) d) s))"
proof -
  let ?d = "cn_db s" and ?p = "toResultPayload (req i) (result_status_of (tw_status w)) (tw_code w) (tw_now w)"
  have d: "d = announce ?p ?d"
    using run by (simp add: tx_announce_def saveOutbox_def outbox_append_def announce_def)
  let ?m = "\<lparr>o_outboxEventId = dec (d_next_outbox ?d), o_aggregateId = rs_requestId ?p,
     o_eventType = EVENT_TYPE_ISSUE_RESULT, o_payload = JSON_stringify (result_json ?p),
     o_status = OB_PENDING, o_createdAt = d_now ?d, o_publishedAt = None\<rparr>"
  have m: "last (d_outbox d) = ?m" and grow: "counters_grow ?d (rollback ?d d)"
      "d_next_outbox d = d_next_outbox ?d + 1"
    by (simp_all add: d announce_def sql_insert_outbox_def counters_grow_def)
  have ok: "truthful ck (cn_c s)" "tx_ok ck (rnd i) (req i) ?d (Tx_Saved w row)"
    using inv_at(1) [OF inv] inv_at(2) [OF inv, of i] by (simp_all only: p)
  have ids: "outbox_ids_ok ?d" using ok(1) by (simp add: truthful_def c_ok_def db_ok_def cn_db_def)
  have "dec (d_next_outbox ?d) \<notin> o_outboxEventId ` set (d_outbox ?d)"
    using ids by (auto simp: outbox_ids_ok_def)
  then have "worded (req i) w ?m (rollback ?d d)"
    by (auto simp: worded_def grow erase_message_def toResultPayload_def intro!: exI [of _ "d_next_outbox ?d"])
  moreover have "tx_ok ck (rnd i) (req i) (rollback ?d d) (Tx_Saved w row)"
    by (rule tx_ok_undisturbed [OF ok(2) undisturbed_counters]) (simp_all add: grow)
  ultimately have new: "tx_ok ck (rnd i) (req i) (rollback ?d d) (Tx_Announced w row ?m)" by simp
  show ?thesis
    unfolding m
  proof (rule contention_inv_draw [OF inv _ grow(1) new])
    show "lock_free req i s" if "holds_row (Tx_Announced w row ?m)" using that inv_at(3) [OF inv, of i] by (simp add: p)
    show "apart ck r r'" if "j \<noteq> i" "pending_row (Tx_Announced w row ?m) = Some r" "pending_row (cn_phase s j) = Some r'" for j r r'
      using inv that unfolding contention_inv_def by (metis p pending_row.simps(1,2))
    show "o_outboxEventId m \<noteq> o_outboxEventId m'"
      if j: "j \<noteq> i" "pending_message (Tx_Announced w row ?m) = Some m" "pending_message (cn_phase s j) = Some m'" for j m m'
    proof -
      have "tx_ok ck (rnd j) (req j) ?d (cn_phase s j)" by (rule inv_at(2) [OF inv])
      with j(3) have "\<exists>w. worded (req j) w m' ?d" by (cases "cn_phase s j") auto
      with j(2) show ?thesis by (auto simp: worded_def)
    qed
  qed simp
qed

section \<open>COMMIT\<close>

text \<open>The whole transaction run alone on the tables it is committed to.\<close>

lemma commit_spec:
  assumes ok: "tx_ok ck rnd request d (Tx_Announced w row msg)"
  obtains d1 k where "issue_spec ck (tw_now w) rnd request d = (Inr (tx_check w), d1)"
    "erase_keys (tx_commit w row msg d) = erase_keys d1"
    "d_inventories (tx_commit w row msg d) = d_inventories d1"
    "row = with_key (dec k) (UserCouponMapper_toInsertValues (row_of request w))"
proof -
  from ok obtain k where dec: "decided rnd request w d"
    and k: "row = with_key (dec k) (UserCouponMapper_toInsertValues (row_of request w))"
    and free: "\<not> code_taken ck (uc_code (row_of request w)) d" "\<not> has_row (rq_userId request) (rq_couponTypeId request) d"
      "known_type (rq_couponTypeId request) d"
    and msg: "worded request w msg d"
    using clash_code_taken [of ck "row_of request w" d] by (auto simp: placed_def)
  let ?p = "toResultPayload request (result_status_of (tw_status w)) (tw_code w) (tw_now w)"
  have rec: "record_result ck request (tw_status w) (tw_code w) (tw_now w) (tx_check w) dd =
      (Inr (tx_check w), announce ?p (add_row (row_of request w) dd))"
    if "d_user_coupons dd = d_user_coupons d" "d_coupon_types dd = d_coupon_types d" for dd
    using free that
    by (simp add: record_result_def user_coupon_insert_nil row_of_def code_taken_def has_row_def known_type_def
        result_row_def)
  have same: "erase_keys (tx_commit w row msg d) = erase_keys (announce ?p (add_row (row_of request w) dd)) \<and>
      d_inventories (tx_commit w row msg d) = d_inventories (announce ?p (add_row (row_of request w) dd))"
    if "dd = (case tw_written w of None \<Rightarrow> d | Some inventory \<Rightarrow> sql_update_available inventory d)" for dd
    using msg unfolding that k
    by (cases d; cases "tw_written w")
      (simp_all add: tx_commit_def announce_def sql_insert_outbox_def add_row_def bump_def erase_keys_def
        sql_update_available_def worded_def erase_message_def toResultPayload_def erase_row_def with_key_def
        user_coupon_values.defs)
  have "\<exists>d1. issue_spec ck (tw_now w) rnd request d = (Inr (tx_check w), d1) \<and>
      erase_keys (tx_commit w row msg d) = erase_keys d1 \<and> d_inventories (tx_commit w row msg d) = d_inventories d1"
  proof (cases "tw_status w")
    case UC_SUCCESS
    with dec obtain inv where inv: "stock_of request d = Some inv" "0 < i_availableCount inv"
        "tw_written w = Some (snd (decrement (CouponTypeInventoryMapper_toDomain inv)))"
      and code: "tw_code w = Some (CouponCode_generate rnd)" and at: "runs_at request (tw_now w) d"
      by (auto simp: decided_def)
    have "issue_spec ck (tw_now w) rnd request d =
        record_result ck request (tw_status w) (tw_code w) (tw_now w) (tx_check w) (take_one inv d)"
      using inv(1,2) at free(2) by (auto simp: issue_spec_def stock_of_def runs_at_def UC_SUCCESS code tx_check_def)
    also have "\<dots> = (Inr (tx_check w), announce ?p (add_row (row_of request w) (take_one inv d)))"
      by (rule rec) (simp_all add: take_one_def sql_update_available_def)
    finally show ?thesis using same [of "take_one inv d"] by (auto simp: inv(3) take_one_def)
  next
    case UC_SOLD_OUT
    with dec have w: "tw_code w = None" "tw_written w = None" and at: "runs_at request (tw_now w) d"
      and inv: "\<exists>inv. stock_of request d = Some inv \<and> i_availableCount inv \<le> 0" by (auto simp: decided_def)
    have "issue_spec ck (tw_now w) rnd request d =
        record_result ck request (tw_status w) (tw_code w) (tw_now w) (tx_check w) d"
      using inv at free(2) w by (auto simp: issue_spec_def stock_of_def runs_at_def UC_SOLD_OUT tx_check_def)
    with rec [of d] same [of d] w(2) show ?thesis by auto
  next
    case UC_FAILED
    with dec have w: "tw_code w = None" "tw_written w = None" and at: "rests_at request (tw_now w) d"
      by (auto simp: decided_def)
    have "issue_spec ck (tw_now w) rnd request d =
        record_result ck request (tw_status w) (tw_code w) (tw_now w) (tx_check w) d"
      using at free(2) w by (auto simp: issue_spec_def rests_at_def UC_FAILED tx_check_def)
    with rec [of d] same [of d] w(2) show ?thesis by auto
  next
    case UC_USED
    with dec show ?thesis by (simp add: decided_def)
  qed
  with k that show ?thesis by blast
qed

lemma tx_commit_tables [simp]:
  "d_user_coupons (tx_commit w row msg d) = d_user_coupons d @ [row]"
  "d_outbox (tx_commit w row msg d) = d_outbox d @ [msg]"
  "d_events (tx_commit w row msg d) = d_events d" "d_coupon_types (tx_commit w row msg d) = d_coupon_types d"
  "d_next_user_coupon (tx_commit w row msg d) = d_next_user_coupon d"
  "d_next_outbox (tx_commit w row msg d) = d_next_outbox d"
  by (cases "tw_written w"; simp add: tx_commit_def sql_update_available_def)+

lemma commit_moves:
  assumes true: "truthful ck c" and rnd: "valid_rnd rnd"
    and ok: "tx_ok ck rnd request (c_db c) (Tx_Announced w row msg)"
  shows "moves ck (\<lambda>p. p = request) c (c\<lparr>c_db := tx_commit w row msg (c_db c)\<rparr>)"
proof -
  let ?d = "c_db c" and ?d' = "tx_commit w row msg (c_db c)"
  from ok obtain d1 k where spec: "issue_spec ck (tw_now w) rnd request ?d = (Inr (tx_check w), d1)"
    and erase: "erase_keys ?d' = erase_keys d1" and inv: "d_inventories ?d' = d_inventories d1"
    and row: "row = with_key (dec k) (UserCouponMapper_toInsertValues (row_of request w))"
    by (rule commit_spec)
  have db: "db_ok ck ?d" and pub: "published_sent c" using true by (simp_all add: truthful_def c_ok_def)
  note ev = issue_spec_evolves [OF rnd db spec]
  from ok have placed: "placed ck request w row ?d" and msg: "worded request w msg ?d" by simp_all
  have ids: "coupon_ids_ok ?d'"
    using db placed by (auto simp: db_ok_def coupon_ids_ok_def placed_def)
  have ids': "outbox_ids_ok ?d'" using db msg by (auto simp: db_ok_def outbox_ids_ok_def worded_def)
  have asked: "asked_by request row" by (simp add: asked_by_def row)
  have sold: "sold_out_in e t ?d \<Longrightarrow> sold_out_in e t ?d'" for e t
    using evolvesD(4) [OF ev(1), of e t] inv by (simp add: sold_out_in_def select_inventory_def)
  have "o_status (erase_message msg) = OB_PENDING" using msg by (simp only: worded_def outbox_row.simps)
  then have pending: "o_status msg = OB_PENDING" by simp
  show ?thesis
  proof (rule movesI [OF true])
    show "evolves (\<lambda>p. p = request) (c_db c) (c_db (c\<lparr>c_db := ?d'\<rparr>))"
      using asked sold by (auto simp: evolves_def intro: became_refl)
    have "db_ok ck ?d'" using issue_spec_ok [OF db spec] erase ids ids' by (rule db_ok_rekey)
    with ids' pending pub show "c_ok ck (c\<lparr>c_db := ?d'\<rparr>)"
      by (auto simp: c_ok_def published_sent_def)
    show "told (c_db c) \<Longrightarrow> told (c_db (c\<lparr>c_db := ?d'\<rparr>))"
      using told_rekey [OF ev(2) erase] by simp
  qed auto
qed

lemma stock_of_commit:
  assumes keys: "inventory_keys_ok d" and dec: "decided rnd request w d"
    and other: "tw_status w = UC_FAILED \<or> lock_of request' \<noteq> lock_of request"
  shows "stock_of request' (tx_commit w row msg d) = stock_of request' d"
proof (cases "tw_written w")
  case None
  then show ?thesis by (simp add: tx_commit_def stock_of_def select_inventory_def)
next
  case (Some inventory)
  with dec have s: "tw_status w = UC_SUCCESS" by (cases "tw_status w") (auto simp: decided_def)
  with dec Some obtain x where x: "stock_of request d = Some x" "0 < i_availableCount x"
      "inventory = snd (decrement (CouponTypeInventoryMapper_toDomain x))"
    by (auto simp: decided_def)
  from x(1) have mem: "x \<in> set (d_inventories d)" and "i_eventId x = dec (rq_eventId request)"
      "i_couponTypeId x = dec (rq_couponTypeId request)"
    by (auto simp: stock_of_def select_inventory_def find_Some_iff)
  with other s have ne: "\<not> (i_eventId x = dec (rq_eventId request') \<and> i_couponTypeId x = dec (rq_couponTypeId request'))"
    by (auto simp: lock_of_def)
  have "d_inventories (tx_commit w row msg d) = d_inventories (take_one x d)"
    using Some x(3) by (simp add: tx_commit_def take_one_def sql_update_available_def)
  also have "\<dots> = map (\<lambda>i. if i = x then i\<lparr>i_availableCount := i_availableCount i - 1\<rparr> else i) (d_inventories d)"
    by (rule inventories_take_one [OF keys mem x(2)])
  finally have eq: "stock_of request' (tx_commit w row msg d) =
      map_option (\<lambda>i. if i = x then i\<lparr>i_availableCount := i_availableCount i - 1\<rparr> else i) (stock_of request' d)"
    by (simp add: stock_of_def select_inventory_def find_map_same)
  have "stock_of request' d \<noteq> Some x" using ne by (auto simp: stock_of_def select_inventory_def find_Some_iff)
  with eq show ?thesis by (cases "stock_of request' d") auto
qed

lemma contention_inv_commit:
  assumes inv: "contention_inv ck rnd req s" and p: "cn_phase s i = Tx_Announced w row msg"
    and rnd: "valid_rnd (rnd i)" and r: "r = Inr b \<or> r = Inl mysql_down"
  shows "contention_inv ck rnd req (put_phase i (Tx_Ended r) (put_db (tx_commit w row msg (cn_db s)) s))"
proof (rule contention_inv_put [OF inv])
  let ?d = "cn_db s" and ?d' = "tx_commit w row msg (cn_db s)"
  have ok: "tx_ok ck (rnd i) (req i) ?d (Tx_Announced w row msg)" using inv_at(2) [OF inv, of i] by (simp only: p)
  then have dec: "decided (rnd i) (req i) w ?d" and placed: "placed ck (req i) w row ?d" by simp_all
  note mv = commit_moves [OF inv_at(1) [OF inv] rnd, unfolded cn_db_def [symmetric], OF ok]
  then show "truthful ck (cn_c (put_db ?d' s))" by (simp add: moves_def)
  have keys: "inventory_keys_ok ?d"
    using inv_at(1) [OF inv] by (simp add: truthful_def c_ok_def db_ok_def cn_db_def)
  fix j assume j: "j \<noteq> i"
  have stock: "stock_of (req j) ?d' = stock_of (req j) ?d" if h: "holds_row (cn_phase s j)"
  proof (rule stock_of_commit [OF keys dec])
    show "tw_status w = UC_FAILED \<or> lock_of (req j) \<noteq> lock_of (req i)"
    proof (cases "lock_of (req i) = lock_of (req j)")
      case True
      with inv_at(3) [OF inv h] j have "\<not> holds_row (cn_phase s i)" by (simp add: lock_free_def)
      then show ?thesis by (simp add: p)
    qed simp
  qed
  have rows: "apart ck row' row" if "pending_row (cn_phase s j) = Some row'" for row'
    using inv that j unfolding contention_inv_def by (metis p pending_row.simps(2))
  have messages: "o_outboxEventId msg \<noteq> o_outboxEventId msg'" if "pending_message (cn_phase s j) = Some msg'" for msg'
    using inv that j unfolding contention_inv_def by (metis p pending_message.simps(1))
  show "undisturbed ck (req j) (cn_phase s j) ?d (cn_db (put_db ?d' s))"
    using stock rows messages by (auto simp: undisturbed_def counters_grow_def intro: became_refl)
next
  have "settled (req i) (tx_commit w row msg (cn_db s))"
  proof -
    have "tx_ok ck (rnd i) (req i) (cn_db s) (Tx_Announced w row msg)" using inv_at(2) [OF inv, of i] by (simp only: p)
    then obtain k where "row = with_key (dec k) (UserCouponMapper_toInsertValues (row_of (req i) w))"
      by (auto simp: placed_def)
    then show ?thesis by (simp add: settled_def has_row_def same_user_type_def)
  qed
  with r show "tx_ok ck (rnd i) (req i) (cn_db (put_db (tx_commit w row msg (cn_db s)) s)) (Tx_Ended r)"
    by (auto simp: duplicate_error_def mysql_down_def split: exn.splits)
qed simp_all

section \<open>Everything else\<close>

text \<open>A change that keeps the rows, their keys and the stock.\<close>

definition besides :: "cdb \<Rightarrow> cdb \<Rightarrow> bool" where
  "besides d d' \<longleftrightarrow> d_events d' = d_events d \<and> d_coupon_types d' = d_coupon_types d \<and>
     d_inventories d' = d_inventories d \<and> counters_grow d d' \<and>
     (\<exists>f. d_user_coupons d' = map f (d_user_coupons d) \<and> (\<forall>r \<in> set (d_user_coupons d). became r (f r))) \<and>
     (\<exists>g. d_outbox d' = map g (d_outbox d) \<and> (\<forall>m. o_outboxEventId (g m) = o_outboxEventId m))"

lemma besides_undisturbed:
  assumes "besides d d'"
  shows "undisturbed ck request p d d'"
proof -
  from assms obtain f g where f: "d_user_coupons d' = map f (d_user_coupons d)" "\<forall>r \<in> set (d_user_coupons d). became r (f r)"
    and g: "d_outbox d' = map g (d_outbox d)" "\<forall>m. o_outboxEventId (g m) = o_outboxEventId m"
    by (auto simp: besides_def)
  from assms f g show ?thesis
    by (auto simp: undisturbed_def besides_def stock_of_def select_inventory_def)
qed

lemma besides_tables:
  assumes "same_tables d d'" "counters_grow d d'"
  shows "besides d d'"
  using assms unfolding besides_def same_tables_def
  by (intro conjI exI [of _ "\<lambda>x. x"]) (simp_all add: became_refl)

lemma besides_refl [simp]: "besides d d"
  by (rule besides_tables) simp_all

lemma besides_replace_row:
  assumes "u_status row = UC_SUCCESS"
  shows "besides d (replace_row row (use_row now row) d)"
  unfolding besides_def
proof (intro conjI)
  show "\<exists>f. d_user_coupons (replace_row row (use_row now row) d) = map f (d_user_coupons d) \<and>
      (\<forall>r \<in> set (d_user_coupons d). became r (f r))"
    by (rule exI [of _ "\<lambda>r. if r = row then use_row now row else r"])
      (simp add: replace_row_def became_def assms)
  show "\<exists>g. d_outbox (replace_row row (use_row now row) d) = map g (d_outbox d) \<and>
      (\<forall>m. o_outboxEventId (g m) = o_outboxEventId m)"
    by (rule exI [of _ "\<lambda>m. m"]) (simp add: replace_row_def)
qed (simp_all add: replace_row_def counters_grow_def)

lemma besides_marked: "besides d (snd (sql_mark_published ids now d))"
  unfolding besides_def
proof (intro conjI)
  show "\<exists>f. d_user_coupons (snd (sql_mark_published ids now d)) = map f (d_user_coupons d) \<and>
      (\<forall>r \<in> set (d_user_coupons d). became r (f r))"
    by (rule exI [of _ "\<lambda>m. m"]) simp
  show "\<exists>g. d_outbox (snd (sql_mark_published ids now d)) = map g (d_outbox d) \<and>
      (\<forall>m. o_outboxEventId (g m) = o_outboxEventId m)"
    by (rule exI [of _ "mark_row ids now"]) (simp add: d_outbox_mark)
qed (simp_all add: counters_grow_def sql_mark_published_def)

lemma counters_transaction:
  assumes "keeps_inv (counters_at_least a b) m"
  shows "keeps_inv (counters_at_least a b) (transaction m)"
proof (rule keeps_invI)
  fix s fs assume s: "counters_at_least a b s"
  have m: "m (s, gs) = (q, s', r) \<Longrightarrow> counters_at_least a b s'" for gs q s' r
    using keeps_invD [OF assms s, of gs] by simp
  have rb: "counters_at_least a b (rollback s s') \<longleftrightarrow> counters_at_least a b s'" for s' by (simp add: counters_at_least_def)
  show "counters_at_least a b (final (transaction m (s, fs)))"
    by (cases rule: transaction_cases [where m = m and db = s and fs = fs]) (use s m rb in auto)
qed

lemma redeem_besides:
  assumes "db_ok ck d"
  shows "besides d (final (redeem ck now command (d, fs)))"
proof -
  let ?d = "final (redeem ck now command (d, fs))"
  have "keeps_inv (counters_at_least (d_next_user_coupon d) (d_next_outbox d)) (redeem ck now command)"
    unfolding redeem_def redeem_body_def redeem_update_def by (intro counters_transaction keeps)
  from keeps_invD [OF this, of d fs] have grow: "counters_grow d ?d"
    by (simp add: counters_at_least_def counters_grow_def)
  have spec: "besides d d'" if "redeem_spec ck now command d = (Inr x, d')" for x d'
    using that besides_replace_row by (auto simp: redeem_spec_def split: option.splits if_splits)
  obtain q d' r where run: "redeem ck now command (d, fs) = (q, d', r)" by (cases "redeem ck now command (d, fs)")
  from redeem_refines [OF assms, of now command fs, unfolded run] have "same_tables d d' \<or> (\<exists>x. redeem_spec ck now command d = (Inr x, d'))"
    by (auto simp: committed_or_untouched_def split: sum.splits)
  with spec grow run show ?thesis by (auto intro: besides_tables)
qed

lemma poll_besides:
  assumes "set (c_topic c) \<subseteq> message_of ` set (d_outbox (c_db c))"
  shows "besides (c_db c) (c_db (final (poll n now (c, fs))))"
proof -
  have "c_db (final (poll n now (c, fs))) = c_db c \<or>
      (\<exists>ids. c_db (final (poll n now (c, fs))) = snd (sql_mark_published ids now (c_db c)))"
    using publishPending_moves [of "c\<lparr>c_polling := True\<rparr>" n now fs] assms
    by (auto simp: poll_def bnd_def try_catch_def Let_def split: prod.split sum.split)
  then show ?thesis using besides_marked by (metis besides_refl)
qed

lemma aside_moves:
  assumes "aside ck ttl c c'" "truthful ck c"
  shows "moves ck P c c' \<and> besides (c_db c) (c_db c')"
  using assms
proof (induction rule: aside.induct)
  case (aside_redeem c now command fs)
  then have "db_ok ck (c_db c)" by (simp add: truthful_def c_ok_def)
  with redeem_moves [OF aside_redeem, of P now command fs] show ?case by (simp add: redeem_besides on_db_apply)
next
  case (aside_poll c n now fs)
  then show ?case by (auto intro!: poll_moves poll_besides simp: truthful_def topic_told_def)
next
  case (aside_refresh c fs)
  then show ?case using reads_same_db(1) [of c ttl fs] by (auto intro!: read_moves reads_same_flags simp: same_db_def)
next
  case (aside_query c eventId fs)
  then show ?case using reads_same_db(2) [of c ttl eventId fs]
    by (auto intro!: read_moves reads_same_flags simp: same_db_def)
next
  case (aside_clock c t t')
  have "besides (c_db c) ((c_db c)\<lparr>d_now := t\<rparr>)" for t
    unfolding besides_def by (intro conjI exI [of _ "\<lambda>x. x"]) (simp_all add: counters_grow_def)
  with aside_clock show ?case by (simp add: clock_moves_true)
qed

lemma contention_inv_aside:
  assumes inv: "contention_inv ck rnd req s" and c: "aside ck ttl (cn_c s) c"
  shows "contention_inv ck rnd req (s\<lparr>cn_c := c\<rparr>)"
proof -
  note mv = aside_moves [OF c inv_at(1) [OF inv], where P = "\<lambda>_. False"]
  then have u: "undisturbed ck (req j) p (cn_db s) (cn_db (s\<lparr>cn_c := c\<rparr>))" for j p
    by (simp add: besides_undisturbed cn_db_def)
  have "contention_inv ck rnd req (put_phase 0 (cn_phase s 0) (s\<lparr>cn_c := c\<rparr>))"
  proof (rule contention_inv_put [OF inv])
    show "truthful ck (cn_c (s\<lparr>cn_c := c\<rparr>))" using mv by (simp add: moves_def)
    show "tx_ok ck (rnd 0) (req 0) (cn_db (s\<lparr>cn_c := c\<rparr>)) (cn_phase s 0)"
      by (rule tx_ok_undisturbed [OF inv_at(2) [OF inv] u])
    show "apart ck row r" if "j \<noteq> 0" "pending_row (cn_phase s 0) = Some row" "pending_row (cn_phase s j) = Some r" for j row r
      using inv that unfolding contention_inv_def by metis
    show "o_outboxEventId m \<noteq> o_outboxEventId m'" if "j \<noteq> 0" "pending_message (cn_phase s 0) = Some m"
        "pending_message (cn_phase s j) = Some m'" for j m m'
      using inv that unfolding contention_inv_def by metis
  qed (use u inv_at(3) [OF inv] in auto)
  moreover have "put_phase 0 (cn_phase s 0) (s\<lparr>cn_c := c\<rparr>) = s\<lparr>cn_c := c\<rparr>" by (simp add: put_phase_def)
  ultimately show ?thesis by simp
qed

section \<open>The invariant\<close>

lemma contention_inv_tx:
  assumes "tx_step ck ttl rnd req i s s'" "contention_inv ck rnd req s" "valid_rnd (rnd i)"
  shows "contention_inv ck rnd req s'"
  using assms
proof (induction rule: tx_step.induct)
  case (read_event s now r db)
  then show ?case using tx_read_ok [OF read_event(2)] by (intro contention_inv_local) auto
next
  case (lock_row s now r db)
  then have "runs_at (req i) now (cn_db s)" using inv_at(2) [OF lock_row(4), of i] by simp
  with lock_row show ?case using tx_lock_ok [OF lock_row(3)] by (intro contention_inv_local) auto
next
  case (decide s now inventory)
  then have "tx_ok ck (rnd i) (req i) (cn_db s) (Tx_Holding now inventory)" "lock_free req i s"
    using inv_at(2,3) [OF decide(2), of i] by simp_all
  with decide show ?case using tx_decide_ok by (intro contention_inv_local) auto
next
  case (save s w db)
  then show ?case by (intro contention_inv_save)
next
  case (save_error s w e db)
  then show ?case by (intro contention_inv_save_error)
next
  case (announce_result s w row db)
  then show ?case by (intro contention_inv_announce)
next
  case (commit s w row msg)
  then show ?case by (intro contention_inv_commit) simp_all
next
  case (give_up s e)
  then show ?case using inv_at(2) [OF give_up(2), of i] by (intro contention_inv_local) (auto split: if_splits)
next
  case (return s)
  then show ?case using inv_at(2) [OF return(2), of i] by (intro contention_inv_local) auto
next
  case (check_stock s fs r c fs')
  have db: "c_db c = cn_db s" and r: "r = Inr ()"
    using markSoldOutIfDepleted_cases [of ttl "rq_eventId (req i)" "rq_couponTypeId (req i)" "cn_c s" fs] check_stock(2)
    by (auto simp: cn_db_def)
  show ?case
  proof (rule contention_inv_put [OF check_stock(3)])
    have "moves ck (\<lambda>_. False) (cn_c s) c"
      using markSoldOutIfDepleted_cases [of ttl "rq_eventId (req i)" "rq_couponTypeId (req i)" "cn_c s" fs] check_stock(2)
        inv_at(1) [OF check_stock(3)]
      by (auto intro!: movesI [OF inv_at(1) [OF check_stock(3)]]
          simp: truthful_def c_ok_def published_sent_def flagged_set couponAvailable_key_inject)
    then show "truthful ck (cn_c (s\<lparr>cn_c := c\<rparr>))" by (simp add: moves_def)
    show "tx_ok ck (rnd i) (req i) (cn_db (s\<lparr>cn_c := c\<rparr>)) (Tx_Done r)"
      using inv_at(2) [OF check_stock(3), of i] check_stock(1) by (simp add: db)
  qed (simp_all add: db)
qed

lemma contention_inv_step:
  assumes "contention_step ck ttl rnd req s s'" "contention_inv ck rnd req s" "\<forall>i. valid_rnd (rnd i)"
  shows "contention_inv ck rnd req s'"
  using assms
proof (induction rule: contention_step.induct)
  case (of_transaction i s s')
  then show ?case using contention_inv_tx [OF of_transaction(1)] by simp
next
  case (of_fault i s s')
  from of_fault(1) show ?case
  proof cases
    case abort
    show ?thesis
      unfolding abort(1)
      by (rule contention_inv_local [OF of_fault(2)]) (simp_all add: duplicate_error_def mysql_down_def)
  next
    case (commit_lost w row msg)
    show ?thesis
      unfolding commit_lost(1) using of_fault(3)
      by (intro contention_inv_commit [OF of_fault(2) commit_lost(2)]) simp_all
  qed
next
  case (of_aside s c)
  then show ?case by (intro contention_inv_aside)
qed

lemma contention_inv_start: "contention_start ck s \<Longrightarrow> contention_inv ck rnd req s"
  by (simp add: contention_start_def contention_inv_def)

lemma contends_inv:
  assumes "contends ck ttl rnd req s0 s" "\<forall>i. valid_rnd (rnd i)"
  shows "contention_inv ck rnd req s"
proof -
  have "(contention_step ck ttl rnd req)\<^sup>*\<^sup>* s0 s" "contention_start ck s0"
    using assms(1) by (simp_all add: contends_def)
  then show ?thesis
    by (induction rule: rtranclp_induct) (auto intro: contention_inv_start contention_inv_step [OF _ _ assms(2)])
qed

end
