(* ===== verification/C_Contended.thy ===== *)
theory C_Contended imports C_Serial begin

text \<open>
  What holds when the issue transactions of any number of consumers contend for the same stock:
  serialisability, exact stock and one row per user in every reachable state, and freedom from
  deadlock: the transactions that have begun can always be brought to an end.
\<close>

section \<open>Progress\<close>

fun rank :: "tx_phase \<Rightarrow> nat" where
  "rank Tx_Waiting = 7"
| "rank (Tx_Active now) = 6"
| "rank (Tx_Holding now inventory) = 5"
| "rank (Tx_Saving w) = 4"
| "rank (Tx_Saved w row) = 3"
| "rank (Tx_Announced w row msg) = 2"
| "rank (Tx_Ended r) = 1"
| "rank (Tx_Done r) = 0"

definition begun :: "contention \<Rightarrow> nat \<Rightarrow> bool" where
  "begun s i \<longleftrightarrow> cn_phase s i \<noteq> Tx_Waiting"

lemma tx_step_phases:
  assumes "tx_step ck ttl rnd req i s s'"
  shows "rank (cn_phase s' i) < rank (cn_phase s i)" "j \<noteq> i \<Longrightarrow> cn_phase s' j = cn_phase s j"
proof -
  have "rank (cn_phase s' i) < rank (cn_phase s i) \<and> (j \<noteq> i \<longrightarrow> cn_phase s' j = cn_phase s j)"
    using assms
  proof (induction rule: tx_step.induct)
    case (read_event s now r db)
    then have "rank (or_failed r) < 7"
      by (auto simp: tx_read_def existsByUserIdAndCouponTypeId_def event_findById_def or_failed_def
          split: option.splits if_splits)
    with read_event show ?case by simp
  next
    case (lock_row s now r db)
    then have "rank (or_failed r) < 6"
      by (auto simp: tx_lock_def findForUpdate_def or_failed_def split: option.splits)
    with lock_row show ?case by simp
  next
    case (decide s now inventory)
    then show ?case by (simp add: tx_decide_def Let_def split_def)
  next
    case (check_stock s fs r c fs')
    then show ?case by (simp add: put_phase_def)
  qed simp_all
  then show "rank (cn_phase s' i) < rank (cn_phase s i)" "j \<noteq> i \<Longrightarrow> cn_phase s' j = cn_phase s j" by simp_all
qed

abbreviation moves_on where
  "moves_on ck ttl rnd req s i \<equiv> \<exists>s'. tx_step ck ttl rnd req i s s'"

lemma saved_moves_on:
  assumes "pending_row (cn_phase s i) = Some row"
  shows "moves_on ck ttl rnd req s i"
proof (cases "cn_phase s i")
  case (Tx_Saved w row)
  let ?p = "toResultPayload (req i) (result_status_of (tw_status w)) (tw_code w) (tw_now w)"
  have "tx_announce (req i) w (cn_db s, []) = (Inr (), announce ?p (cn_db s), [])"
    by (simp add: tx_announce_def saveOutbox_def outbox_append_def announce_def)
  with Tx_Saved show ?thesis by (blast intro: tx_step.announce_result)
next
  case (Tx_Announced w row msg)
  then show ?thesis by (blast intro: tx_step.commit)
qed (use assms in simp_all)

definition blocker :: "contention \<Rightarrow> nat \<Rightarrow> bool" where
  "blocker s i \<longleftrightarrow> begun s i \<and> (\<nexists>r. cn_phase s i = Tx_Done r)"

lemma saving_unblocked:
  assumes "cn_phase s i = Tx_Saving w"
  shows "\<exists>j. blocker s j \<and> moves_on ck ttl rnd req s j"
proof (cases "keys_free ck (row_of (req i) w) i s")
  case True
  obtain r d gs where run: "tx_save ck (req i) w (cn_db s, []) = (r, d, gs)"
    by (cases "tx_save ck (req i) w (cn_db s, [])")
  then have gs: "gs = []" by (auto simp: tx_save_nil user_coupon_insert_nil split: if_splits)
  have "blocker s i" using assms by (simp add: blocker_def begun_def)
  moreover have "moves_on ck ttl rnd req s i"
  proof (cases r)
    case (Inl e)
    with run gs show ?thesis using tx_step.save_error [where req = req and ck = ck, OF assms True] by blast
  next
    case (Inr u)
    with run gs show ?thesis using tx_step.save [where req = req and ck = ck, OF assms True] by auto
  qed
  ultimately show ?thesis by blast
next
  case False
  then obtain j row where "pending_row (cn_phase s j) = Some row" by (auto simp: keys_free_def)
  moreover from this have "blocker s j" by (cases "cn_phase s j") (auto simp: blocker_def begun_def)
  ultimately show ?thesis using saved_moves_on by blast
qed

lemma holder_unblocked:
  assumes "holds_row (cn_phase s i)"
  shows "\<exists>j. blocker s j \<and> moves_on ck ttl rnd req s j"
proof -
  have b: "blocker s i" using assms by (cases "cn_phase s i") (auto simp: blocker_def begun_def)
  show ?thesis
  proof (cases "cn_phase s i")
    case (Tx_Holding now inventory)
    with b show ?thesis by (blast intro: tx_step.decide)
  next
    case (Tx_Saving w)
    then show ?thesis by (rule saving_unblocked)
  next
    case (Tx_Saved w row)
    with b show ?thesis using saved_moves_on [of s i row] by auto
  next
    case (Tx_Announced w row msg)
    with b show ?thesis using saved_moves_on [of s i row] by auto
  qed (use assms in simp_all)
qed

text \<open>No deadlock: somebody who has begun can take his next step.\<close>

lemma contention_unblocked:
  assumes "blocker s i"
  shows "\<exists>j. blocker s j \<and> moves_on ck ttl rnd req s j"
proof (cases "cn_phase s i")
  case Tx_Waiting
  with assms show ?thesis by (simp add: blocker_def begun_def)
next
  case (Tx_Active now)
  show ?thesis
  proof (cases "lock_free req i s")
    case True
    obtain r d gs where run: "tx_lock now (req i) (cn_db s, []) = (r, d, gs)"
      by (cases "tx_lock now (req i) (cn_db s, [])")
    then have "gs = []" by (auto simp: tx_lock_def findForUpdate_def split: option.splits)
    with run have "moves_on ck ttl rnd req s i" using tx_step.lock_row [where req = req, OF Tx_Active True] by blast
    with assms show ?thesis by blast
  next
    case False
    then show ?thesis using holder_unblocked by (auto simp: lock_free_def)
  qed
next
  case (Tx_Holding now inventory)
  then show ?thesis using holder_unblocked [of s i] by simp
next
  case (Tx_Saving w)
  then show ?thesis by (rule saving_unblocked)
next
  case (Tx_Saved w row)
  with assms show ?thesis using saved_moves_on [of s i row] by auto
next
  case (Tx_Announced w row msg)
  with assms show ?thesis using saved_moves_on [of s i row] by auto
next
  case (Tx_Ended r)
  have "moves_on ck ttl rnd req s i"
  proof (cases r)
    case (Inl e)
    with Tx_Ended show ?thesis by (blast intro: tx_step.give_up)
  next
    case (Inr check)
    obtain q c gs where "markSoldOutIfDepleted ttl (rq_eventId (req i)) (rq_couponTypeId (req i)) (cn_c s, []) = (q, c, gs)"
      by (cases "markSoldOutIfDepleted ttl (rq_eventId (req i)) (rq_couponTypeId (req i)) (cn_c s, [])")
    with Inr Tx_Ended show ?thesis
      using tx_step.return [of s i ck ttl rnd req] tx_step.check_stock [of s i ttl req "[]" q c gs ck rnd]
      by (cases check) auto
  qed
  with assms show ?thesis by blast
next
  case (Tx_Done r)
  with assms show ?thesis by (simp add: blocker_def)
qed

definition finite_begun :: "contention \<Rightarrow> bool" where
  "finite_begun s \<longleftrightarrow> finite {i. begun s i}"

lemma finite_begun_step: "contention_step ck ttl rnd req s s' \<Longrightarrow> finite_begun s \<Longrightarrow> finite_begun s'"
proof (induction rule: contention_step.induct)
  case (of_transaction i s s')
  have "{j. begun s' j} \<subseteq> insert i {j. begun s j}"
    using tx_step_phases(2) [OF of_transaction(1)] by (auto simp: begun_def)
  with of_transaction(2) show ?case unfolding finite_begun_def by (metis finite.insertI finite_subset)
next
  case (of_fault i s s')
  have "{j. begun s' j} \<subseteq> insert i {j. begun s j}"
    using of_fault(1) by cases (auto simp: begun_def split: if_splits)
  with of_fault(2) show ?case unfolding finite_begun_def by (metis finite.insertI finite_subset)
next
  case (of_aside s c)
  then show ?case by (simp add: finite_begun_def begun_def)
qed

lemma contends_finite: "contends ck ttl rnd req s0 s \<Longrightarrow> finite {i. begun s i}"
proof -
  assume "contends ck ttl rnd req s0 s"
  then have "(contention_step ck ttl rnd req)\<^sup>*\<^sup>* s0 s" "contention_start ck s0" by (simp_all add: contends_def)
  then have "finite_begun s"
  proof (induction rule: rtranclp_induct)
    case base
    then show ?case by (simp add: contention_start_def finite_begun_def begun_def)
  qed (blast intro: finite_begun_step)
  then show ?thesis by (simp add: finite_begun_def)
qed

definition run_among :: "(string \<Rightarrow> string) \<Rightarrow> int \<Rightarrow> (nat \<Rightarrow> nat \<Rightarrow> nat) \<Rightarrow> (nat \<Rightarrow> issue_request) \<Rightarrow>
    nat set \<Rightarrow> contention \<Rightarrow> contention \<Rightarrow> bool" where
  "run_among ck ttl rnd req A = (\<lambda>s s'. \<exists>i \<in> A. tx_step ck ttl rnd req i s s')\<^sup>*\<^sup>*"

lemma drains:
  assumes "finite A" "\<forall>i. begun s i \<longleftrightarrow> i \<in> A"
  shows "\<exists>s'. run_among ck ttl rnd req A s s' \<and> (\<forall>i. i \<notin> A \<longrightarrow> cn_phase s' i = cn_phase s i) \<and>
    (\<forall>i \<in> A. \<exists>r. cn_phase s' i = Tx_Done r)"
  using assms(2)
proof (induction "\<Sum>i \<in> A. rank (cn_phase s i)" arbitrary: s rule: less_induct)
  case less
  show ?case
  proof (cases "\<exists>i. blocker s i")
    case False
    with less.prems show ?thesis by (intro exI [of _ s]) (auto simp: blocker_def run_among_def)
  next
    case True
    then obtain i s1 where i: "blocker s i" "tx_step ck ttl rnd req i s s1"
      using contention_unblocked [of s _ ck ttl rnd req] by blast
    with less.prems have A: "i \<in> A" by (simp add: blocker_def)
    note ph = tx_step_phases [OF i(2)]
    have "(\<Sum>j \<in> A. rank (cn_phase s1 j)) < (\<Sum>j \<in> A. rank (cn_phase s j))"
    proof (rule sum_strict_mono_ex1 [OF assms(1)])
      show "\<forall>j \<in> A. rank (cn_phase s1 j) \<le> rank (cn_phase s j)" using ph by (metis less_imp_le order_refl)
      show "\<exists>j \<in> A. rank (cn_phase s1 j) < rank (cn_phase s j)" using ph(1) A by blast
    qed
    moreover have "rank (cn_phase s i) \<le> 7" by (cases "cn_phase s i") simp_all
    with ph(1) have "begun s1 i" by (auto simp: begun_def)
    with ph(2) A less.prems have "\<forall>j. begun s1 j \<longleftrightarrow> j \<in> A" by (metis begun_def)
    ultimately obtain s' where s': "run_among ck ttl rnd req A s1 s'"
        "\<forall>i. i \<notin> A \<longrightarrow> cn_phase s' i = cn_phase s1 i" "\<forall>i \<in> A. \<exists>r. cn_phase s' i = Tx_Done r"
      using less.hyps by blast
    have "run_among ck ttl rnd req A s s'"
      using s'(1) i(2) A unfolding run_among_def by (blast intro: converse_rtranclp_into_rtranclp)
    with s'(2,3) ph(2) A show ?thesis by metis
  qed
qed

section \<open>Two users and one coupon\<close>

text \<open>Both transactions have read that their user has nothing; the first holds the inventory row and
  has written its results, the second waits for the row.\<close>

definition duel_request :: "nat \<Rightarrow> issue_request" where
  "duel_request i = (if i = 0 then request_of_user 11 else request_of_user 12)"

definition duel_work :: tx_work where
  "duel_work = \<lparr>tw_now = 6000, tw_status = UC_SUCCESS, tw_code = Some ''AAAAAAAAAAAA'',
     tw_written = Some \<lparr>in_id = 1, in_eventId = 7, in_couponTypeId = 3, in_totalInventory = 1, in_availableCount = 0\<rparr>\<rparr>"

definition duel_row :: user_coupon_row where
  "duel_row = with_key (dec 1) (UserCouponMapper_toInsertValues (row_of (request_of_user 11) duel_work))"

definition duel_message :: outbox_row where
  "duel_message = last (d_outbox (announce
     (toResultPayload (request_of_user 11) R_SUCCESS (Some ''AAAAAAAAAAAA'') 6000) (shop_db 1)))"

definition duel0 :: contention where
  "duel0 = \<lparr>cn_c = shop 1, cn_phase = (\<lambda>_. Tx_Waiting)\<rparr>"

definition duel2 :: contention where
  "duel2 = put_phase 1 (Tx_Active 6000) (put_phase 0 (Tx_Active 6000) duel0)"

definition duel4 :: contention where
  "duel4 = put_phase 0 (Tx_Saving duel_work) (put_phase 0 (Tx_Holding 6000
     \<lparr>in_id = 1, in_eventId = 7, in_couponTypeId = 3, in_totalInventory = 1, in_availableCount = 1\<rparr>) duel2)"

definition duel5 :: contention where
  "duel5 = put_phase 0 (Tx_Saved duel_work duel_row) (put_db (bump (shop_db 1)) duel4)"

definition duel6 :: contention where
  "duel6 = put_phase 0 (Tx_Announced duel_work duel_row duel_message)
     (put_db ((bump (shop_db 1))\<lparr>d_next_outbox := 2\<rparr>) duel5)"

definition duel7 :: contention where
  "duel7 = put_phase 0 (Tx_Ended (Inr True)) (put_db (tx_commit duel_work duel_row duel_message (cn_db duel6)) duel6)"

lemma zeros_code: "CouponCode_generate (\<lambda>_. 0) = ''AAAAAAAAAAAA''"
  by (simp add: CouponCode_generate_def CODE_LENGTH_def ALPHABET_def numeral_eq_Suc)

abbreviation duel_step where
  "duel_step i \<equiv> tx_step id 86400 (\<lambda>_ _. 0) duel_request i"

lemma duel_reads: "tx_read 6000 (duel_request i) (shop_db 1, []) = (Inr (Tx_Active 6000), shop_db 1, [])"
  by (simp add: tx_read_def existsByUserIdAndCouponTypeId_def event_findById_def shop_db_def shop_event_def
      duel_request_def request_of_user_def isActive_def EventMapper_toDomain_def)

lemma duel_01: "duel_step 0 duel0 (put_phase 0 (Tx_Active 6000) duel0)"
  using tx_step.read_event [of duel0 0 6000 duel_request "Inr (Tx_Active 6000)" "shop_db 1" id 86400 "\<lambda>_ _. 0"] duel_reads
  by (simp add: duel0_def cn_db_def or_failed_def shop_def)

lemma duel_12: "duel_step 1 (put_phase 0 (Tx_Active 6000) duel0) duel2"
  using tx_step.read_event [of "put_phase 0 (Tx_Active 6000) duel0" 1 6000 duel_request "Inr (Tx_Active 6000)" "shop_db 1" id 86400 "\<lambda>_ _. 0"] duel_reads
  by (simp add: duel0_def duel2_def cn_db_def or_failed_def shop_def put_phase_def)

lemma duel_24: "duel_step 0 duel2 (put_phase 0 (Tx_Holding 6000
     \<lparr>in_id = 1, in_eventId = 7, in_couponTypeId = 3, in_totalInventory = 1, in_availableCount = 1\<rparr>) duel2)"
    "duel_step 0 (put_phase 0 (Tx_Holding 6000
     \<lparr>in_id = 1, in_eventId = 7, in_couponTypeId = 3, in_totalInventory = 1, in_availableCount = 1\<rparr>) duel2) duel4"
proof -
  let ?inv = "\<lparr>in_id = 1, in_eventId = 7, in_couponTypeId = 3, in_totalInventory = 1, in_availableCount = 1\<rparr>"
  have "tx_lock 6000 (duel_request 0) (cn_db duel2, []) = (Inr (Tx_Holding 6000 ?inv), cn_db duel2, [])"
    by (simp add: tx_lock_def findForUpdate_def select_inventory_def duel2_def duel0_def cn_db_def shop_def
        shop_db_def shop_stock_def duel_request_def request_of_user_def CouponTypeInventoryMapper_toDomain_def put_phase_def)
  moreover have "lock_free duel_request 0 duel2" "cn_phase duel2 0 = Tx_Active 6000"
    by (auto simp: lock_free_def duel2_def duel0_def put_phase_def)
  ultimately show "duel_step 0 duel2 (put_phase 0 (Tx_Holding 6000 ?inv) duel2)"
    using tx_step.lock_row [of duel2 0 6000 duel_request "Inr (Tx_Holding 6000 ?inv)"] by (simp add: or_failed_def)
  have "tx_decide (\<lambda>_. 0) 6000 ?inv = Tx_Saving duel_work"
    by (simp add: tx_decide_def Let_def split_def duel_work_def zeros_code)
  then show "duel_step 0 (put_phase 0 (Tx_Holding 6000 ?inv) duel2) duel4"
    using tx_step.decide [of "put_phase 0 (Tx_Holding 6000 ?inv) duel2" 0 6000 ?inv id 86400 "\<lambda>_ _. 0" duel_request]
    by (simp add: duel4_def)
qed

lemma cn_db_duel: "cn_db duel4 = shop_db 1" "cn_db duel5 = bump (shop_db 1)"
    "cn_db duel6 = (bump (shop_db 1))\<lparr>d_next_outbox := 2\<rparr>"
  by (simp_all add: duel4_def duel2_def duel0_def duel5_def duel6_def) (simp add: cn_db_def shop_def)

lemma duel_45: "duel_step 0 duel4 duel5"
proof -
  let ?c = "row_of (request_of_user 11) duel_work"
  have c: "uc_couponTypeId ?c = 3" "uc_userId ?c = 11" "uc_code ?c = ''AAAAAAAAAAAA''"
      "rq_couponTypeId (request_of_user 11) = 3" "rq_userId (request_of_user 11) = 11"
    by (simp_all add: row_of_def result_row_def duel_work_def request_of_user_def)
  have "tx_save id (duel_request 0) duel_work (cn_db duel4, []) = (Inr (), add_row ?c (shop_db 1), [])"
    by (simp add: tx_save_nil cn_db_duel duel_request_def user_coupon_insert_nil code_taken_def has_row_def known_type_def
        c) (simp add: shop_db_def)
  moreover have "keys_free id (row_of (duel_request 0) duel_work) 0 duel4" "cn_phase duel4 0 = Tx_Saving duel_work"
    by (auto simp: keys_free_def duel4_def duel2_def duel0_def put_phase_def split: if_splits)
  moreover have "last (d_user_coupons (add_row ?c (shop_db 1))) = duel_row"
    by (simp add: duel_row_def) (simp add: shop_db_def)
  moreover have "rollback (cn_db duel4) (add_row ?c (shop_db 1)) = bump (shop_db 1)"
    by (simp add: cn_db_duel) (simp add: rollback_def add_row_def bump_def shop_db_def)
  ultimately show ?thesis
    using tx_step.save [of duel4 0 duel_work id duel_request "add_row ?c (shop_db 1)" 86400 "\<lambda>_ _. 0"]
    by (simp add: duel5_def)
qed

lemma duel_56: "duel_step 0 duel5 duel6"
proof -
  let ?p = "toResultPayload (request_of_user 11) R_SUCCESS (Some ''AAAAAAAAAAAA'') 6000"
  have "tx_announce (duel_request 0) duel_work (cn_db duel5, []) = (Inr (), announce ?p (cn_db duel5), [])"
    by (simp add: tx_announce_def saveOutbox_def outbox_append_def announce_def duel_request_def duel_work_def)
  moreover have "cn_phase duel5 0 = Tx_Saved duel_work duel_row" by (simp add: duel5_def)
  moreover have "last (d_outbox (announce ?p (cn_db duel5))) = duel_message"
    by (simp add: cn_db_duel duel_message_def announce_def sql_insert_outbox_def) (simp add: shop_db_def bump_def)
  moreover have "rollback (cn_db duel5) (announce ?p (cn_db duel5)) = cn_db duel6"
    by (simp add: cn_db_duel) (simp add: rollback_def announce_def sql_insert_outbox_def bump_def shop_db_def)
  ultimately show ?thesis
    using tx_step.announce_result [of duel5 0 duel_work duel_row duel_request "announce ?p (cn_db duel5)" id 86400 "\<lambda>_ _. 0"]
    by (simp add: duel6_def cn_db_duel)
qed

lemma duel_67: "duel_step 0 duel6 duel7"
proof -
  have "cn_phase duel6 0 = Tx_Announced duel_work duel_row duel_message" "tx_check duel_work"
    by (simp_all add: duel6_def tx_check_def duel_work_def)
  then show ?thesis
    using tx_step.commit [of duel6 0 duel_work duel_row duel_message id 86400 "\<lambda>_ _. 0" duel_request]
    by (simp add: duel7_def)
qed

lemma duel_contends: "contends id 86400 (\<lambda>_ _. 0) duel_request duel0 duel6"
proof -
  have "fresh_c (shop 1)"
    by (simp add: fresh_c_def opened_def shop_def shop_db_def shop_stock_def inventory_keys_ok_def flagged_def empty_redis_def)
  then have "contention_start id duel0" by (simp add: contention_start_def duel0_def fresh_truthful)
  moreover have "(contention_step id 86400 (\<lambda>_ _. 0) duel_request)\<^sup>*\<^sup>* duel0 duel6" (is "?R\<^sup>*\<^sup>* _ _")
    by (rule rtranclp.rtrancl_refl [where r = ?R] rtranclp.rtrancl_into_rtrancl [where r = ?R]
        of_transaction duel_01 duel_12 duel_24 duel_45 duel_56)+
  ultimately show ?thesis by (simp add: contends_def)
qed

lemma zeros_valid: "\<forall>i. valid_rnd ((\<lambda>_ _. 0) i)"
  by (simp add: valid_rnd_def ALPHABET_def)

section \<open>Properties\<close>

text \<open>C5. Issue transactions that interleave statement by statement are serialisable.  However the steps
  of any number of transactions, of redeems, polls, refreshes, queries and the clock interleave, and
  whichever statements fail or transactions are aborted, each step of a reachable state either leaves the
  issue tables alone (it concerns something else, or rolls back) or is the commit of one transaction, whose
  effect is then that of its specification run alone on the committed database of that moment, up to the
  surrogate keys that were drawn earlier.\<close>

theorem contended_issues_serialise:
  assumes "contends ck ttl rnd req s0 s" "\<forall>i. valid_rnd (rnd i)" "contention_step ck ttl rnd req s s'"
  shows "besides (cn_db s) (cn_db s') \<or>
    (\<exists>i now check d. issue_spec ck now (rnd i) (req i) (cn_db s) = (Inr check, d) \<and>
       erase_keys (cn_db s') = erase_keys d)"
proof -
  note inv = contends_inv [OF assms(1,2)]
  have saved: "besides (cn_db s) (rollback (cn_db s) d)" if "tx_save ck (req i) w (cn_db s, []) = (r, d, [])" for i w r d
    using that by (intro besides_tables)
      (auto simp: tx_save_nil user_coupon_insert_nil counters_grow_def add_row_def bump_def split: if_splits)
  have announced: "besides (cn_db s) (rollback (cn_db s) d)" if "tx_announce (req i) w (cn_db s, []) = (r, d, [])" for i w r d
    using that by (intro besides_tables)
      (auto simp: tx_announce_def saveOutbox_def outbox_append_def sql_insert_outbox_def counters_grow_def)
  have commits: "\<exists>i now check d. issue_spec ck now (rnd i) (req i) (cn_db s) = (Inr check, d) \<and>
       erase_keys (tx_commit w row msg (cn_db s)) = erase_keys d"
    if p: "cn_phase s i = Tx_Announced w row msg" for i w row msg
    by (rule commit_spec [OF inv_at(2) [OF inv, of i, unfolded p]]) (intro exI conjI)
  from assms(3) show ?thesis
  proof cases
    case (of_transaction i)
    from of_transaction show ?thesis
    proof cases
      case (save w d)
      with saved [OF save(4)] show ?thesis by simp
    next
      case (save_error w e d)
      with saved [OF save_error(4)] show ?thesis by simp
    next
      case (announce_result w row d)
      with announced [OF announce_result(3)] show ?thesis by simp
    next
      case (commit w row msg)
      with commits [OF commit(2)] show ?thesis by simp
    next
      case (check_stock fs r c fs')
      have "c_db c = cn_db s"
        using markSoldOutIfDepleted_cases [of ttl "rq_eventId (req i)" "rq_couponTypeId (req i)" "cn_c s" fs] check_stock(3)
        by (auto simp: cn_db_def)
      with check_stock(1) show ?thesis by simp
    qed simp_all
  next
    case (of_fault i)
    from of_fault show ?thesis
    proof cases
      case (commit_lost w row msg)
      with commits [OF commit_lost(2)] show ?thesis by simp
    qed simp
  next
    case (of_aside c)
    with aside_moves [OF of_aside(2) inv_at(1) [OF inv]] show ?thesis by (simp add: cn_db_def)
  qed
qed

theorem contended_issues_serialise_witness:
  "\<exists>i now check d. issue_spec id now (\<lambda>_. 0) (duel_request i) (cn_db duel6) = (Inr check, d) \<and>
     erase_keys (cn_db duel7) = erase_keys d"
proof -
  have "contention_step id 86400 (\<lambda>_ _. 0) duel_request duel6 duel7"
    by (rule of_transaction [OF duel_67])
  note c = contended_issues_serialise [OF duel_contends zeros_valid this]
  moreover have "\<not> besides (cn_db duel6) (cn_db duel7)"
  proof
    assume "besides (cn_db duel6) (cn_db duel7)"
    then have "length (d_user_coupons (cn_db duel7)) = length (d_user_coupons (cn_db duel6))"
      by (auto simp: besides_def)
    then show False by (simp add: duel7_def)
  qed
  ultimately show ?thesis by simp
qed

text \<open>C4. The lock on the inventory and the unique keys keep the promises of server-c under contention: in
  every reachable state of interleaved transactions no inventory is negative and available plus issued
  coupons are the total, no user has two rows for a coupon type, the codes differ, a finished transaction
  has left the row of its user and coupon type, and no two transactions hold the lock of one inventory
  row at once.\<close>

theorem contended_stock_is_exact:
  assumes "contends ck ttl rnd req s0 s" "\<forall>i. valid_rnd (rnd i)"
  shows "list_all (\<lambda>i. 0 \<le> i_availableCount i \<and>
      i_availableCount i + int (issued_count (i_eventId i) (i_couponTypeId i) (cn_db s)) = i_totalInventory i)
      (d_inventories (cn_db s)) \<and>
    one_per_user (cn_db s) \<and> codes_unique ck (cn_db s) \<and>
    (\<forall>i. cn_phase s i = Tx_Done (Inr ()) \<longrightarrow> has_row (rq_userId (req i)) (rq_couponTypeId (req i)) (cn_db s)) \<and>
    (\<forall>i j. i \<noteq> j \<and> lock_of (req i) = lock_of (req j) \<longrightarrow> \<not> (holds_row (cn_phase s i) \<and> holds_row (cn_phase s j)))"
proof -
  note inv = contends_inv [OF assms]
  have "db_ok ck (cn_db s)" using inv_at(1) [OF inv] by (simp add: truthful_def c_ok_def cn_db_def)
  then have "stock_ok (cn_db s)" "one_per_user (cn_db s)" "codes_unique ck (cn_db s)" by (simp_all add: db_ok_def)
  moreover have "has_row (rq_userId (req i)) (rq_couponTypeId (req i)) (cn_db s)" if "cn_phase s i = Tx_Done (Inr ())" for i
    using inv_at(2) [OF inv, of i] that by (simp add: settled_def)
  moreover have "\<not> (holds_row (cn_phase s i) \<and> holds_row (cn_phase s j))"
    if "i \<noteq> j" "lock_of (req i) = lock_of (req j)" for i j
    using inv_at(3) [OF inv, of j] that by (auto simp: lock_free_def)
  ultimately show ?thesis by (auto simp: stock_ok_def list_all_iff)
qed

theorem contended_stock_is_exact_witness:
  "one_per_user (cn_db duel6) \<and> \<not> holds_row (cn_phase duel6 1)"
proof -
  have "holds_row (cn_phase duel6 0)" by (simp add: duel6_def duel_work_def)
  moreover have "lock_of (duel_request 0) = lock_of (duel_request 1)"
    by (simp add: lock_of_def duel_request_def request_of_user_def)
  ultimately show ?thesis
    using contended_stock_is_exact [OF duel_contends zeros_valid] by (metis zero_neq_one)
qed



end
