(* ===== verification/C_Pollers.thy ===== *)
theory C_Pollers imports C_System begin

text \<open>
  The outbox poller as it runs: a poll gives up the event loop at every statement, and several
  instances of server-c may poll the same table.  Here a poll is cut at its SELECT, its sends and its UPDATE;
  between two of them anything may happen: the statements of other pollers, transactions of the
  consumer, redeem calls, a crash.
\<close>

section \<open>The cut\<close>

text \<open>What is left to send, and the identifiers whose send has returned.\<close>

datatype poller = Poll_Idle | Poll_Sending "outbox_record list" "int list"

record polling =
  pl_c :: cstate
  pl_at :: "nat \<Rightarrow> poller"
  pl_connected :: "nat \<Rightarrow> bool"

definition put_poller :: "nat \<Rightarrow> poller \<Rightarrow> bool \<Rightarrow> cstate \<Rightarrow> polling \<Rightarrow> polling" where
  "put_poller i p connected c s = s\<lparr>pl_c := c, pl_at := (pl_at s)(i := p), pl_connected := (pl_connected s)(i := connected)\<rparr>"

text \<open>Every instance has its own producer.\<close>

definition own :: "nat \<Rightarrow> polling \<Rightarrow> cstate" where
  "own i s = (pl_c s)\<lparr>c_connected := pl_connected s i\<rparr>"

inductive polling_step :: "(string \<Rightarrow> string) \<Rightarrow> polling \<Rightarrow> polling \<Rightarrow> bool" for ck :: "string \<Rightarrow> string" where
  selects: "pl_at s i = Poll_Idle \<Longrightarrow> on_db (findPending n) (pl_c s, fs) = (Inr evs, c', r) \<Longrightarrow> evs \<noteq> [] \<Longrightarrow>
    polling_step ck s (put_poller i (Poll_Sending evs []) (pl_connected s i) c' s)"
| sends: "pl_at s i = Poll_Sending (ev # evs) ids \<Longrightarrow>
    IssueResultPublisher_publish (or_aggregateId ev) (or_payload ev) (own i s, fs) = (Inr (), c', r) \<Longrightarrow>
    polling_step ck s (put_poller i (Poll_Sending evs (ids @ [or_id ev])) (c_connected c') c' s)"
| send_fails: "pl_at s i = Poll_Sending (ev # evs) ids \<Longrightarrow>
    IssueResultPublisher_publish (or_aggregateId ev) (or_payload ev) (own i s, fs) = (Inl e, c', r) \<Longrightarrow>
    polling_step ck s (put_poller i (Poll_Sending evs ids) (c_connected c') c' s)"
| marks: "pl_at s i = Poll_Sending [] ids \<Longrightarrow>
    polling_step ck s (put_poller i Poll_Idle (pl_connected s i) (final (on_db (markPublished ids now) (pl_c s, fs))) s)"
| dies: "polling_step ck s (put_poller i Poll_Idle False (pl_c s) s)"
| others: "c_step ck (pl_c s) c' \<Longrightarrow> polling_step ck s (s\<lparr>pl_c := c'\<rparr>)"

definition polling_reachable :: "(string \<Rightarrow> string) \<Rightarrow> polling \<Rightarrow> polling \<Rightarrow> bool" where
  "polling_reachable ck s0 s \<longleftrightarrow> opened (pl_c s0) \<and> (\<forall>i. pl_at s0 i = Poll_Idle) \<and> (polling_step ck)\<^sup>*\<^sup>* s0 s"

section \<open>What the others leave alone\<close>

text \<open>Rows of the outbox keep what a poller has read of them, and the topic only grows.\<close>

definition extends :: "cstate \<Rightarrow> cstate \<Rightarrow> bool" where
  "extends c c' \<longleftrightarrow> outbox_record_of ` set (d_outbox (c_db c)) \<subseteq> outbox_record_of ` set (d_outbox (c_db c')) \<and>
     set (c_topic c) \<subseteq> set (c_topic c')"

lemma extends_refl [simp]: "extends c c"
  by (simp add: extends_def)

lemma extends_trans: "extends a b \<Longrightarrow> extends b c \<Longrightarrow> extends a c"
  unfolding extends_def by (meson order_trans)

lemma extends_same: "d_outbox (c_db c') = d_outbox (c_db c) \<Longrightarrow> c_topic c' = c_topic c \<Longrightarrow> extends c c'"
  by (simp add: extends_def)

lemma record_mark [simp]: "outbox_record_of (mark_row ids now row) = outbox_record_of row"
  by (simp add: outbox_record_of_def mark_row_def)

lemma extends_mark: "extends c (c\<lparr>c_db := snd (sql_mark_published ids now (c_db c))\<rparr>)"
  by (simp add: extends_def d_outbox_mark image_image)

lemma extends_mark_final: "extends c (final (on_db (markPublished ids now) (c, fs)))"
  using markPublished_cases [of ids now c fs] extends_mark by auto

lemma process_extends: "extends c (final (process ck ttl now rnd request (c, fs)))"
proof -
  let ?c = "final (process ck ttl now rnd request (c, fs))"
  obtain o' db' r where t: "runIssueTransaction ck now rnd request (c_db c, fs) = (o', db', r)"
    by (cases "runIssueTransaction ck now rnd request (c_db c, fs)")
  have "\<exists>new. d_outbox db' = d_outbox (c_db c) @ new"
    using issue_transaction_refines [of ck now rnd request "c_db c" fs, unfolded t committed_or_untouched_def]
      outbox_of_spec [of ck now rnd request "c_db c" _ db']
    by (auto simp: same_tables_def split: sum.splits)
  then show ?thesis by (auto simp: extends_def process_topic process_cases(1) [OF t])
qed

interpretation requests_extend: record_handler parse_request "process_attempt ck ttl clock rnd" "extends c0"
  for ck ttl clock rnd c0
  by unfold_locales (auto simp: process_attempt_def keeps_inv_def intro: extends_trans process_extends)

lemma publish_extends: "extends c (final (IssueResultPublisher_publish k v (c, fs)))"
  by (cases rule: publish_cases [where k = k and v = v and c = c and fs = fs]) (auto simp: extends_def)

lemma poll_extends: "extends c (final (poll n now (c, fs)))"
proof -
  have pub: "keeps_inv (extends c) (IssueResultPublisher_publish k v)" for k v
    by (rule keeps_invI) (blast intro: extends_trans publish_extends)
  have each: "keeps_inv (extends c) (publish_each evs ids)" for evs ids
    by (induction evs arbitrary: ids) (auto intro!: keeps_bnd keeps_try keeps_ret pub)
  have mark: "keeps_inv (extends c) (on_db (markPublished ids now))" for ids
    by (rule keeps_invI) (blast intro: extends_trans extends_mark_final)
  have find: "keeps_inv (extends c) (on_db (findPending n))"
    by (rule keeps_invI) (auto simp: findPending_def on_db_apply external_def extends_def split: list.split fault.split)
  have "keeps_inv (extends c) (poll n now)"
    unfolding poll_def publishPending_def
    by (intro keeps_bnd keeps_gets keeps_if keeps_ret keeps_modify keeps_try each mark find) (simp_all add: extends_def)
  then show ?thesis by (rule keeps_invD) simp
qed

lemma c_step_extends: "c_step ck c c' \<Longrightarrow> extends c c'"
proof (induction rule: c_step.induct)
  case (deliver_record c ttl n clock rnd val fs)
  show ?case unfolding request_deliver_def by (rule keeps_invD [OF requests_extend.deliver_keeps]) simp
next
  case (redeem_call c now command fs)
  show ?case by (rule extends_same) (simp_all add: on_db_apply redeem_outbox)
next
  case (poll_tick c n now fs)
  show ?case by (rule poll_extends)
next
  case (refresh_tick c ttl fs)
  show ?case using reads_same_db(1) [of c ttl fs] by (intro extends_same) (simp_all add: same_db_def)
next
  case (restarts c fs)
  obtain x where "final (c_restart (c, fs)) = c\<lparr>c_polling := False, c_refreshing := False, c_connected := x\<rparr>"
    using c_restart_cases(1) by blast
  then show ?case by (simp add: extends_def)
next
  case (event_query c ttl eventId fs)
  show ?case using reads_same_db(2) [of c ttl eventId fs] by (intro extends_same) (simp_all add: same_db_def)
next
  case (clock_moves c t t')
  show ?case by (simp add: extends_def)
qed

section \<open>The invariant\<close>

definition on_topic :: "outbox_record \<Rightarrow> cstate \<Rightarrow> bool" where
  "on_topic ev c \<longleftrightarrow> (or_aggregateId ev, or_payload ev) \<in> set (c_topic c)"

definition sending_ok :: "cstate \<Rightarrow> outbox_record list \<Rightarrow> int list \<Rightarrow> bool" where
  "sending_ok c evs ids \<longleftrightarrow> set evs \<subseteq> outbox_record_of ` set (d_outbox (c_db c)) \<and>
     (\<forall>k \<in> set ids. \<exists>ev \<in> outbox_record_of ` set (d_outbox (c_db c)). or_id ev = k \<and> on_topic ev c)"

definition polling_inv :: "(string \<Rightarrow> string) \<Rightarrow> polling \<Rightarrow> bool" where
  "polling_inv ck s \<longleftrightarrow> c_ok ck (pl_c s) \<and> (\<forall>i evs ids. pl_at s i = Poll_Sending evs ids \<longrightarrow> sending_ok (pl_c s) evs ids)"

lemma sending_ok_extends: "sending_ok c evs ids \<Longrightarrow> extends c c' \<Longrightarrow> sending_ok c' evs ids"
  unfolding sending_ok_def extends_def on_topic_def by (meson subset_iff)

lemma sending_ok_sent:
  assumes "sending_ok c evs ids" "outbox_ids_ok (c_db c)"
  shows "ids_sent ids c"
  unfolding ids_sent_def
proof (intro ballI impI)
  fix o' assume o': "o' \<in> set (d_outbox (c_db c))" "o_outboxEventId o' \<in> set (map dec ids)"
  then obtain k where k: "k \<in> set ids" "o_outboxEventId o' = dec k" by auto
  with assms(1) obtain o2 where o2: "o2 \<in> set (d_outbox (c_db c))" "or_id (outbox_record_of o2) = k" "on_topic (outbox_record_of o2) c"
    unfolding sending_ok_def by blast
  have "o' = o2"
    by (rule outbox_row_by_id [OF assms(2) o'(1) o2(1)]) (metis outbox_id_canonical [OF assms(2) o2(1)] k(2) o2(2))
  with o2(3) show "sent o' (c_topic c)" by (simp add: on_topic_def sent_def outbox_record_of_def)
qed

lemma publish_keeps:
  assumes "IssueResultPublisher_publish k v (c, fs) = (q, c', r)"
  shows "c_db c' = c_db c" "set (c_topic c) \<subseteq> set (c_topic c')"
proof -
  have "c_db c' = c_db c \<and> set (c_topic c) \<subseteq> set (c_topic c')"
  proof (cases rule: publish_cases [where k = k and v = v and c = c and fs = fs])
    case (sent c1 r1)
    with assms show ?thesis by auto
  next
    case (failed e c1 r1)
    then obtain more where "c_topic c1 = c_topic c @ more" by blast
    with failed(1,2) assms show ?thesis by simp
  qed
  then show "c_db c' = c_db c" "set (c_topic c) \<subseteq> set (c_topic c')" by simp_all
qed

lemma publish_returns:
  assumes "IssueResultPublisher_publish k v (c, fs) = (Inr x, c', r)"
  shows "c_db c' = c_db c" "c_topic c' = c_topic c @ [(k, v)]"
proof -
  have "c_db c' = c_db c \<and> c_topic c' = c_topic c @ [(k, v)]"
    by (cases rule: publish_cases [where k = k and v = v and c = c and fs = fs]) (use assms in simp_all)
  then show "c_db c' = c_db c" "c_topic c' = c_topic c @ [(k, v)]" by simp_all
qed

text \<open>A step of a poller: the state of server-c is extended and sound, and so is what the poller knows.\<close>

lemma polling_inv_put:
  assumes "polling_inv ck s" "c_ok ck c" "extends (pl_c s) c" "\<And>evs ids. p = Poll_Sending evs ids \<Longrightarrow> sending_ok c evs ids"
  shows "polling_inv ck (put_poller i p x c s)"
  using assms sending_ok_extends [OF _ assms(3)] by (simp add: polling_inv_def put_poller_def)

lemma c_ok_publish:
  assumes "c_ok ck c" "c_db c' = c_db c" "set (c_topic c) \<subseteq> set (c_topic c')"
  shows "c_ok ck c'"
  using assms by (auto simp: c_ok_def published_sent_def intro: sent_mono)

lemma own_parts [simp]: "c_db (own i s) = c_db (pl_c s)" "c_topic (own i s) = c_topic (pl_c s)"
  by (simp_all add: own_def)

lemma polling_step_inv:
  assumes "polling_step ck s s'" "polling_inv ck s"
  shows "polling_inv ck s'"
proof -
  from assms(2) have ok: "c_ok ck (pl_c s)" by (simp add: polling_inv_def)
  then have ids: "outbox_ids_ok (c_db (pl_c s))" by (simp add: c_ok_def db_ok_def)
  from assms(1) show ?thesis
  proof cases
    case (selects i n fs evs c' r)
    have "c' = pl_c s" "evs = map outbox_record_of (select_pending n (c_db (pl_c s)))"
      using selects(3) by (auto simp: on_db_apply findPending_def external_def split: list.splits fault.splits)
    moreover from this set_select_pending [of n "c_db (pl_c s)"] have "sending_ok (pl_c s) evs []"
      by (auto simp: sending_ok_def)
    ultimately show ?thesis
      unfolding selects(1) by (intro polling_inv_put [OF assms(2)]) (auto simp: ok)
  next
    case (sends i ev evs ids fs c' r)
    have c': "c_db c' = c_db (pl_c s)" "c_topic c' = c_topic (pl_c s) @ [(or_aggregateId ev, or_payload ev)]"
      using publish_returns [OF sends(3)] by simp_all
    from assms(2) sends(2) have "sending_ok (pl_c s) (ev # evs) ids" by (simp add: polling_inv_def)
    then have "sending_ok c' evs (ids @ [or_id ev])" by (fastforce simp: sending_ok_def on_topic_def c')
    then show ?thesis
      unfolding sends(1) by (intro polling_inv_put [OF assms(2)] c_ok_publish [OF ok]) (auto simp: c' extends_def)
  next
    case (send_fails i ev evs ids fs e c' r)
    have c': "c_db c' = c_db (pl_c s)" "set (c_topic (pl_c s)) \<subseteq> set (c_topic c')"
      using publish_keeps [OF send_fails(3)] by simp_all
    have ext: "extends (pl_c s) c'" using c' by (simp add: extends_def)
    from assms(2) send_fails(2) have "sending_ok (pl_c s) (ev # evs) ids" by (simp add: polling_inv_def)
    from sending_ok_extends [OF this ext] have "sending_ok c' evs ids" by (simp add: sending_ok_def)
    then show ?thesis
      unfolding send_fails(1) by (intro polling_inv_put [OF assms(2)] c_ok_publish [OF ok]) (auto simp: c' ext)
  next
    case (marks i ids now fs)
    let ?c = "final (on_db (markPublished ids now) (pl_c s, fs))"
    from assms(2) marks(2) have "sending_ok (pl_c s) [] ids" by (simp add: polling_inv_def)
    from sending_ok_sent [OF this] ids have "ids_sent ids (pl_c s)" by simp
    with ok have "c_ok ck ?c"
      using markPublished_cases [of ids now "pl_c s" fs] mark_db_ok published_sent_mark by (auto simp: c_ok_def)
    then show ?thesis
      unfolding marks(1) by (intro polling_inv_put [OF assms(2)] extends_mark_final) simp_all
  next
    case (dies i)
    show ?thesis unfolding dies by (intro polling_inv_put [OF assms(2) ok]) simp_all
  next
    case (others c')
    from c_step_extends [OF others(2)] c_step_ok [OF others(2) ok] assms(2) show ?thesis
      unfolding others(1) by (auto simp: polling_inv_def intro: sending_ok_extends)
  qed
qed

lemma polling_reachable_inv:
  assumes "polling_reachable ck s0 s"
  shows "polling_inv ck s"
proof -
  from assms have "(polling_step ck)\<^sup>*\<^sup>* s0 s" "polling_inv ck s0"
    by (simp_all add: polling_reachable_def polling_inv_def opened_ok)
  then show ?thesis by (induction rule: rtranclp_induct) (auto intro: polling_step_inv)
qed

section \<open>A poll is a run of its steps\<close>

lemma own_put [simp]: "own i (put_poller i p (c_connected c) c s) = c"
  by (simp add: own_def put_poller_def)

lemma put_at [simp]: "pl_at (put_poller i p x c s) i = p" "j \<noteq> i \<Longrightarrow> pl_at (put_poller i p x c s) j = pl_at s j"
  by (simp_all add: put_poller_def)

lemma publish_each_steps:
  assumes "publish_each evs ids (own i s, fs) = (q, c', fs')" "pl_at s i = Poll_Sending evs ids"
  shows "\<exists>s' ids'. q = Inr ids' \<and> (polling_step ck)\<^sup>*\<^sup>* s s' \<and> pl_at s' i = Poll_Sending [] ids' \<and> own i s' = c' \<and>
    (\<forall>j. j \<noteq> i \<longrightarrow> pl_at s' j = pl_at s j)"
  using assms
proof (induction evs arbitrary: ids s fs)
  case Nil
  then show ?case by (intro exI [of _ s] exI [of _ ids]) (auto simp: ret_def)
next
  case (Cons ev evs)
  obtain q1 c1 f1 where run: "IssueResultPublisher_publish (or_aggregateId ev) (or_payload ev) (own i s, fs) = (q1, c1, f1)"
    by (cases "IssueResultPublisher_publish (or_aggregateId ev) (or_payload ev) (own i s, fs)")
  define ids1 where "ids1 = (case q1 of Inr _ \<Rightarrow> ids @ [or_id ev] | Inl _ \<Rightarrow> ids)"
  let ?s1 = "put_poller i (Poll_Sending evs ids1) (c_connected c1) c1 s"
  have step: "polling_step ck s ?s1"
    using run polling_step.sends [OF Cons.prems(2)] polling_step.send_fails [OF Cons.prems(2)]
    by (cases q1) (auto simp: ids1_def)
  have "publish_each evs ids1 (own i ?s1, f1) = (q, c', fs')"
    using Cons.prems(1) run by (cases q1) (simp_all add: bnd_def try_catch_def ret_def ids1_def)
  from Cons.IH [OF this] obtain s' ids' where "q = Inr ids'" "(polling_step ck)\<^sup>*\<^sup>* ?s1 s'" "pl_at s' i = Poll_Sending [] ids'"
      "own i s' = c'" "\<forall>j. j \<noteq> i \<longrightarrow> pl_at s' j = pl_at ?s1 j" by auto
  with step show ?case by (intro exI [of _ s'] exI [of _ ids']) (auto intro: converse_rtranclp_into_rtranclp)
qed

text \<open>
  The atomic poll of \<open>C_Outbox\<close> is the run in which nothing happens in between, under the same faults.
\<close>

lemma publishPending_steps:
  assumes "pl_at s i = Poll_Idle"
  shows "\<exists>s'. (polling_step ck)\<^sup>*\<^sup>* s s' \<and> pl_at s' i = Poll_Idle \<and> own i s' = final (publishPending n now (own i s, fs)) \<and>
    (\<forall>j. j \<noteq> i \<longrightarrow> pl_at s' j = pl_at s j)"
proof (cases "on_db (findPending n) (own i s, fs)")
  case (fields q c1 f1)
  then have c1: "c1 = own i s"
    by (auto simp: on_db_apply findPending_def external_def own_def split: list.splits fault.splits)
  show ?thesis
  proof (cases "\<exists>ev evs. q = Inr (ev # evs)")
    case False
    with fields c1 have "final (publishPending n now (own i s, fs)) = own i s"
      by (cases q; cases "projr q") (simp_all add: publishPending_def bnd_def ret_def)
    with assms show ?thesis by (intro exI [of _ s]) simp
  next
    case True
    then obtain ev evs where q: "q = Inr (ev # evs)" by blast
    let ?s1 = "put_poller i (Poll_Sending (ev # evs) []) (pl_connected s i) (pl_c s) s"
    have "on_db (findPending n) (pl_c s, fs) = (Inr (ev # evs), pl_c s, f1)"
      using fields q by (auto simp: on_db_apply findPending_def external_def own_def split: list.splits fault.splits)
    from polling_step.selects [OF assms this] have first: "polling_step ck s ?s1" by simp
    have own1: "own i ?s1 = own i s" "pl_at ?s1 i = Poll_Sending (ev # evs) []" "\<And>j. j \<noteq> i \<Longrightarrow> pl_at ?s1 j = pl_at s j"
      by (simp_all add: own_def put_poller_def)
    obtain q2 c2 f2 where each: "publish_each (ev # evs) [] (own i ?s1, f1) = (q2, c2, f2)"
      by (cases "publish_each (ev # evs) [] (own i ?s1, f1)")
    from publish_each_steps [OF each own1(2)] obtain s2 ids where s2: "q2 = Inr ids" "(polling_step ck)\<^sup>*\<^sup>* ?s1 s2"
        "pl_at s2 i = Poll_Sending [] ids" "own i s2 = c2" "\<forall>j. j \<noteq> i \<longrightarrow> pl_at s2 j = pl_at ?s1 j" by blast
    let ?s3 = "put_poller i Poll_Idle (pl_connected s2 i) (final (on_db (markPublished ids now) (pl_c s2, f2))) s2"
    have "polling_step ck s2 ?s3" by (rule polling_step.marks [OF s2(3)])
    with first s2(2) have run: "(polling_step ck)\<^sup>*\<^sup>* s ?s3"
      by (meson converse_rtranclp_into_rtranclp rtranclp.rtrancl_into_rtrancl)
    have "final (on_db (markPublished ids now) (own i s2, f2)) = (final (on_db (markPublished ids now) (pl_c s2, f2)))\<lparr>c_connected := pl_connected s2 i\<rparr>"
      by (simp add: on_db_apply own_def)
    then have last: "own i ?s3 = final (on_db (markPublished ids now) (c2, f2))"
      using s2(4) by (simp add: own_def put_poller_def)
    have "final (publishPending n now (own i s, fs)) = final (on_db (markPublished ids now) (c2, f2))"
    proof -
      have each': "publish_each (ev # evs) [] (own i s, f1) = (Inr ids, c2, f2)" using each own1(1) s2(1) by simp
      have "final (on_db (markPublished [] now) (c2, f2)) = c2" by (simp add: on_db_apply markPublished_def)
      then show ?thesis
        using fields q c1 each' unfolding publishPending_def bnd_def
        by (cases "outcome (on_db (markPublished ids now) (c2, f2))"; cases "on_db (markPublished ids now) (c2, f2)")
          (auto simp: ret_def simp del: publish_each.simps)
    qed
    with run last s2(5) own1(3) show ?thesis by (intro exI [of _ ?s3]) (simp add: put_poller_def)
  qed
qed

section \<open>Properties\<close>

text \<open>C8. No result is lost and none is marked unsent, however polls interleave: while any number of pollers
  select, send and mark statement by statement, among them consumers, redeem calls, other polls, restarts
  and crashes between any two statements, under any faults, every result row has an outbox row that tells it, and
  each such row is PENDING or its message is on the topic.\<close>

theorem interleaved_polls_lose_nothing:
  assumes "polling_reachable ck s0 s" "r \<in> set (d_user_coupons (c_db (pl_c s)))"
  shows "\<exists>o' \<in> set (d_outbox (c_db (pl_c s))). announces o' r \<and>
    (o_status o' = OB_PENDING \<or> message_of o' \<in> set (c_topic (pl_c s)))"
proof -
  from polling_reachable_inv [OF assms(1)] have ok: "c_ok ck (pl_c s)" by (simp add: polling_inv_def)
  with assms(2) obtain o' where o': "o' \<in> set (d_outbox (c_db (pl_c s)))" "announces o' r"
    by (auto simp: c_ok_def db_ok_def all_announced_def)
  moreover have "o_status o' = OB_PENDING \<or> message_of o' \<in> set (c_topic (pl_c s))"
    using ok o'(1) by (cases "o_status o'") (auto simp: c_ok_def published_sent_def sent_def message_of_def)
  ultimately show ?thesis by blast
qed

text \<open>Two instances that have both read the one result of the shop: it will be on the topic twice.\<close>

definition calm_polling :: "cstate \<Rightarrow> polling" where
  "calm_polling c = \<lparr>pl_c = c, pl_at = (\<lambda>_. Poll_Idle), pl_connected = (\<lambda>_. True)\<rparr>"

interpretation requests_topic: record_handler parse_request "process_attempt ck ttl clock rnd" "\<lambda>c. c_topic c = topic"
  for ck ttl clock rnd topic
  by unfold_locales (simp add: process_attempt_def keeps_inv_def process_topic)

lemma served_batch: "select_pending 50 (c_db served_run) \<noteq> []"
proof -
  have "c_ok id served_run" by (rule c_reachable_ok [OF served_run_reachable])
  moreover from this obtain o' where o': "o' \<in> set (d_outbox (c_db served_run))"
    using served_run_tables(2) by (auto simp: c_ok_def db_ok_def all_announced_def)
  moreover have "c_topic served_run = []"
    unfolding served_run_def request_deliver_def
    by (rule keeps_invD [OF requests_topic.deliver_keeps]) (simp add: shop_def)
  ultimately have "o_status o' = OB_PENDING" by (cases "o_status o'") (auto simp: c_ok_def published_sent_def sent_def)
  with o' have "filter (\<lambda>row. o_status row = OB_PENDING) (d_outbox (c_db served_run)) \<noteq> []" by (auto simp: filter_empty_conv)
  then show ?thesis unfolding select_pending_def by (metis length_0_conv length_sort take_eq_Nil zero_neq_numeral)
qed

definition served_records :: "outbox_record list" where
  "served_records = map outbox_record_of (select_pending 50 (c_db served_run))"

definition both_polling :: polling where
  "both_polling = put_poller 1 (Poll_Sending served_records []) True served_run
     (put_poller 0 (Poll_Sending served_records []) True served_run (calm_polling served_run))"

lemma both_polling_reachable: "polling_reachable id (calm_polling (shop 5)) both_polling"
proof -
  have "c_step id (shop 5) served_run" unfolding served_run_def by (rule c_step.deliver_record)
  from polling_step.others [where s = "calm_polling (shop 5)", unfolded calm_polling_def polling.simps, OF this]
  have 1: "polling_step id (calm_polling (shop 5)) (calm_polling served_run)" by (simp add: calm_polling_def)
  have find: "on_db (findPending 50) (served_run, []) = (Inr served_records, served_run, [])"
    by (simp add: on_db_apply findPending_def served_records_def)
  have ne: "served_records \<noteq> []" using served_batch by (simp add: served_records_def)
  let ?s = "put_poller 0 (Poll_Sending served_records []) True served_run (calm_polling served_run)"
  have "polling_step id (calm_polling served_run) (put_poller 0 (Poll_Sending served_records [])
      (pl_connected (calm_polling served_run) 0) served_run (calm_polling served_run))"
    by (rule polling_step.selects [where n = 50 and fs = "[]" and r = "[]"]) (simp_all add: calm_polling_def find ne)
  then have 2: "polling_step id (calm_polling served_run) ?s" by (simp add: calm_polling_def)
  have "polling_step id ?s (put_poller 1 (Poll_Sending served_records []) (pl_connected ?s 1) served_run ?s)"
    by (rule polling_step.selects [where n = 50 and fs = "[]" and r = "[]"])
      (simp_all add: put_poller_def calm_polling_def find ne)
  then have 3: "polling_step id ?s both_polling" by (simp add: both_polling_def put_poller_def calm_polling_def)
  have "opened (shop 5)" using served_run_reachable by (simp add: c_reachable_def)
  with 1 2 3 show ?thesis
    unfolding polling_reachable_def by (auto simp: calm_polling_def intro: converse_rtranclp_into_rtranclp)
qed

theorem interleaved_polls_lose_nothing_witness:
  "\<exists>o' \<in> set (d_outbox (c_db (pl_c both_polling))). announces o' (with_key (dec 1) (UserCouponMapper_toInsertValues
     (UserCoupon_issue (CouponCode_generate (\<lambda>_. 0)) 11 7 3 UC_SUCCESS 6000)))"
proof -
  have "d_user_coupons (c_db (pl_c both_polling)) = [with_key (dec 1) (UserCouponMapper_toInsertValues
     (UserCoupon_issue (CouponCode_generate (\<lambda>_. 0)) 11 7 3 UC_SUCCESS 6000))]"
    by (simp add: both_polling_def put_poller_def served_run_tables)
  with interleaved_polls_lose_nothing [OF both_polling_reachable] show ?thesis by fastforce
qed

end
