(* ===== verification/Http.thy ===== *)
theory Http imports Wire begin

text \<open>
  The HTTP edge shared by the three services (\<open>libs/common/src/api\<close>): the response envelope, the
  argument pipes (\<open>ParseLongPipe\<close>, \<open>UserId\<close>), the flattening of validation errors, the body parser's error
  handler and the exception filters with the mapping each service adds
  (\<open>apps/*/src/api/filters/global-exception.filter.ts\<close>).  Nest's table of status names is a parameter.
\<close>

section \<open>The envelope\<close>

type_synonym field_error = "string \<times> string"

record error_response =
  er_code :: string
  er_message :: string
  er_fieldErrors :: "field_error list option"

record response =
  rp_status :: int
  rp_headers :: "(string \<times> string) list"
  rp_body :: json

definition ErrorResponses_of :: "string \<Rightarrow> string \<Rightarrow> error_response" where
  "ErrorResponses_of code message = \<lparr>er_code = code, er_message = message, er_fieldErrors = None\<rparr>"

definition ErrorResponses_withFields :: "string \<Rightarrow> string \<Rightarrow> field_error list \<Rightarrow> error_response" where
  "ErrorResponses_withFields code message fieldErrors =
     \<lparr>er_code = code, er_message = message, er_fieldErrors = Some fieldErrors\<rparr>"

definition field_error_json :: "field_error \<Rightarrow> json" where
  "field_error_json e = JObj [(''field'', JStr (fst e)), (''message'', JStr (snd e))]"

definition error_json :: "error_response \<Rightarrow> json" where
  "error_json e = JObj ([(''code'', JStr (er_code e)), (''message'', JStr (er_message e))] @
     (case er_fieldErrors e of None \<Rightarrow> [] | Some es \<Rightarrow> [(''fieldErrors'', JArr (map field_error_json es))]))"

definition ApiResponses_success :: "json \<Rightarrow> json" where
  "ApiResponses_success d = JObj [(''success'', JBool True), (''data'', d)]"

definition ApiResponses_failure :: "error_response \<Rightarrow> json" where
  "ApiResponses_failure e = JObj [(''success'', JBool False), (''error'', error_json e)]"

section \<open>Mapping exceptions\<close>

record mapped_error =
  me_status :: int
  me_error :: error_response

definition mapped :: "int \<Rightarrow> error_response \<Rightarrow> mapped_error" where
  "mapped status e = \<lparr>me_status = status, me_error = e\<rparr>"

fun mapCommonError :: "exn \<Rightarrow> mapped_error option" where
  "mapCommonError (ValidationFailedError fieldErrors) = Some (mapped 400
     (ErrorResponses_withFields ''VALIDATION_FAILED'' ''request body validation failed'' fieldErrors))"
| "mapCommonError MalformedBodyError = Some (mapped 400
     (ErrorResponses_of ''MALFORMED_BODY'' ''request body is malformed''))"
| "mapCommonError (TypeMismatchError argumentName) = Some (mapped 400
     (ErrorResponses_of ''TYPE_MISMATCH'' (''argument type mismatch: '' @ argumentName)))"
| "mapCommonError (InvalidArgumentError message) = Some (mapped 400
     (ErrorResponses_of ''INVALID_ARGUMENT'' message))"
| "mapCommonError _ = None"

fun mapMissingHeader :: "exn \<Rightarrow> mapped_error option" where
  "mapMissingHeader (MissingHeaderError headerName) = Some (mapped 400
     (ErrorResponses_of ''MISSING_HEADER'' (''required header missing: '' @ headerName)))"
| "mapMissingHeader _ = None"

definition httpStatusCode :: "(int \<Rightarrow> string option) \<Rightarrow> int \<Rightarrow> string" where
  "httpStatusCode names status = (case names status of None \<Rightarrow> ''INTERNAL_ERROR'' | Some name \<Rightarrow> name)"

fun join_comma :: "string list \<Rightarrow> string" where
  "join_comma [] = []"
| "join_comma [m] = m"
| "join_comma (m # ms) = m @ '', '' @ join_comma ms"

definition http_message :: "http_body \<Rightarrow> string \<Rightarrow> string" where
  "http_message body message = (case body of
      Body_String res \<Rightarrow> res
    | Body_Object m \<Rightarrow> (case m of No_Message \<Rightarrow> message | One_Message s \<Rightarrow> s | Many_Messages ms \<Rightarrow> join_comma ms))"

definition mapHttpException :: "(int \<Rightarrow> string option) \<Rightarrow> int \<Rightarrow> http_body \<Rightarrow> string \<Rightarrow> mapped_error" where
  "mapHttpException names status body message =
     mapped status (ErrorResponses_of (httpStatusCode names status) (http_message body message))"

definition internalError :: mapped_error where
  "internalError = mapped 500 (ErrorResponses_of ''INTERNAL_ERROR'' ''internal server error'')"

section \<open>The filters of the services\<close>

text \<open>\<open>x ?? y\<close>\<close>

definition or_else :: "'a option \<Rightarrow> 'a option \<Rightarrow> 'a option" where
  "or_else x y = (case x of None \<Rightarrow> y | Some a \<Rightarrow> Some a)"

definition a_mapDomain :: "exn \<Rightarrow> mapped_error option" where
  "a_mapDomain e = (case or_else (mapCommonError e) (mapMissingHeader e) of
      Some m \<Rightarrow> Some m
    | None \<Rightarrow> (case e of
        InvalidStateError message \<Rightarrow> Some (mapped 409 (ErrorResponses_of ''INVALID_STATE'' message))
      | _ \<Rightarrow> None))"

definition b_mapDomain :: "exn \<Rightarrow> mapped_error option" where
  "b_mapDomain e = (case mapCommonError e of
      Some m \<Rightarrow> Some m
    | None \<Rightarrow> (case e of
        InvalidStateError message \<Rightarrow> Some (mapped 500 (ErrorResponses_of ''INTERNAL_STATE'' message))
      | _ \<Rightarrow> None))"

definition c_mapDomain :: "exn \<Rightarrow> mapped_error option" where
  "c_mapDomain e = (case e of
      CouponNotFoundError message \<Rightarrow> Some (mapped 404 (ErrorResponses_of ''NOT_FOUND'' ''coupon not found''))
    | EventNotFoundError message \<Rightarrow> Some (mapped 404 (ErrorResponses_of ''EVENT_NOT_FOUND'' ''event not found''))
    | OptimisticLockFailureError message \<Rightarrow> Some (mapped 409
        (ErrorResponses_of ''RACE_RETRY'' (''concurrent modification '' @ [CHR 0xE2, CHR 0x80, CHR 0x94] @
           '' retry the request'')))
    | _ \<Rightarrow> (case or_else (mapCommonError e) (mapMissingHeader e) of
        Some m \<Rightarrow> Some m
      | None \<Rightarrow> (case e of
          InvalidStateError message \<Rightarrow> Some (mapped 409 (ErrorResponses_of ''INVALID_STATE'' message))
        | _ \<Rightarrow> None)))"

definition failure_response :: "mapped_error \<Rightarrow> response" where
  "failure_response m = \<lparr>rp_status = me_status m, rp_headers = [], rp_body = ApiResponses_failure (me_error m)\<rparr>"

definition filter_catch :: "(int \<Rightarrow> string option) \<Rightarrow> (exn \<Rightarrow> mapped_error option) \<Rightarrow> exn \<Rightarrow> response" where
  "filter_catch names mapDomain e = (case mapDomain e of
      Some m \<Rightarrow> failure_response m
    | None \<Rightarrow> (case e of
        HttpException status body message \<Rightarrow> failure_response (mapHttpException names status body message)
      | _ \<Rightarrow> failure_response internalError))"

text \<open>The error handler behind the JSON parser; other errors go on to the next handler (\<open>None\<close>).\<close>

definition onParseError :: "bool \<Rightarrow> response option" where
  "onParseError is_body_syntax_error = (if is_body_syntax_error
     then Some (failure_response (mapped 400 (ErrorResponses_of ''MALFORMED_BODY'' ''request body is malformed'')))
     else None)"

section \<open>Arguments\<close>

definition ParseLongPipe_transform :: "string option \<Rightarrow> string option \<Rightarrow> exn + int" where
  "ParseLongPipe_transform name val =
     (case val of
        None \<Rightarrow> Inl (TypeMismatchError (case name of None \<Rightarrow> ''argument'' | Some n \<Rightarrow> n))
      | Some s \<Rightarrow>
          if \<not> LONG_PATTERN s then Inl (TypeMismatchError (case name of None \<Rightarrow> ''argument'' | Some n \<Rightarrow> n))
          else Inr (js_Number s))"

text \<open>A header as express gives it: absent, one value, or several.\<close>

datatype header = No_Header | One_Header string | Many_Headers "string list"

definition UserId :: "header \<Rightarrow> exn + int" where
  "UserId raw =
     (let val = (case raw of No_Header \<Rightarrow> None | One_Header s \<Rightarrow> Some s
                 | Many_Headers ss \<Rightarrow> (case ss of [] \<Rightarrow> None | s # _ \<Rightarrow> Some s)) in
      case val of
        None \<Rightarrow> Inl (MissingHeaderError ''X-User-Id'')
      | Some s \<Rightarrow>
          if s = '''' then Inl (MissingHeaderError ''X-User-Id'')
          else if \<not> LONG_PATTERN s then Inl (TypeMismatchError ''userId'')
          else Inr (js_Number s))"

section \<open>Validation errors\<close>

text \<open>What class-validator reports: a property, its violated constraints, the errors of its children.\<close>

datatype validation_error =
  Validation_Error (ve_property: string) (ve_constraints: "(string \<times> string) list option")
    (ve_children: "validation_error list")

fun flatten_error :: "string \<Rightarrow> validation_error \<Rightarrow> field_error list" where
  "flatten_error parentPath (Validation_Error p constraints children) =
     (let path = (if parentPath \<noteq> '''' then parentPath @ ''.'' @ p else p) in
      (case constraints of None \<Rightarrow> [] | Some cs \<Rightarrow> map (\<lambda>(k, message). (path, message)) cs) @
      concat (map (flatten_error path) children))"

definition flattenValidationErrors :: "validation_error list \<Rightarrow> string \<Rightarrow> field_error list" where
  "flattenValidationErrors errors parentPath = concat (map (flatten_error parentPath) errors)"

text \<open>The exception factory of the validation pipe.\<close>

definition validation_exception :: "validation_error list \<Rightarrow> exn" where
  "validation_exception errors = ValidationFailedError (flattenValidationErrors errors '''')"

section \<open>Laws\<close>

lemma ParseLongPipe_dec: "ParseLongPipe_transform name (Some (dec n)) = Inr n"
  by (simp add: ParseLongPipe_transform_def)

lemma UserId_dec: "UserId (One_Header (dec n)) = Inr n"
  by (simp add: UserId_def)

lemma UserId_cases:
  "UserId h = Inl (MissingHeaderError ''X-User-Id'') \<or> UserId h = Inl (TypeMismatchError ''userId'') \<or> (\<exists>n. UserId h = Inr n)"
  by (simp add: UserId_def Let_def split: option.split)

text \<open>The leaves of the error tree: every violated constraint is reported once, under its full path.\<close>

fun constraint_count :: "validation_error \<Rightarrow> nat" where
  "constraint_count (Validation_Error p constraints children) =
     (case constraints of None \<Rightarrow> 0 | Some cs \<Rightarrow> length cs) + sum_list (map constraint_count children)"

lemma length_flatten: "length (flatten_error parentPath e) = constraint_count e"
proof (induction parentPath e rule: flatten_error.induct)
  case (1 parentPath p constraints children)
  define path where "path = (if parentPath \<noteq> '''' then parentPath @ ''.'' @ p else p)"
  have "length (concat (map (flatten_error path) children)) = sum_list (map constraint_count children)"
    using 1 by (simp add: length_concat comp_def path_def cong: map_cong)
  then show ?case
    unfolding flatten_error.simps constraint_count.simps Let_def path_def [symmetric]
    by (simp split: option.split)
qed

text \<open>An exception no mapping names and that is no \<open>HttpException\<close> is answered with the fallback.\<close>

lemma filter_catch_fallback:
  assumes "mapDomain e = None" "\<forall>status body message. e \<noteq> HttpException status body message"
  shows "filter_catch names mapDomain e = failure_response internalError"
  using assms by (cases e) (auto simp: filter_catch_def)

lemma filter_catch_mapped: "mapDomain e = Some m \<Longrightarrow> filter_catch names mapDomain e = failure_response m"
  by (simp add: filter_catch_def)

lemma mapDomain_simps [simp]:
  "c_mapDomain (CouponNotFoundError m) = Some (mapped 404 (ErrorResponses_of ''NOT_FOUND'' ''coupon not found''))"
  "c_mapDomain (EventNotFoundError m) = Some (mapped 404 (ErrorResponses_of ''EVENT_NOT_FOUND'' ''event not found''))"
  "c_mapDomain (InvalidStateError m) = Some (mapped 409 (ErrorResponses_of ''INVALID_STATE'' m))"
  "a_mapDomain (InvalidStateError m) = Some (mapped 409 (ErrorResponses_of ''INVALID_STATE'' m))"
  "b_mapDomain (InvalidStateError m) = Some (mapped 500 (ErrorResponses_of ''INTERNAL_STATE'' m))"
  "c_mapDomain (Connection_Error m) = None" "a_mapDomain (Connection_Error m) = None"
  "b_mapDomain (Connection_Error m) = None" "c_mapDomain (Plain_Error m) = None"
  "a_mapDomain (Plain_Error m) = None" "b_mapDomain (Plain_Error m) = None"
  "b_mapDomain (MissingHeaderError h) = None"
  by (simp_all add: c_mapDomain_def a_mapDomain_def b_mapDomain_def or_else_def)

section \<open>Answering a request\<close>

text \<open>
  What Nest does with a handler: its value becomes the answer, an exception goes to the filter of
  the service.
\<close>

definition respond :: "(int \<Rightarrow> string option) \<Rightarrow> (exn \<Rightarrow> mapped_error option) \<Rightarrow>
    ('s, exn, response) eff \<Rightarrow> ('s, exn, response) eff" where
  "respond names mapDomain handler = try_catch handler (\<lambda>e. ret (filter_catch names mapDomain e))"

text \<open>The value of a pipe, or its exception.\<close>

definition argument :: "exn + 'a \<Rightarrow> ('s, exn, 'a) eff" where
  "argument x = (case x of Inl e \<Rightarrow> throw e | Inr a \<Rightarrow> ret a)"

lemma argument_simps [simp]: "argument (Inl e) = throw e" "argument (Inr a) = ret a"
  by (simp_all add: argument_def)

lemma keeps_argument [keeps]: "keeps_inv I (argument x)"
  by (cases x) (simp_all add: keeps_ret keeps_throw)

definition ok_response :: "json \<Rightarrow> response" where
  "ok_response body = \<lparr>rp_status = 200, rp_headers = [], rp_body = body\<rparr>"

lemma respond_Inl: "handler w = (Inl e, s, fs) \<Longrightarrow>
    respond names mapDomain handler w = (Inr (filter_catch names mapDomain e), s, fs)"
  by (simp add: respond_def try_catch_def)

lemma respond_Inr: "handler w = (Inr r, s, fs) \<Longrightarrow> respond names mapDomain handler w = (Inr r, s, fs)"
  by (simp add: respond_def try_catch_def)

lemma respond_throw [simp]: "respond names mapDomain (throw e) (s, fs) = (Inr (filter_catch names mapDomain e), s, fs)"
  by (simp add: respond_def try_catch_def)

lemma respond_final: "final (respond names mapDomain handler w) = final (handler w)"
  by (cases "handler w"; cases "fst (handler w)") (auto simp: respond_def try_catch_def)

section \<open>Calling another service\<close>

text \<open>What axios makes of a call: a response with a status and a body, or no response at all.\<close>

datatype http_reply = Http_Response int json | Http_No_Response

text \<open>axios rejects a status outside 200--299 with an error that carries it.\<close>

definition axios_result :: "http_reply \<Rightarrow> exn + json" where
  "axios_result reply = (case reply of
      Http_Response status body \<Rightarrow> if 200 \<le> status \<and> status < 300 then Inr body else Inl (ResponseError status)
    | Http_No_Response \<Rightarrow> Inl (Connection_Error ''http''))"

text \<open>The caller parses the text of the answer.\<close>

definition reply_of :: "exn + response \<Rightarrow> http_reply" where
  "reply_of r = (case r of
      Inl e \<Rightarrow> Http_No_Response
    | Inr rsp \<Rightarrow> (case JSON_parse (JSON_stringify (rp_body rsp)) of
          None \<Rightarrow> Http_No_Response
        | Some body \<Rightarrow> Http_Response (rp_status rsp) body))"

lemma reply_of_Inr: "wf_json (rp_body rsp) \<Longrightarrow> reply_of (Inr rsp) = Http_Response (rp_status rsp) (rp_body rsp)"
  by (simp add: reply_of_def JSON_parse_stringify)

text \<open>
  A call over HTTP: one fault decision for the call itself, lost before it is served or after; then
  the endpoint runs, under the decisions that are left.
\<close>

definition over_http :: "('s, exn, response) eff \<Rightarrow> ('s, exn, json) eff" where
  "over_http endpoint = (\<lambda>(s, fs).
     let lost = Connection_Error ''http'';
         served = (\<lambda>r. case endpoint (s, r) of (q, s', r') \<Rightarrow> (axios_result (reply_of q), s', r')) in
     case fs of
       [] \<Rightarrow> served []
     | NoFault # r \<Rightarrow> served r
     | FailBefore # r \<Rightarrow> (Inl lost, s, r)
     | FailAfter # r \<Rightarrow> (Inl lost, snd (served r)))"

lemma keeps_over_http [keeps]:
  assumes "keeps_inv J endpoint"
  shows "keeps_inv J (over_http endpoint)"
proof (rule keeps_invI)
  fix s fs assume "J s"
  then have "J (final (endpoint (s, r)))" for r by (rule keeps_invD [OF assms])
  with \<open>J s\<close> show "J (final (over_http endpoint (s, fs)))"
    by (auto simp: over_http_def Let_def split: prod.split list.split fault.split) (metis fst_conv snd_conv)+
qed

end
