(* ===== verification/C_Api.thy ===== *)
theory C_Api imports C_System Http begin

text \<open>
  The controllers of server-c (\<open>apps/server-c/src/api\<close>), from the arguments the pipes make of the
  request to the answer the filter makes of an exception.
\<close>

section \<open>Controllers\<close>

definition toRedeemView :: "redeem_result \<Rightarrow> json" where
  "toRedeemView result = JObj
     [(''code'', JStr (rr_code result)), (''userId'', JNum (rr_userId result)),
      (''redeemedAt'', JStr (toLocalDateTimeString (rr_redeemedAt result))),
      (''newlyRedeemed'', JBool (rr_newlyRedeemed result))]"

definition RedeemCouponController_redeem ::
  "(string \<Rightarrow> string) \<Rightarrow> int \<Rightarrow> string \<Rightarrow> header \<Rightarrow> (cdb, exn, response) eff" where
  "RedeemCouponController_redeem ck now code user_header =
     bnd (argument (UserId user_header)) (\<lambda>userId.
     bnd (argument (RedeemCommand_new (Some code) userId)) (\<lambda>command.
     bnd (redeem ck now command) (\<lambda>result.
     ret (ok_response (ApiResponses_success (toRedeemView result))))))"

definition UserCouponController_findMine :: "header \<Rightarrow> (cdb, exn, response) eff" where
  "UserCouponController_findMine user_header =
     bnd (argument (UserId user_header)) (\<lambda>userId.
     bnd (UserCouponQueryService_findAllByUserId userId) (\<lambda>views.
     ret (ok_response (ApiResponses_success (JArr views)))))"

definition UserCouponInternalController_findOne :: "string \<Rightarrow> string \<Rightarrow> (cdb, exn, response) eff" where
  "UserCouponInternalController_findOne user_param type_param =
     bnd (argument (ParseLongPipe_transform (Some ''userId'') (Some user_param))) (\<lambda>userId.
     bnd (argument (ParseLongPipe_transform (Some ''couponTypeId'') (Some type_param))) (\<lambda>couponTypeId.
     bnd (UserCouponQueryService_findByUserIdAndCouponTypeId userId couponTypeId) (\<lambda>view.
     case view of
       None \<Rightarrow> throw (CouponNotFoundError (''user_coupon not found: userId='' @ dec userId @
                 '', couponTypeId='' @ dec couponTypeId))
     | Some v \<Rightarrow> ret (ok_response (ApiResponses_success v)))))"

definition EventQueryController_findOne :: "int \<Rightarrow> string \<Rightarrow> (cstate, exn, response) eff" where
  "EventQueryController_findOne ttlSeconds event_param =
     bnd (argument (ParseLongPipe_transform (Some ''eventId'') (Some event_param))) (\<lambda>eventId.
     bnd (EventQueryService_findById ttlSeconds eventId) (\<lambda>view.
     ret (ok_response (ApiResponses_success view))))"

section \<open>What server-b receives\<close>

text \<open>
  The route \<open>internal/v1/users/:userId/coupons/:couponTypeId\<close>.
\<close>

definition internal_params :: "string \<Rightarrow> (string \<times> string) option" where
  "internal_params path = (case split_on CHR ''/'' path of
      [root, a, b, c, user_param, d, type_param] \<Rightarrow>
        if [root, a, b, c, d] = ['''', ''internal'', ''v1'', ''users'', ''coupons'']
        then Some (user_param, type_param) else None
    | _ \<Rightarrow> None)"

section \<open>Laws\<close>

lemma wf_success [simp]: "wf_json (ApiResponses_success d) \<longleftrightarrow> wf_json d"
  by (simp add: ApiResponses_success_def)

lemma wf_internal_view [simp]: "wf_json (toUserCouponInternalView c)"
  by (simp add: toUserCouponInternalView_def)

lemma wf_failure [simp]: "wf_json (rp_body (failure_response (mapped status (ErrorResponses_of code message))))"
  by (simp add: failure_response_def mapped_def ApiResponses_failure_def error_json_def ErrorResponses_of_def)

lemma mysql_down_answer: "filter_catch names c_mapDomain mysql_down = failure_response internalError"
  by (rule filter_catch_fallback) (simp_all add: mysql_down_def)

text \<open>The look-up of server-b reads the row of the pair, says that there is none, or fails.\<close>

lemma internal_answer:
  "respond names c_mapDomain (UserCouponInternalController_findOne (dec u) (dec t)) (db, fs) =
   (case fs of
      [] \<Rightarrow> (Inr (case find (same_user_type (dec u) (dec t)) (d_user_coupons db) of
          None \<Rightarrow> failure_response (mapped 404 (ErrorResponses_of ''NOT_FOUND'' ''coupon not found''))
        | Some row \<Rightarrow> ok_response (ApiResponses_success
            (toUserCouponInternalView (UserCouponMapper_toDomain row)))), db, [])
    | NoFault # r \<Rightarrow> (Inr (case find (same_user_type (dec u) (dec t)) (d_user_coupons db) of
          None \<Rightarrow> failure_response (mapped 404 (ErrorResponses_of ''NOT_FOUND'' ''coupon not found''))
        | Some row \<Rightarrow> ok_response (ApiResponses_success
            (toUserCouponInternalView (UserCouponMapper_toDomain row)))), db, r)
    | _ # r \<Rightarrow> (Inr (failure_response internalError), db, r))"
  by (cases "find (same_user_type (dec u) (dec t)) (d_user_coupons db)"; cases fs; cases "hd fs")
    (simp_all add: respond_def try_catch_def UserCouponInternalController_findOne_def ParseLongPipe_dec bnd_def
      UserCouponQueryService_findByUserIdAndCouponTypeId_def findByUserIdAndCouponTypeId_def
      mysql_down_answer filter_catch_mapped)

lemma redeem_answer:
  assumes "UserId user_header = Inr userId" "RedeemCommand_new (Some code) userId = Inr command"
  shows "respond names c_mapDomain (RedeemCouponController_redeem ck now code user_header) (db, fs) =
    (Inr (case outcome (redeem ck now command (db, fs)) of
        Inl e \<Rightarrow> filter_catch names c_mapDomain e
      | Inr x \<Rightarrow> ok_response (ApiResponses_success (toRedeemView x))), snd (redeem ck now command (db, fs)))"
  using assms by (cases "redeem ck now command (db, fs)"; cases "outcome (redeem ck now command (db, fs))")
    (simp_all add: RedeemCouponController_redeem_def respond_def try_catch_def bnd_def)

text \<open>A redeem that returns has marked or found marked the row it names.\<close>

lemma redeem_spec_used:
  assumes "db_ok ck db" "redeem_spec ck now command db = (Inr x, db')"
  shows "\<exists>row \<in> set (d_user_coupons db'). \<exists>t. ck (u_code row) = ck (rd_code command) \<and>
    js_Number (u_userId row) = rd_userId command \<and> u_status row = UC_USED \<and> u_usedAt row = Some t \<and>
    rr_code x = u_code row \<and> rr_userId x = rd_userId command \<and> rr_redeemedAt x = t"
proof -
  from assms(2) obtain row where row: "row_by_code ck (rd_code command) db = Some row"
      "js_Number (u_userId row) = rd_userId command"
    by (auto simp: redeem_spec_def split: option.splits if_splits)
  from row(1) have mem: "row \<in> set (d_user_coupons db)" "ck (u_code row) = ck (rd_code command)"
    by (auto simp: row_by_code_def find_Some_iff)
  show ?thesis
  proof (cases "u_usedAt row")
    case None
    with assms(2) row have "x = RedeemResult_succeeded (u_code row) (rd_userId command) now"
        "db' = replace_row row (use_row now row) db"
      by (auto simp: redeem_spec_def split: if_splits)
    moreover have "use_row now row \<in> set (d_user_coupons (replace_row row (use_row now row) db))"
      using mem(1) by (auto simp: replace_row_def)
    ultimately show ?thesis
      using mem(2) row(2) by (intro bexI [of _ "use_row now row"] exI [of _ now]) (simp_all add: RedeemResult_succeeded_def)
  next
    case (Some t)
    with assms(2) row have "x = RedeemResult_alreadyRedeemed (u_code row) (rd_userId command) t" "db' = db"
      by (auto simp: redeem_spec_def)
    moreover have "u_status row = UC_USED"
      using assms(1) mem(1) Some by (auto simp: db_ok_def row_ok_def)
    ultimately show ?thesis
      using mem row(2) Some by (intro bexI [of _ row] exI [of _ t]) (simp_all add: RedeemResult_alreadyRedeemed_def)
  qed
qed

lemma fst_redeem_spec_error:
  "fst (redeem_spec ck now command db) = Inl e \<Longrightarrow> e = coupon_not_found command \<or> (\<exists>m. e = InvalidStateError m)"
  by (auto simp: redeem_spec_def split: option.splits if_splits)

lemma RedeemCommand_new_Inr: "RedeemCommand_new (Some code) u = Inr command \<Longrightarrow> rd_code command = code \<and> rd_userId command = u"
  by (auto simp: RedeemCommand_new_def split: if_splits)

lemma RedeemCommand_new_Inl: "RedeemCommand_new (Some code) u = Inl e \<Longrightarrow> \<exists>m. e = InvalidArgumentError m"
  by (auto simp: RedeemCommand_new_def split: if_splits)

text \<open>Without a coupon of the caller under that code, a redeem is a SELECT and an exception.\<close>

definition owns_none :: "(string \<Rightarrow> string) \<Rightarrow> redeem_command \<Rightarrow> cdb \<Rightarrow> bool" where
  "owns_none ck command db \<longleftrightarrow> (\<forall>row \<in> set (d_user_coupons db).
     ck (u_code row) = ck (rd_code command) \<longrightarrow> js_Number (u_userId row) \<noteq> rd_userId command)"

lemma redeem_owns_none:
  assumes "owns_none ck command db"
  shows "outcome (redeem ck now command (db, fs)) =
    outcome (transaction (bnd (external mysql_down (\<lambda>db. ((), db))) (\<lambda>_. throw (coupon_not_found command))) (db0, fs))"
proof -
  have "redeem_check command (map_option UserCouponMapper_toDomain
      (find (\<lambda>row. ck (u_code row) = ck (rd_code command)) (d_user_coupons db))) = Inl (coupon_not_found command)"
  proof (cases "find (\<lambda>row. ck (u_code row) = ck (rd_code command)) (d_user_coupons db)")
    case (Some row)
    then have "row \<in> set (d_user_coupons db)" "ck (u_code row) = ck (rd_code command)"
      by (auto simp: find_Some_iff)
    with assms have "js_Number (u_userId row) \<noteq> rd_userId command" by (simp add: owns_none_def)
    with Some show ?thesis by (simp add: redeem_check_def isOwnedBy_def UserCouponMapper_toDomain_def)
  qed (simp add: redeem_check_def)
  then have body: "redeem_body ck now command (db, gs) =
      bnd (external mysql_down (\<lambda>db. ((), db))) (\<lambda>_. throw (coupon_not_found command)) (db, gs)" for gs
    by (cases rule: external_cases [where e = mysql_down and s = db and fs = gs and f = "\<lambda>db. ((), db)"];
        cases gs; cases "hd gs"; simp add: redeem_body_def findByCode_def bnd_def)
  show ?thesis
    unfolding redeem_def transaction_def
    by (cases fs; cases "hd fs"; cases "tl fs"; cases "hd (tl fs)"; simp add: bnd_def body)
qed

section \<open>Properties\<close>

text \<open>Whatever fails, an answer 200 to a redeem means that the coupon of that code belongs to the
  caller and is USED now, and the body tells its use time.\<close>

lemma redeem_ok_means_used:
  assumes "db_ok ck db" "UserId user_header = Inr userId"
    and "respond names c_mapDomain (RedeemCouponController_redeem ck now code user_header) (db, fs) = (Inr rsp, db', fs')"
    and "rp_status rsp = 200"
  shows "\<exists>row \<in> set (d_user_coupons db'). \<exists>t new. ck (u_code row) = ck code \<and> js_Number (u_userId row) = userId \<and>
    u_status row = UC_USED \<and> u_usedAt row = Some t \<and>
    rp_body rsp = ApiResponses_success (JObj [(''code'', JStr (u_code row)), (''userId'', JNum userId),
      (''redeemedAt'', JStr (toLocalDateTimeString t)), (''newlyRedeemed'', JBool new)])"
proof (cases "RedeemCommand_new (Some code) userId")
  case (Inl e)
  then obtain m where "e = InvalidArgumentError m" using RedeemCommand_new_Inl by blast
  with Inl assms(2-4) show ?thesis
    by (auto simp: RedeemCouponController_redeem_def filter_catch_def c_mapDomain_def or_else_def mapped_def failure_response_def)
next
  case new: (Inr command)
  note command = RedeemCommand_new_Inr [OF new]
  obtain q d gs where r: "redeem ck now command (db, fs) = (q, d, gs)"
    by (cases "redeem ck now command (db, fs)")
  note spec = redeem_refines [OF assms(1), of now command fs, unfolded r committed_or_untouched_def]
  show ?thesis
  proof (cases q)
    case (Inl e)
    with spec have "e = mysql_down \<or> fst (redeem_spec ck now command db) = Inl e" by auto
    then have "e = mysql_down \<or> e = coupon_not_found command \<or> (\<exists>m. e = InvalidStateError m)"
      using fst_redeem_spec_error by blast
    moreover from Inl r assms(3) have "rsp = filter_catch names c_mapDomain e"
      by (simp add: redeem_answer [OF assms(2) new])
    ultimately show ?thesis
      using assms(4) by (auto simp: mysql_down_answer filter_catch_mapped coupon_not_found_def failure_response_def
          mapped_def internalError_def)
  next
    case (Inr x)
    with spec have "redeem_spec ck now command db = (Inr x, d)" by simp
    from redeem_spec_used [OF assms(1) this] obtain row t where row: "row \<in> set (d_user_coupons d)"
        "ck (u_code row) = ck code" "js_Number (u_userId row) = userId" "u_status row = UC_USED" "u_usedAt row = Some t"
        "rr_code x = u_code row" "rr_userId x = userId" "rr_redeemedAt x = t"
      unfolding command [THEN conjunct1] command [THEN conjunct2] by blast
    from Inr r assms(3) have "d = db'" "rsp = ok_response (ApiResponses_success (toRedeemView x))"
      by (simp_all add: redeem_answer [OF assms(2) new])
    with row show ?thesis
      by (intro bexI [of _ row] exI [of _ t] exI [of _ "rr_newlyRedeemed x"])
        (simp_all add: ok_response_def toRedeemView_def)
  qed
qed

lemma redeem_ok_means_used_witness:
  "list_ex (\<lambda>row. u_status row = UC_USED \<and> u_usedAt row = Some 8000) (d_user_coupons (final
     (respond (\<lambda>_. None) c_mapDomain (RedeemCouponController_redeem id 8000 ''AAAAAAAAAAAA'' (One_Header (dec 11)))
       (served_db 5, []))))"
proof -
  let ?row = "with_key (dec 1) (UserCouponMapper_toInsertValues served_coupon)"
  let ?cmd = "\<lparr>rd_code = ''AAAAAAAAAAAA'', rd_userId = 11\<rparr>"
  have spec: "redeem_spec id 8000 ?cmd (served_db 5) =
      (Inr (RedeemResult_succeeded ''AAAAAAAAAAAA'' 11 8000), replace_row ?row (use_row 8000 ?row) (served_db 5))"
    by (simp add: redeem_spec_def row_by_code_def served_coupon_def)
  have run: "respond (\<lambda>_. None) c_mapDomain (RedeemCouponController_redeem id 8000 ''AAAAAAAAAAAA'' (One_Header (dec 11)))
      (served_db 5, []) = (Inr (ok_response (ApiResponses_success (toRedeemView
        (RedeemResult_succeeded ''AAAAAAAAAAAA'' 11 8000)))), replace_row ?row (use_row 8000 ?row) (served_db 5), [])"
    by (simp add: respond_def try_catch_def RedeemCouponController_redeem_def UserId_dec RedeemCommand_new_def
        blank_def is_space_def bnd_def redeem_nil [OF served_db_ok] spec)
  from redeem_ok_means_used [OF served_db_ok UserId_dec run] obtain row t new where
    row: "row \<in> set (d_user_coupons (replace_row ?row (use_row 8000 ?row) (served_db 5)))" "u_status row = UC_USED"
      "u_usedAt row = Some t"
    by (auto simp: ok_response_def)
  then have "t = 8000" by (auto simp: replace_row_def)
  with row show ?thesis by (auto simp: run list_ex_iff)
qed

text \<open>C26. A caller who does not own the coupon cannot tell that it exists: under every pattern of faults
  the answer to a redeem is the one of a database without that code.\<close>

theorem redeem_hides_foreign_coupons:
  assumes "UserId user_header = Inr userId"
    and "list_all (\<lambda>row. ck (u_code row) = ck code \<longrightarrow> js_Number (u_userId row) \<noteq> userId) (d_user_coupons db)"
  shows "outcome (respond names c_mapDomain (RedeemCouponController_redeem ck now code user_header) (db, fs)) =
    outcome (respond names c_mapDomain (RedeemCouponController_redeem ck now code user_header)
      (db\<lparr>d_user_coupons := filter (\<lambda>row. ck (u_code row) \<noteq> ck code) (d_user_coupons db)\<rparr>, fs))"
proof (cases "RedeemCommand_new (Some code) userId")
  case (Inl e)
  with assms(1) show ?thesis by (simp add: RedeemCouponController_redeem_def)
next
  case (Inr command)
  let ?db' = "db\<lparr>d_user_coupons := filter (\<lambda>row. ck (u_code row) \<noteq> ck code) (d_user_coupons db)\<rparr>"
  note command = RedeemCommand_new_Inr [OF Inr]
  have "owns_none ck command db" "owns_none ck command ?db'"
    using assms(2) command by (auto simp: owns_none_def list_all_iff)
  then have "outcome (redeem ck now command (db, fs)) = outcome (redeem ck now command (?db', fs))"
    using redeem_owns_none [where ck = ck and command = command and fs = fs and now = now and ?db0.0 = db] by simp
  then show ?thesis by (simp add: redeem_answer [OF assms(1) Inr])
qed

theorem redeem_hides_foreign_coupons_witness:
  "outcome (respond (\<lambda>_. None) c_mapDomain (RedeemCouponController_redeem id 8000 ''AAAAAAAAAAAA'' (One_Header (dec 12)))
     (served_db 5, [NoFault, FailAfter])) =
   outcome (respond (\<lambda>_. None) c_mapDomain (RedeemCouponController_redeem id 8000 ''AAAAAAAAAAAA'' (One_Header (dec 12)))
     ((served_db 5)\<lparr>d_user_coupons := []\<rparr>, [NoFault, FailAfter]))"
  using redeem_hides_foreign_coupons [OF UserId_dec, of id "''AAAAAAAAAAAA''" 12 "served_db 5" "\<lambda>_. None" 8000 "[NoFault, FailAfter]"]
  by (simp add: served_coupon_def)

end
