(* ===== verification/B_Store.thy ===== *)
theory B_Store imports Redis Wire begin

text \<open>
  The pending-issue store of server-b: \<open>domain/pending-issue.ts\<close>, \<open>domain/statuses.ts\<close>,
  \<open>infrastructure/redis/redis-keys.ts\<close> and \<open>infrastructure/redis/redis-pending-issue.store.ts\<close>.
  A pair (user, coupon type) owns one hash and one member of the sorted set; no command spans both,
  so every method can stop between two of its commands.  \<open>pending_entry\<close> is what the store holds
  for a pair, seen as one value; the locale \<open>pending_store\<close> states what the clients rely on and is
  interpreted on the Redis store at the end.
\<close>

section \<open>Pending issues and keys\<close>

datatype issue_pending_status = PS_PENDING | PS_SUCCESS | PS_SOLD_OUT | PS_FAILED

fun pending_wire :: "issue_pending_status \<Rightarrow> string" where
  "pending_wire PS_PENDING = ''PENDING''"
| "pending_wire PS_SUCCESS = ''SUCCESS''"
| "pending_wire PS_SOLD_OUT = ''SOLD_OUT''"
| "pending_wire PS_FAILED = ''FAILED''"

text \<open>\<open>status\<close> is the text of the hash field: the code casts it to the enum unchecked.\<close>

record pending_issue =
  pi_requestId :: string
  pi_userId :: int
  pi_eventId :: int
  pi_couponTypeId :: int
  pi_status :: string
  pi_createdAt :: int
  pi_publishAttempts :: int

definition pendingHash :: "int \<Rightarrow> int \<Rightarrow> string" where
  "pendingHash userId couponTypeId = ''issue:pending:'' @ dec userId @ '':'' @ dec couponTypeId"

definition PENDING_ZSET :: string where
  "PENDING_ZSET = ''issue:pending:zset''"

definition pendingZsetMember :: "int \<Rightarrow> int \<Rightarrow> string" where
  "pendingZsetMember userId couponTypeId = dec userId @ '':'' @ dec couponTypeId"

section \<open>The Redis store\<close>

definition savePendingIfAbsent :: "int \<Rightarrow> string \<Rightarrow> int \<Rightarrow> int \<Rightarrow> int \<Rightarrow> int \<Rightarrow> (redis, exn, bool) eff" where
  "savePendingIfAbsent ttlSeconds requestId userId eventId couponTypeId createdAtMs =
     (let hashKey = pendingHash userId couponTypeId in
     bnd (redis_hsetnx hashKey ''userId'' (dec userId)) (\<lambda>firstField.
     if firstField = 0 then ret False
     else
       bnd (redis_hset hashKey
         [(''requestId'', requestId), (''userId'', dec userId), (''eventId'', dec eventId),
          (''couponTypeId'', dec couponTypeId), (''status'', pending_wire PS_PENDING),
          (''createdAt'', dec createdAtMs), (''publishAttempts'', ''1''),
          (''lastPublishedAt'', dec createdAtMs)]) (\<lambda>_.
       bnd (redis_expire hashKey ttlSeconds) (\<lambda>_.
       bnd (redis_zadd PENDING_ZSET createdAtMs (pendingZsetMember userId couponTypeId)) (\<lambda>_.
       ret True)))))"

definition recordRepublish :: "int \<Rightarrow> int \<Rightarrow> int \<Rightarrow> int \<Rightarrow> (redis, exn, int) eff" where
  "recordRepublish ttlSeconds userId couponTypeId publishedAtMs =
     (let hashKey = pendingHash userId couponTypeId in
     bnd (redis_hincrby hashKey ''publishAttempts'' 1) (\<lambda>updatedAttempts.
     bnd (redis_hset hashKey [(''lastPublishedAt'', dec publishedAtMs)]) (\<lambda>_.
     bnd (redis_expire hashKey ttlSeconds) (\<lambda>_.
     bnd (redis_zadd PENDING_ZSET publishedAtMs (pendingZsetMember userId couponTypeId)) (\<lambda>_.
     ret updatedAttempts)))))"

definition markResult :: "int \<Rightarrow> int \<Rightarrow> int \<Rightarrow> issue_pending_status \<Rightarrow> string option \<Rightarrow> (redis, exn, unit) eff" where
  "markResult ttlSeconds userId couponTypeId status code =
     (let hashKey = pendingHash userId couponTypeId in
     bnd (redis_hset hashKey [(''status'', pending_wire status)]) (\<lambda>_.
     bnd (case code of None \<Rightarrow> ret () | Some c \<Rightarrow> redis_hset hashKey [(''code'', c)]) (\<lambda>_.
     bnd (redis_expire hashKey ttlSeconds) (\<lambda>_.
     redis_zrem PENDING_ZSET (pendingZsetMember userId couponTypeId)))))"

definition parseLongStrict :: "string option \<Rightarrow> int option" where
  "parseLongStrict val = (case val of
      None \<Rightarrow> None
    | Some s \<Rightarrow> if LONG_PATTERN s then Some (js_Number s) else None)"

text \<open>The two identifiers of a member, unless it is malformed.\<close>

definition member_ids :: "string \<Rightarrow> (int \<times> int) option" where
  "member_ids m = (let parts = split_on CHR '':'' m in
     if length parts \<noteq> 2 then None
     else (case (parseLongStrict (Some (parts ! 0)), parseLongStrict (Some (parts ! 1))) of
        (Some userId, Some couponTypeId) \<Rightarrow> Some (userId, couponTypeId)
      | _ \<Rightarrow> None))"

text \<open>The item of a hash: skipped when a field is missing or \<open>publishAttempts\<close> is malformed.\<close>

definition pending_of_hash :: "int \<Rightarrow> int \<Rightarrow> hash_value \<Rightarrow> pending_issue option" where
  "pending_of_hash userId couponTypeId entries =
     (case (entries ''requestId'', entries ''eventId'', entries ''status'', entries ''createdAt'') of
        (Some requestId, Some eventIdStr, Some statusStr, Some createdAtStr) \<Rightarrow>
          (case (case entries ''publishAttempts'' of
                   None \<Rightarrow> Some 1 | Some attemptsStr \<Rightarrow> parseLongStrict (Some attemptsStr)) of
             None \<Rightarrow> None
           | Some publishAttempts \<Rightarrow> Some
               \<lparr>pi_requestId = requestId, pi_userId = userId, pi_eventId = js_Number eventIdStr,
                pi_couponTypeId = couponTypeId, pi_status = statusStr,
                pi_createdAt = js_Number createdAtStr, pi_publishAttempts = publishAttempts\<rparr>)
      | _ \<Rightarrow> None)"

fun read_members :: "string list \<Rightarrow> pending_issue list \<Rightarrow> (redis, exn, pending_issue list) eff" where
  "read_members [] result = ret result"
| "read_members (member # members) result = (case member_ids member of
      None \<Rightarrow> read_members members result
    | Some (userId, couponTypeId) \<Rightarrow>
        bnd (redis_hgetall (pendingHash userId couponTypeId)) (\<lambda>found. case found of
          None \<Rightarrow> bnd (redis_zrem PENDING_ZSET member) (\<lambda>_. read_members members result)
        | Some entries \<Rightarrow> (case pending_of_hash userId couponTypeId entries of
            None \<Rightarrow> read_members members result
          | Some p \<Rightarrow> read_members members (result @ [p]))))"

definition findPendingOlderThan :: "int \<Rightarrow> nat \<Rightarrow> (redis, exn, pending_issue list) eff" where
  "findPendingOlderThan cutoffEpochMs batchSize =
     bnd (redis_zrangebyscore PENDING_ZSET 0 cutoffEpochMs batchSize) (\<lambda>members.
     if members = [] then ret [] else read_members members [])"

section \<open>What the store holds for a pair\<close>

record pending_entry =
  en_item :: pending_issue
  en_score :: "int option"

definition entry :: "redis \<Rightarrow> int \<Rightarrow> int \<Rightarrow> pending_entry option" where
  "entry r u t = (case live_hash r (pendingHash u t) of
      None \<Rightarrow> None
    | Some (h, _) \<Rightarrow> map_option (\<lambda>p. \<lparr>en_item = p, en_score = zscore r PENDING_ZSET (pendingZsetMember u t)\<rparr>)
        (pending_of_hash u t h))"

text \<open>A pair is reserved when \<open>HSETNX\<close> on its first field fails.\<close>

definition reserved :: "redis \<Rightarrow> int \<Rightarrow> int \<Rightarrow> bool" where
  "reserved r u t \<longleftrightarrow> hash_field r (pendingHash u t) ''userId'' \<noteq> None"

definition store_ok :: "redis \<Rightarrow> bool" where
  "store_ok r \<longleftrightarrow> distinct (map fst (r_zsets r PENDING_ZSET)) \<and>
     (\<forall>m \<in> fst ` set (r_zsets r PENDING_ZSET). \<exists>u t. m = pendingZsetMember u t)"

lemma pendingHash_inject [simp]: "pendingHash u t = pendingHash u' t' \<longleftrightarrow> u = u' \<and> t = t'"
  by (simp add: pendingHash_def append_colon_inject)

lemma pendingZsetMember_inject [simp]: "pendingZsetMember u t = pendingZsetMember u' t' \<longleftrightarrow> u = u' \<and> t = t'"
  by (simp add: pendingZsetMember_def append_colon_inject)

lemma member_ids_member [simp]: "member_ids (pendingZsetMember u t) = Some (u, t)"
  by (simp add: member_ids_def pendingZsetMember_def split_on_append split_on_none parseLongStrict_def)

section \<open>Laws of the Redis store\<close>

text \<open>What two states agree on for a pair.\<close>

definition same_pair :: "int \<Rightarrow> int \<Rightarrow> redis \<Rightarrow> redis \<Rightarrow> bool" where
  "same_pair u t r r' \<longleftrightarrow> live_hash r' (pendingHash u t) = live_hash r (pendingHash u t) \<and>
     zscore r' PENDING_ZSET (pendingZsetMember u t) = zscore r PENDING_ZSET (pendingZsetMember u t)"

lemma same_pair_refl [simp]: "same_pair u t r r"
  by (simp add: same_pair_def)

lemma entry_same: "same_pair u t r r' \<Longrightarrow> entry r' u t = entry r u t"
  by (simp add: same_pair_def entry_def split: option.split prod.split)

lemma reserved_same: "same_pair u t r r' \<Longrightarrow> reserved r' u t = reserved r u t"
  by (simp add: same_pair_def reserved_def hash_field_def)

lemma live_hash_put_other [simp]: "k' \<noteq> k \<Longrightarrow> live_hash (put_fields k fvs r) k' = live_hash r k'"
  by (simp add: live_hash_put)

lemma live_hash_expire_other [simp]: "k' \<noteq> k \<Longrightarrow> live_hash (snd (do_expire k ttl r)) k' = live_hash r k'"
  by (auto simp: do_expire_def live_hash_def split: option.splits prod.splits)

lemma live_hash_hincrby_other [simp]: "k' \<noteq> k \<Longrightarrow> live_hash (snd (do_hincrby k f d r)) k' = live_hash r k'"
  by (auto simp: do_hincrby_def split: option.splits)

lemma live_hash_hsetnx_other [simp]: "k' \<noteq> k \<Longrightarrow> live_hash (snd (do_hsetnx k f v r)) k' = live_hash r k'"
  by (simp add: do_hsetnx_def)

lemma r_zsets_hincrby [simp]: "r_zsets (snd (do_hincrby k f d r)) = r_zsets r"
  by (auto simp: do_hincrby_def split: option.splits)

lemma r_zsets_hsetnx [simp]: "r_zsets (snd (do_hsetnx k f v r)) = r_zsets r"
  by (simp add: do_hsetnx_def)

lemma zscore_hincrby [simp]: "zscore (snd (do_hincrby k f d r)) z m = zscore r z m"
  by (simp add: zscore_def)

lemma zscore_hsetnx [simp]: "zscore (snd (do_hsetnx k f v r)) z m = zscore r z m"
  by (simp add: zscore_def)

lemmas store_defs = savePendingIfAbsent_def recordRepublish_def markResult_def Let_def
  redis_hsetnx_def redis_hset_def redis_hincrby_def redis_expire_def redis_zadd_def redis_zrem_def

text \<open>Every method leaves the other pairs alone, whatever fails.\<close>

lemma save_other_pair: "(u', t') \<noteq> (u, t) \<Longrightarrow> keeps_inv (same_pair u' t' r0) (savePendingIfAbsent ttl rid u e t now)"
  unfolding store_defs by (intro keeps) (auto simp: same_pair_def)

lemma republish_other_pair: "(u', t') \<noteq> (u, t) \<Longrightarrow> keeps_inv (same_pair u' t' r0) (recordRepublish ttl u t now)"
  unfolding store_defs by (intro keeps) (auto simp: same_pair_def)

lemma mark_other_pair: "(u', t') \<noteq> (u, t) \<Longrightarrow> keeps_inv (same_pair u' t' r0) (markResult ttl u t st code)"
  unfolding store_defs by (intro keeps) (auto simp: same_pair_def)

section \<open>The invariant of the store\<close>

text \<open>Members are canonical and unique, and a hash with a request has a counter.\<close>

definition counted :: "redis \<Rightarrow> bool" where
  "counted r \<longleftrightarrow> (\<forall>u t h x. live_hash r (pendingHash u t) = Some (h, x) \<longrightarrow> h ''requestId'' \<noteq> None \<longrightarrow>
     (\<exists>n. h ''publishAttempts'' = Some (dec n)))"

definition pending_ok :: "redis \<Rightarrow> bool" where
  "pending_ok r \<longleftrightarrow> store_ok r \<and> counted r"

lemma store_ok_zsets: "r_zsets r' = r_zsets r \<Longrightarrow> store_ok r' = store_ok r"
  by (simp add: store_ok_def)

lemma store_ok_zadd: "store_ok r \<Longrightarrow> store_ok (snd (do_zadd PENDING_ZSET s (pendingZsetMember u t) r))"
  by (auto simp: store_ok_def do_zadd_def distinct_map_filter)

lemma store_ok_zrem: "store_ok r \<Longrightarrow> store_ok (snd (do_zrem PENDING_ZSET m r))"
  by (auto simp: store_ok_def do_zrem_def distinct_map_filter)

lemma store_ok_same [simp]:
  "store_ok (put_fields k fvs r) = store_ok r" "store_ok (snd (do_expire k ttl r)) = store_ok r"
  "store_ok (snd (do_hincrby k f d r)) = store_ok r" "store_ok (snd (do_hsetnx k f v r)) = store_ok r"
  by (rule store_ok_zsets, simp)+

lemma countedD:
  "counted r \<Longrightarrow> live_hash r (pendingHash u t) = Some (h, x) \<Longrightarrow> h ''requestId'' \<noteq> None \<Longrightarrow>
   \<exists>n. h ''publishAttempts'' = Some (dec n)"
  unfolding counted_def by blast

lemma counted_hashes: "(\<And>k. live_hash r' k = live_hash r k) \<Longrightarrow> counted r' = counted r"
  by (simp add: counted_def)

lemma counted_put:
  assumes "counted r"
    and "\<And>h. (h ''requestId'' \<noteq> None \<longrightarrow> (\<exists>n. h ''publishAttempts'' = Some (dec n))) \<Longrightarrow>
      foldl (\<lambda>h (f, v). h(f \<mapsto> v)) h fvs ''requestId'' \<noteq> None \<Longrightarrow>
      \<exists>n. foldl (\<lambda>h (f, v). h(f \<mapsto> v)) h fvs ''publishAttempts'' = Some (dec n)"
  shows "counted (put_fields (pendingHash u t) fvs r)"
  unfolding counted_def
proof (intro allI impI)
  fix u' t' h x
  assume l: "live_hash (put_fields (pendingHash u t) fvs r) (pendingHash u' t') = Some (h, x)"
    and q: "h ''requestId'' \<noteq> None"
  show "\<exists>n. h ''publishAttempts'' = Some (dec n)"
  proof (cases "(u', t') = (u, t)")
    case False
    with l have "live_hash r (pendingHash u' t') = Some (h, x)" by (auto simp: live_hash_put)
    from countedD [OF assms(1) this q] show ?thesis .
  next
    case True
    with l obtain h0 where h: "h = foldl (\<lambda>h (f, v). h(f \<mapsto> v)) h0 fvs"
        "h0 = Map.empty \<or> (\<exists>x0. live_hash r (pendingHash u t) = Some (h0, x0))"
      by (auto simp: live_hash_put split: option.splits prod.splits)
    then have "h0 ''requestId'' \<noteq> None \<longrightarrow> (\<exists>n. h0 ''publishAttempts'' = Some (dec n))"
      using countedD [OF assms(1), of u t h0] by auto
    from assms(2) [OF this] q h(1) show ?thesis by simp
  qed
qed

lemma live_hash_expire_Some:
  "live_hash (snd (do_expire k ttl r)) k' = Some (h, x) \<Longrightarrow> \<exists>y. live_hash r k' = Some (h, y)"
proof (cases "k' = k")
  case True
  assume "live_hash (snd (do_expire k ttl r)) k' = Some (h, x)"
  with True show ?thesis
    by (cases "live_hash r k") (auto simp: do_expire_def, auto simp: live_hash_def split: if_splits)
qed auto

lemma counted_expire: "counted r \<Longrightarrow> counted (snd (do_expire k ttl r))"
  unfolding counted_def by (metis live_hash_expire_Some)

lemma counted_zset [simp]:
  "counted (snd (do_zadd z s m r)) = counted r" "counted (snd (do_zrem z m r)) = counted r"
  by (simp_all add: counted_def)

lemma one_is_dec: "''1'' = dec 1"
  by code_simp

lemma counted_hincrby:
  "counted r \<Longrightarrow> counted (snd (do_hincrby (pendingHash u t) ''publishAttempts'' d r))"
  by (auto simp: do_hincrby_def split: option.split intro!: counted_put)

lemma counted_hsetnx:
  "counted r \<Longrightarrow> counted (snd (do_hsetnx (pendingHash u t) ''userId'' v r))"
  by (auto simp: do_hsetnx_def intro!: counted_put)

lemma counted_put_save:
  "counted r \<Longrightarrow> counted (put_fields (pendingHash u t) [(''requestId'', a), (''userId'', b), (''eventId'', c),
     (''couponTypeId'', d), (''status'', e), (''createdAt'', f), (''publishAttempts'', ''1''), (''lastPublishedAt'', g)] r)"
  by (rule counted_put) (auto simp: one_is_dec)

lemma counted_put_one:
  "counted r \<Longrightarrow> f \<noteq> ''requestId'' \<Longrightarrow> f \<noteq> ''publishAttempts'' \<Longrightarrow> counted (put_fields (pendingHash u t) [(f, v)] r)"
  by (rule counted_put) auto

lemma keeps_pending_commands:
  "keeps_inv pending_ok (redis_hsetnx (pendingHash u t) ''userId'' v)"
  "keeps_inv pending_ok (redis_hset (pendingHash u t) [(''requestId'', a), (''userId'', b), (''eventId'', c),
     (''couponTypeId'', d), (''status'', e), (''createdAt'', f), (''publishAttempts'', ''1''), (''lastPublishedAt'', g)])"
  "keeps_inv pending_ok (redis_hset (pendingHash u t) [(''status'', v)])"
  "keeps_inv pending_ok (redis_hset (pendingHash u t) [(''code'', v)])"
  "keeps_inv pending_ok (redis_hset (pendingHash u t) [(''lastPublishedAt'', v)])"
  "keeps_inv pending_ok (redis_hincrby (pendingHash u t) ''publishAttempts'' n)"
  "keeps_inv pending_ok (redis_expire k ttl)"
  "keeps_inv pending_ok (redis_zadd PENDING_ZSET s (pendingZsetMember u t))"
  "keeps_inv pending_ok (redis_zrem PENDING_ZSET m)"
  "keeps_inv pending_ok (redis_hgetall k)"
  "keeps_inv pending_ok (redis_zrangebyscore z lo hi cnt)"
  unfolding redis_hsetnx_def redis_hset_def redis_hincrby_def redis_expire_def redis_zadd_def
      redis_zrem_def redis_hgetall_def redis_zrangebyscore_def
  by (rule keeps_external keeps_external_try, simp add: pending_ok_def store_ok_zadd
      store_ok_zrem counted_put_save counted_put_one counted_expire counted_hincrby counted_hsetnx)+

lemma keeps_pending_ok [keeps]:
  "keeps_inv pending_ok (savePendingIfAbsent ttl rid u e t now)"
  "keeps_inv pending_ok (recordRepublish ttl u t now)"
  "keeps_inv pending_ok (markResult ttl u t st code)"
  unfolding savePendingIfAbsent_def recordRepublish_def markResult_def Let_def
  by (intro keeps_bnd keeps_if keeps_option keeps_ret keeps_pending_commands)+

section \<open>What each method does to the pair of its arguments\<close>

lemma honest_store:
  "honest (savePendingIfAbsent ttl rid u e t now)" "honest (recordRepublish ttl u t now)"
  "honest (markResult ttl u t st code)"
  unfolding store_defs by (intro honest)+

lemma save_reserved:
  assumes "reserved r u t" "savePendingIfAbsent ttl rid u e t now (r, fs) = (q, r', fs')"
  shows "r' = r \<and> q \<noteq> Inr True"
proof -
  have d: "do_hsetnx (pendingHash u t) ''userId'' v r = (0, r)" for v
    using assms(1) by (simp add: do_hsetnx_def reserved_def)
  show ?thesis
    using assms(2)
    by (cases rule: external_cases [where e = redis_down and s = r and fs = fs and
          f = "do_hsetnx (pendingHash u t) ''userId'' (dec u)"])
      (auto simp: savePendingIfAbsent_def Let_def redis_hsetnx_def bnd_def d)
qed

definition fresh_item :: "string \<Rightarrow> int \<Rightarrow> int \<Rightarrow> int \<Rightarrow> int \<Rightarrow> pending_issue" where
  "fresh_item rid u e t now = \<lparr>pi_requestId = rid, pi_userId = u, pi_eventId = e, pi_couponTypeId = t,
     pi_status = ''PENDING'', pi_createdAt = now, pi_publishAttempts = 1\<rparr>"

lemma js_Number_one [simp]: "js_Number ''1'' = 1" "LONG_PATTERN ''1''"
  by (simp_all only: one_is_dec js_Number_dec LONG_PATTERN_dec)

lemma savePending_nil:
  fixes rid :: string and e now :: int
  assumes "0 < ttl" "\<not> reserved r u t"
  defines "r' \<equiv> final (savePendingIfAbsent ttl rid u e t now (r, []))"
  shows "outcome (savePendingIfAbsent ttl rid u e t now (r, [])) = Inr True"
    and "reserved r' u t"
    and "entry r' u t = Some \<lparr>en_item = fresh_item rid u e t now, en_score = Some now\<rparr>"
proof -
  let ?k = "pendingHash u t"
  let ?r1 = "put_fields ?k [(''userId'', dec u)] r"
  let ?r2 = "put_fields ?k [(''requestId'', rid), (''userId'', dec u), (''eventId'', dec e),
      (''couponTypeId'', dec t), (''status'', ''PENDING''), (''createdAt'', dec now),
      (''publishAttempts'', ''1''), (''lastPublishedAt'', dec now)] ?r1"
  let ?r4 = "snd (do_zadd PENDING_ZSET now (pendingZsetMember u t) (snd (do_expire ?k ttl ?r2)))"
  have d: "do_hsetnx ?k ''userId'' (dec u) r = (1, ?r1)"
    using assms(2) by (simp add: do_hsetnx_def reserved_def)
  have run: "savePendingIfAbsent ttl rid u e t now (r, []) = (Inr True, ?r4, [])"
    by (simp add: store_defs d)
  then show "outcome (savePendingIfAbsent ttl rid u e t now (r, [])) = Inr True" by simp
  obtain h x where h: "live_hash ?r2 ?k = Some (h, x)" "h ''userId'' = Some (dec u)" "h ''requestId'' = Some rid"
      "h ''eventId'' = Some (dec e)" "h ''status'' = Some ''PENDING''" "h ''createdAt'' = Some (dec now)"
      "h ''publishAttempts'' = Some ''1''"
    by (cases "live_hash r ?k") (auto simp: live_hash_put split: prod.split)
  have r': "r' = ?r4" by (simp add: r'_def run)
  have live: "live_hash r' ?k = Some (h, Some (r_now r + 1000 * ttl))"
    using assms(1) h(1) by (simp add: r' live_hash_expire)
  with h(2) show "reserved r' u t" by (simp add: reserved_def hash_field_def)
  have "zscore r' PENDING_ZSET (pendingZsetMember u t) = Some now" by (simp add: r')
  with live h(3-7) show "entry r' u t = Some \<lparr>en_item = fresh_item rid u e t now, en_score = Some now\<rparr>"
    by (simp add: entry_def pending_of_hash_def fresh_item_def parseLongStrict_def)
qed

lemma save_True:
  assumes "0 < ttl" "savePendingIfAbsent ttl rid u e t now (r, fs) = (Inr True, r', fs')"
  shows "\<not> reserved r u t" "reserved r' u t"
    "entry r' u t = Some \<lparr>en_item = fresh_item rid u e t now, en_score = Some now\<rparr>"
proof -
  show nr: "\<not> reserved r u t" using save_reserved [OF _ assms(2)] by blast
  note run = honestD [OF honest_store(1) assms(2)]
  from savePending_nil [OF assms(1) nr, of rid e now] show "reserved r' u t"
    "entry r' u t = Some \<lparr>en_item = fresh_item rid u e t now, en_score = Some now\<rparr>"
    by (simp_all add: run)
qed

lemma entryE:
  assumes "entry r u t = Some en"
  obtains h x where "live_hash r (pendingHash u t) = Some (h, x)" "pending_of_hash u t h = Some (en_item en)"
    "en_score en = zscore r PENDING_ZSET (pendingZsetMember u t)"
  using assms by (auto simp: entry_def split: option.splits)

lemma pending_of_hashE:
  assumes "pending_of_hash u t h = Some p"
  shows "h ''requestId'' = Some (pi_requestId p)" "h ''status'' = Some (pi_status p)"
    "pi_userId p = u" "pi_couponTypeId p = t" "h ''requestId'' \<noteq> None"
  using assms by (auto simp: pending_of_hash_def split: option.splits)

lemma pending_of_hash_put:
  assumes "pending_of_hash u t h = Some p"
  shows "pending_of_hash u t (h(''status'' \<mapsto> v)) = Some (p\<lparr>pi_status := v\<rparr>)"
    "pending_of_hash u t (h(''publishAttempts'' \<mapsto> dec n)) = Some (p\<lparr>pi_publishAttempts := n\<rparr>)"
    "pending_of_hash u t (h(''lastPublishedAt'' \<mapsto> v)) = Some p"
    "pending_of_hash u t (h(''code'' \<mapsto> v)) = Some p"
  using assms by (auto simp: pending_of_hash_def parseLongStrict_def split: option.splits)

lemma entry_put:
  assumes "entry r u t = Some en"
  shows "entry (put_fields (pendingHash u t) [(''status'', v)] r) u t = Some (en\<lparr>en_item := (en_item en)\<lparr>pi_status := v\<rparr>\<rparr>)"
    "entry (put_fields (pendingHash u t) [(''publishAttempts'', dec n)] r) u t =
       Some (en\<lparr>en_item := (en_item en)\<lparr>pi_publishAttempts := n\<rparr>\<rparr>)"
    "entry (put_fields (pendingHash u t) [(''lastPublishedAt'', v)] r) u t = Some en"
    "entry (put_fields (pendingHash u t) [(''code'', v)] r) u t = Some en"
proof -
  obtain h x where h: "live_hash r (pendingHash u t) = Some (h, x)" "pending_of_hash u t h = Some (en_item en)"
    "en_score en = zscore r PENDING_ZSET (pendingZsetMember u t)"
    using assms by (rule entryE)
  then show "entry (put_fields (pendingHash u t) [(''status'', v)] r) u t = Some (en\<lparr>en_item := (en_item en)\<lparr>pi_status := v\<rparr>\<rparr>)"
    "entry (put_fields (pendingHash u t) [(''publishAttempts'', dec n)] r) u t =
       Some (en\<lparr>en_item := (en_item en)\<lparr>pi_publishAttempts := n\<rparr>\<rparr>)"
    "entry (put_fields (pendingHash u t) [(''lastPublishedAt'', v)] r) u t = Some en"
    "entry (put_fields (pendingHash u t) [(''code'', v)] r) u t = Some en"
    by (simp_all add: entry_def live_hash_put pending_of_hash_put [OF h(2)])
qed

lemma entry_expire:
  "0 < ttl \<Longrightarrow> entry r u t = Some en \<Longrightarrow> entry (snd (do_expire k ttl r)) u t = Some en"
  by (erule entryE, cases "k = pendingHash u t") (auto simp: entry_def live_hash_expire)

lemma entry_zset:
  "entry r u t = Some en \<Longrightarrow>
   entry (snd (do_zadd PENDING_ZSET s (pendingZsetMember u t) r)) u t = Some (en\<lparr>en_score := Some s\<rparr>)"
  "entry r u t = Some en \<Longrightarrow>
   entry (snd (do_zrem PENDING_ZSET (pendingZsetMember u t) r)) u t = Some (en\<lparr>en_score := None\<rparr>)"
  by (erule entryE, simp add: entry_def)+

text \<open>The counter of a counted pair is the one \<open>HINCRBY\<close> increments.\<close>

lemma hincrby_entry:
  assumes "counted r" "entry r u t = Some en"
  shows "do_hincrby (pendingHash u t) ''publishAttempts'' d r =
    (Inr (pi_publishAttempts (en_item en) + d),
     put_fields (pendingHash u t) [(''publishAttempts'', dec (pi_publishAttempts (en_item en) + d))] r)"
proof -
  obtain h x where h: "live_hash r (pendingHash u t) = Some (h, x)" "pending_of_hash u t h = Some (en_item en)"
    using assms(2) by (rule entryE)
  from countedD [OF assms(1) h(1) pending_of_hashE(5) [OF h(2)]]
  obtain n where n: "h ''publishAttempts'' = Some (dec n)" ..
  with h(2) have "pi_publishAttempts (en_item en) = n"
    by (auto simp: pending_of_hash_def parseLongStrict_def split: option.splits
        dest!: arg_cong [where f = pi_publishAttempts])
  with h n show ?thesis by (simp add: do_hincrby_def hash_field_def)
qed

lemma republish_nil:
  assumes "0 < ttl" "counted r" "entry r u t = Some en"
  shows "outcome (recordRepublish ttl u t now (r, [])) = Inr (pi_publishAttempts (en_item en) + 1)"
    and "entry (final (recordRepublish ttl u t now (r, []))) u t = Some (en\<lparr>en_item := (en_item en)
      \<lparr>pi_publishAttempts := pi_publishAttempts (en_item en) + 1\<rparr>, en_score := Some now\<rparr>)"
proof -
  let ?n = "pi_publishAttempts (en_item en) + 1" and ?k = "pendingHash u t"
  let ?r1 = "put_fields ?k [(''publishAttempts'', dec ?n)] r"
  let ?r2 = "put_fields ?k [(''lastPublishedAt'', dec now)] ?r1"
  let ?r4 = "snd (do_zadd PENDING_ZSET now (pendingZsetMember u t) (snd (do_expire ?k ttl ?r2)))"
  have run: "recordRepublish ttl u t now (r, []) = (Inr ?n, ?r4, [])"
    by (simp add: store_defs hincrby_entry [OF assms(2,3)])
  then show "outcome (recordRepublish ttl u t now (r, [])) = Inr ?n" by simp
  from entry_zset(1) [OF entry_expire [OF assms(1) entry_put(3) [OF entry_put(2) [OF assms(3)]]]]
  show "entry (final (recordRepublish ttl u t now (r, []))) u t = Some (en\<lparr>en_item := (en_item en)
      \<lparr>pi_publishAttempts := ?n\<rparr>, en_score := Some now\<rparr>)" by (simp add: run)
qed

lemma mark_nil:
  assumes "0 < ttl" "entry r u t = Some en"
  shows "outcome (markResult ttl u t st code (r, [])) = Inr ()"
    and "entry (final (markResult ttl u t st code (r, []))) u t =
      Some (en\<lparr>en_item := (en_item en)\<lparr>pi_status := pending_wire st\<rparr>, en_score := None\<rparr>)"
  using entry_zset(2) [OF entry_expire [OF assms(1)]] entry_put [OF assms(2)] entry_put [OF entry_put(1) [OF assms(2)]]
  by (cases code; simp add: store_defs)+

end
