(* ===== verification/B_Stale.thy ===== *)
theory B_Stale imports B_Store begin

text \<open>
  More of the Redis store: what its methods leave behind when a command fails, and what the look-up
  of stale issues returns.
\<close>

section \<open>Faults\<close>

text \<open>Under any faults a republish counts once or not at all, and a result is either written or not.\<close>

definition has_item :: "int \<Rightarrow> int \<Rightarrow> pending_issue \<Rightarrow> redis \<Rightarrow> bool" where
  "has_item u t p r \<longleftrightarrow> (\<exists>en. entry r u t = Some en \<and> en_item en = p)"

lemma has_item_zset [simp]:
  "has_item u t p (snd (do_zadd z s m r)) = has_item u t p r" "has_item u t p (snd (do_zrem z m r)) = has_item u t p r"
  by (auto simp: has_item_def entry_def split: option.splits prod.splits)

lemma has_item_put:
  assumes "has_item u t p r"
  shows "has_item u t (p\<lparr>pi_status := v\<rparr>) (put_fields (pendingHash u t) [(''status'', v)] r)"
    "has_item u t (p\<lparr>pi_publishAttempts := n\<rparr>) (put_fields (pendingHash u t) [(''publishAttempts'', dec n)] r)"
    "has_item u t p (put_fields (pendingHash u t) [(''lastPublishedAt'', v)] r)"
    "has_item u t p (put_fields (pendingHash u t) [(''code'', v)] r)"
  using assms entry_put unfolding has_item_def by fastforce+

lemma has_item_expire: "0 < ttl \<Longrightarrow> has_item u t p r \<Longrightarrow> has_item u t p (snd (do_expire k ttl r))"
  using entry_expire unfolding has_item_def by blast

lemma republish_any:
  fixes now :: int and fs :: "fault list"
  assumes "0 < ttl" "counted r" "has_item u t p r"
  defines "r' \<equiv> final (recordRepublish ttl u t now (r, fs))"
  shows "has_item u t p r' \<or> has_item u t (p\<lparr>pi_publishAttempts := pi_publishAttempts p + 1\<rparr>) r'"
proof -
  let ?p = "p\<lparr>pi_publishAttempts := pi_publishAttempts p + 1\<rparr>" and ?k = "pendingHash u t"
  let ?h = "redis_hincrby ?k ''publishAttempts'' 1"
  let ?rest = "\<lambda>n :: int. bnd (redis_hset ?k [(''lastPublishedAt'', dec now)]) (\<lambda>_. bnd (redis_expire ?k ttl) (\<lambda>_.
      bnd (redis_zadd PENDING_ZSET now (pendingZsetMember u t)) (\<lambda>_. ret n)))"
  have rest: "keeps_inv (has_item u t q) (?rest n)" for q n
    unfolding redis_hset_def redis_expire_def redis_zadd_def
    by (intro keeps) (simp_all add: has_item_put has_item_expire assms(1))
  obtain en where en: "entry r u t = Some en" "en_item en = p" using assms(3) by (auto simp: has_item_def)
  note inc = hincrby_entry [OF assms(2) en(1), unfolded en(2)]
  obtain q r1 gs where w: "?h (r, fs) = (q, r1, gs)" by (cases "?h (r, fs)")
  have "r1 = r \<or> has_item u t ?p r1"
    using w has_item_put(2) [OF assms(3), of "pi_publishAttempts p + 1"]
    by (cases rule: external_cases [where e = redis_down and f = "do_hincrby ?k ''publishAttempts'' 1" and s = r and fs = fs])
      (auto simp: redis_hincrby_def external_try_def bnd_def inc)
  moreover have "r' = r1 \<or> (\<exists>n. r' = final (?rest n (r1, gs)))"
  proof (cases q)
    case (Inr n)
    then have "r' = final (?rest n (r1, gs))"
      unfolding r'_def recordRepublish_def Let_def bnd_def [of ?h] w by simp
    then show ?thesis by (intro disjI2 exI)
  qed (simp add: r'_def recordRepublish_def Let_def bnd_def [of ?h] w)
  ultimately show ?thesis
    using keeps_invD [OF rest, of p r1 _ gs] keeps_invD [OF rest, of ?p r1 _ gs] assms(3) by auto
qed

lemma mark_any:
  fixes st :: issue_pending_status and code :: "string option" and fs :: "fault list"
  assumes "0 < ttl" "has_item u t p r"
  defines "r' \<equiv> final (markResult ttl u t st code (r, fs))"
  shows "has_item u t p r' \<or> has_item u t (p\<lparr>pi_status := pending_wire st\<rparr>) r'"
proof -
  let ?I = "\<lambda>r. has_item u t p r \<or> has_item u t (p\<lparr>pi_status := pending_wire st\<rparr>) r"
  have status: "?I s \<Longrightarrow> ?I (put_fields (pendingHash u t) [(''status'', pending_wire st)] s)" for s
    using has_item_put(1) by fastforce
  have code: "?I s \<Longrightarrow> ?I (put_fields (pendingHash u t) [(''code'', c)] s)" for s c
    using has_item_put(4) by blast
  have expire: "?I s \<Longrightarrow> ?I (snd (do_expire k ttl s))" for s k
    using has_item_expire [OF assms(1)] by blast
  have "keeps_inv ?I (markResult ttl u t st code)"
    unfolding store_defs
    by (intro keeps) (simp only: snd_conv status, simp only: snd_conv code, simp only: expire, simp)
  from keeps_invD [OF this] show ?thesis using assms(2) by (auto simp: r'_def)
qed

section \<open>Looking for stale issues\<close>

definition item_of :: "redis \<Rightarrow> string \<Rightarrow> pending_issue option" where
  "item_of r m = (case member_ids m of None \<Rightarrow> None
     | Some (u, t) \<Rightarrow> (case live_hash r (pendingHash u t) of None \<Rightarrow> None | Some (h, _) \<Rightarrow> pending_of_hash u t h))"

lemma item_of_zrem: "item_of (snd (do_zrem z m r)) = item_of r"
  by (rule ext) (simp add: item_of_def split: option.split)

text \<open>Cleaning up orphans is invisible: they have no hash.\<close>

definition same_entries :: "redis \<Rightarrow> redis \<Rightarrow> bool" where
  "same_entries r r' \<longleftrightarrow> (\<forall>u t. entry r' u t = entry r u t \<and> reserved r' u t = reserved r u t)"

definition known_or_kept :: "redis \<Rightarrow> redis \<Rightarrow> bool" where
  "known_or_kept r r' \<longleftrightarrow> (\<forall>k. live_hash r' k = live_hash r k) \<and>
     fst ` set (r_zsets r' PENDING_ZSET) \<subseteq> fst ` set (r_zsets r PENDING_ZSET) \<and>
     length (r_zsets r' PENDING_ZSET) \<le> length (r_zsets r PENDING_ZSET) \<and>
     (\<forall>u t. live_hash r (pendingHash u t) \<noteq> None \<longrightarrow>
       zscore r' PENDING_ZSET (pendingZsetMember u t) = zscore r PENDING_ZSET (pendingZsetMember u t))"

lemma known_refl [simp]: "known_or_kept r r"
  by (simp add: known_or_kept_def)

lemma known_same_entries: "known_or_kept r r' \<Longrightarrow> same_entries r r'"
  by (auto simp: known_or_kept_def same_entries_def entry_def reserved_def hash_field_def split: option.split)

lemma known_backlog: "known_or_kept r r' \<Longrightarrow> length (r_zsets r' PENDING_ZSET) \<le> length (r_zsets r PENDING_ZSET)"
  by (simp add: known_or_kept_def)

lemma known_zrem:
  assumes "known_or_kept r0 r" "live_hash r (pendingHash u t) = None" "member_ids m = Some (u, t)"
  shows "known_or_kept r0 (snd (do_zrem PENDING_ZSET m r))"
proof -
  have ne: "pendingZsetMember u' t' \<noteq> m" if "live_hash r (pendingHash u' t') \<noteq> None" for u' t'
    using that assms(2,3) by force
  have len: "length (r_zsets (snd (do_zrem PENDING_ZSET m r)) PENDING_ZSET) \<le> length (r_zsets r PENDING_ZSET)"
    by (simp add: do_zrem_def)
  have sub: "fst ` set (r_zsets (snd (do_zrem PENDING_ZSET m r)) PENDING_ZSET) \<subseteq> fst ` set (r_zsets r PENDING_ZSET)"
    by (auto simp: do_zrem_def)
  note r = assms(1) [unfolded known_or_kept_def]
  have live: "live_hash r0 k = live_hash r k" for k using r by simp
  have "zscore (snd (do_zrem PENDING_ZSET m r)) PENDING_ZSET (pendingZsetMember u' t') =
      zscore r0 PENDING_ZSET (pendingZsetMember u' t')" if "live_hash r0 (pendingHash u' t') \<noteq> None" for u' t'
    using that r ne [of u' t'] unfolding live by simp
  then show ?thesis
    unfolding known_or_kept_def live_hash_zset
    using r order_trans [OF sub] order_trans [OF len] by (intro conjI allI impI) simp_all
qed

lemma keeps_read_members: "keeps_inv (known_or_kept r0) (read_members ms acc)"
proof (induction ms arbitrary: acc)
  case (Cons m ms)
  show ?case
  proof (cases "member_ids m")
    case None
    with Cons show ?thesis by simp
  next
    case (Some ut)
    obtain u t where ut: "ut = (u, t)" by (cases ut)
    show ?thesis
    proof (rule keeps_invI)
      fix r fs assume r: "known_or_kept r0 r"
      let ?k = "\<lambda>found. case found of
          None \<Rightarrow> bnd (redis_zrem PENDING_ZSET m) (\<lambda>_. read_members ms acc)
        | Some entries \<Rightarrow> (case pending_of_hash u t entries of
            None \<Rightarrow> read_members ms acc | Some p \<Rightarrow> read_members ms (acc @ [p]))"
      have k: "known_or_kept r0 (final (?k (map_option fst (live_hash r (pendingHash u t))) (r, gs)))" for gs
      proof (cases "live_hash r (pendingHash u t)")
        case None
        have z: "known_or_kept r0 (snd (do_zrem PENDING_ZSET m r))"
          by (rule known_zrem [OF r None]) (simp add: Some ut)
        then have "known_or_kept r0 (final (bnd (redis_zrem PENDING_ZSET m) (\<lambda>_. read_members ms acc) (r, gs)))"
          using r keeps_invD [OF Cons z]
          by (cases rule: external_cases [where e = redis_down and f = "do_zrem PENDING_ZSET m" and s = r and fs = gs])
            (simp_all add: redis_zrem_def bnd_def)
        with None show ?thesis by simp
      next
        case (Some hx)
        with keeps_invD [OF Cons r] show ?thesis by (cases "pending_of_hash u t (fst hx)") simp_all
      qed
      have run: "read_members (m # ms) acc = bnd (redis_hgetall (pendingHash u t)) ?k"
        using Some ut by simp
      show "known_or_kept r0 (final (read_members (m # ms) acc (r, fs)))"
        unfolding run using r k
        by (cases rule: external_cases [where e = redis_down and s = r and fs = fs and
              f = "\<lambda>r. (map_option fst (live_hash r (pendingHash u t)), r)"])
          (simp_all add: redis_hgetall_def bnd_def)
    qed
  qed
qed (simp add: keeps_ret)

lemma keeps_find: "keeps_inv (known_or_kept r0) (findPendingOlderThan cutoff n)"
  unfolding findPendingOlderThan_def redis_zrangebyscore_def
  by (intro keeps_bnd keeps_external keeps_if keeps_ret keeps_read_members) simp

lemma read_members_nil:
  "outcome (read_members ms acc (r, [])) = Inr (acc @ List.map_filter (item_of r) ms)"
proof (induction ms arbitrary: acc r)
  case (Cons m ms)
  show ?case
  proof (cases "member_ids m")
    case (Some ut)
    obtain u t where ut: "ut = (u, t)" by (cases ut)
    have zrem: "outcome (read_members ms acc (snd (do_zrem PENDING_ZSET m r), [])) =
        Inr (acc @ List.map_filter (item_of r) ms)"
      using Cons [of acc "snd (do_zrem PENDING_ZSET m r)"] by (simp add: item_of_zrem)
    show ?thesis
    proof (cases "live_hash r (pendingHash u t)")
      case None
      with Some ut zrem show ?thesis
        by (simp add: redis_hgetall_def redis_zrem_def List.map_filter_simps item_of_def [of r m])
    next
      case (Some hx)
      with \<open>member_ids m = Some ut\<close> ut Cons show ?thesis
        by (cases hx; cases "pending_of_hash u t (fst hx)")
          (simp_all add: redis_hgetall_def List.map_filter_simps item_of_def [of r m])
    qed
  qed (simp add: Cons List.map_filter_simps item_of_def [of r m])
qed (simp add: List.map_filter_simps)

lemma honest_find: "honest (findPendingOlderThan cutoff n)"
proof -
  have "honest (read_members ms acc)" for ms acc
  proof (induction ms arbitrary: acc)
    case (Cons m ms)
    then show ?case
      unfolding read_members.simps redis_hgetall_def redis_zrem_def by (intro honest Cons)
  qed (simp add: honest_ret)
  then show ?thesis
    unfolding findPendingOlderThan_def redis_zrangebyscore_def by (intro honest)
qed

definition stale_members :: "redis \<Rightarrow> int \<Rightarrow> nat \<Rightarrow> string list" where
  "stale_members r cutoff n = zrange (r_zsets r PENDING_ZSET) 0 cutoff n"

lemma find_nil:
  "outcome (findPendingOlderThan cutoff n (r, [])) = Inr (List.map_filter (item_of r) (stale_members r cutoff n))"
  by (simp add: findPendingOlderThan_def redis_zrangebyscore_def stale_members_def read_members_nil List.map_filter_simps)

section \<open>The stale issues are what is held\<close>

abbreviation pair_of :: "pending_issue \<Rightarrow> int \<times> int" where
  "pair_of p \<equiv> (pi_userId p, pi_couponTypeId p)"

lemma item_of_member: "item_of r (pendingZsetMember u t) = map_option en_item (entry r u t)"
  by (simp add: item_of_def entry_def option.map_comp comp_def option.map_ident split: option.split prod.split)

lemma item_of_pair: "item_of r (pendingZsetMember u t) = Some p \<Longrightarrow> pair_of p = (u, t)"
  by (auto simp: item_of_def dest: pending_of_hashE(3,4) split: option.splits)

lemma stale_memberE:
  assumes "store_ok r" "m \<in> set (stale_members r cutoff n)"
  obtains u t s where "m = pendingZsetMember u t" "zscore r PENDING_ZSET m = Some s" "0 \<le> s" "s \<le> cutoff"
proof -
  from assms(2) set_zrange [of "r_zsets r PENDING_ZSET" 0 cutoff n]
  obtain s where s: "(m, s) \<in> set (r_zsets r PENDING_ZSET)" "0 \<le> s" "s \<le> cutoff"
    by (auto simp: stale_members_def)
  with assms(1) have "zscore r PENDING_ZSET m = Some s" by (simp add: store_ok_def zscore_def)
  moreover from s assms(1) obtain u t where "m = pendingZsetMember u t" unfolding store_ok_def by force
  ultimately show thesis using s that by blast
qed

lemma distinct_stale: "store_ok r \<Longrightarrow> distinct (stale_members r cutoff n)"
  unfolding stale_members_def zrange_def store_ok_def
  by (intro distinct_take) (auto simp: distinct_map inj_on_def intro!: distinct_filter)

lemma distinct_items:
  assumes "distinct ms" "\<forall>m \<in> set ms. \<exists>u t. m = pendingZsetMember u t"
  shows "distinct (map pair_of (List.map_filter (item_of r) ms))"
  using assms
proof (induction ms)
  case (Cons m ms)
  then obtain u t where m: "m = pendingZsetMember u t" by auto
  have "pair_of p \<noteq> (u, t)" if p: "p \<in> set (List.map_filter (item_of r) ms)" for p
  proof -
    from p obtain m' where m': "m' \<in> set ms" "item_of r m' = Some p" by (auto simp: map_filter_def)
    with Cons.prems obtain u' t' where "m' = pendingZsetMember u' t'" by auto
    with m' item_of_pair Cons.prems(1) m show ?thesis by auto
  qed
  then have "(u, t) \<notin> set (map pair_of (List.map_filter (item_of r) ms))" by auto
  moreover from Cons have "distinct (map pair_of (List.map_filter (item_of r) ms))" by simp
  ultimately show ?case
    using item_of_pair [of r u t] by (cases "item_of r m") (simp_all add: List.map_filter_simps m)
qed (simp add: List.map_filter_simps)

lemma find_sound:
  assumes "store_ok r" "findPendingOlderThan cutoff n (r, fs) = (Inr ps, r', fs')"
  shows "distinct (map pair_of ps)"
    and "p \<in> set ps \<Longrightarrow> \<exists>en s. entry r (pi_userId p) (pi_couponTypeId p) = Some en \<and> en_item en = p \<and>
      en_score en = Some s \<and> 0 \<le> s \<and> s \<le> cutoff"
proof -
  from honestD [OF honest_find assms(2)] find_nil [of cutoff n r]
  have ps: "ps = List.map_filter (item_of r) (stale_members r cutoff n)" by simp
  show "distinct (map pair_of ps)"
    unfolding ps using stale_memberE [OF assms(1)] by (intro distinct_items distinct_stale assms(1)) metis
  assume "p \<in> set ps"
  then obtain m where m: "m \<in> set (stale_members r cutoff n)" "item_of r m = Some p"
    by (auto simp: ps map_filter_def)
  obtain u t s where ut: "m = pendingZsetMember u t" "zscore r PENDING_ZSET m = Some s" "0 \<le> s" "s \<le> cutoff"
    by (rule stale_memberE [OF assms(1) m(1)])
  with m(2) obtain en where "entry r u t = Some en" "en_item en = p" by (auto simp: item_of_member)
  moreover from this ut have "en_score en = Some s" by (auto elim!: entryE)
  moreover from m(2) ut(1) have "(pi_userId p, pi_couponTypeId p) = (u, t)" by (auto dest: item_of_pair)
  ultimately show "\<exists>en s. entry r (pi_userId p) (pi_couponTypeId p) = Some en \<and> en_item en = p \<and>
      en_score en = Some s \<and> 0 \<le> s \<and> s \<le> cutoff" using ut(3,4) by auto
qed

lemma find_complete:
  assumes "length (r_zsets r PENDING_ZSET) \<le> n" "entry r u t = Some en" "en_score en = Some s"
    "0 \<le> s" "s \<le> cutoff"
  shows "\<exists>ps. outcome (findPendingOlderThan cutoff n (r, [])) = Inr ps \<and> en_item en \<in> set ps"
proof -
  from assms(2,3) have "zscore r PENDING_ZSET (pendingZsetMember u t) = Some s" by (auto elim: entryE)
  then have "(pendingZsetMember u t, s) \<in> set (r_zsets r PENDING_ZSET)"
    by (auto simp: zscore_def dest: map_of_SomeD)
  with set_zrange_all [OF assms(1), of 0 cutoff] assms(4,5)
  have "pendingZsetMember u t \<in> set (stale_members r cutoff n)" by (auto simp: stale_members_def)
  moreover from assms(2) have "item_of r (pendingZsetMember u t) = Some (en_item en)" by (simp add: item_of_member)
  ultimately have "en_item en \<in> set (List.map_filter (item_of r) (stale_members r cutoff n))"
    by (force simp: map_filter_def)
  then show ?thesis by (simp add: find_nil)
qed

section \<open>The number of tracked pairs\<close>

definition tracked :: "redis \<Rightarrow> nat" where
  "tracked r = length (r_zsets r PENDING_ZSET)"

lemma tracked_simps [simp]:
  "tracked (put_fields k fvs r) = tracked r" "tracked (snd (do_expire k ttl r)) = tracked r"
  "tracked (snd (do_hincrby k f d r)) = tracked r"
  by (simp_all add: tracked_def)

lemma tracked_zrem: "tracked (snd (do_zrem z m r)) \<le> tracked r"
  by (simp add: tracked_def do_zrem_def)

lemma tracked_zadd:
  "zscore r PENDING_ZSET m \<noteq> None \<Longrightarrow> tracked (snd (do_zadd PENDING_ZSET s m r)) \<le> tracked r"
proof -
  assume "zscore r PENDING_ZSET m \<noteq> None"
  then obtain s' where "(m, s') \<in> set (r_zsets r PENDING_ZSET)" by (auto simp: zscore_def dest: map_of_SomeD)
  then have "length (filter (\<lambda>(m', _). m' \<noteq> m) (r_zsets r PENDING_ZSET)) < length (r_zsets r PENDING_ZSET)"
    by (intro length_filter_less [of "(m, s')"]) simp_all
  then show ?thesis by (simp add: tracked_def do_zadd_def)
qed

lemma tracked_mark: "keeps_inv (\<lambda>r. tracked r \<le> b) (markResult ttl u t st code)"
  unfolding store_defs by (intro keeps) (simp_all add: order_trans [OF tracked_zrem])

lemma tracked_republish:
  "keeps_inv (\<lambda>r. tracked r \<le> b \<and> zscore r PENDING_ZSET (pendingZsetMember u t) \<noteq> None) (recordRepublish ttl u t now)"
  unfolding store_defs by (intro keeps) (simp_all add: order_trans [OF tracked_zadd])

lemma tracked_find: "tracked (final (findPendingOlderThan cutoff n (r, fs))) \<le> tracked r"
  using known_backlog [OF keeps_invD [OF keeps_find known_refl]] by (simp add: tracked_def)

end
