(* ===== verification/B_Port.thy ===== *)
theory B_Port imports B_Stale begin

text \<open>
  The port \<open>domain/pending-issue.store.ts\<close> of server-b as a contract.  \<open>pending_store\<close> fixes the four
  operations the clients call and three observations: what is held for a pair, whether the pair is
  taken, and how many pairs are tracked.  Its laws are all the accept service and the scheduler use;
  the interpretation proves them for the Redis store inside the state of server-b.
\<close>

section \<open>State of server-b\<close>

text \<open>
  Redis is the only storage of server-b; the rest is the request topic (key and value of every
  message the broker has accepted), whether the producer is connected, the scheduler's guard and its
  two counters.
\<close>

datatype metric = REPUBLISH_COUNTER | GIVE_UP_COUNTER

record bstate =
  b_redis :: redis
  b_topic :: "(string \<times> string) list"
  b_connected :: bool
  b_running :: bool
  b_counters :: "metric \<Rightarrow> nat"

definition on_b_redis :: "(redis, exn, 'a) eff \<Rightarrow> (bstate, exn, 'a) eff" where
  "on_b_redis = zoom b_redis (\<lambda>r b. b\<lparr>b_redis := r\<rparr>)"

lemma on_b_redis_apply:
  "on_b_redis m (b, fs) = (outcome (m (b_redis b, fs)), b\<lparr>b_redis := final (m (b_redis b, fs))\<rparr>, snd (snd (m (b_redis b, fs))))"
  by (simp add: on_b_redis_def zoom_def split: prod.split)

lemma keeps_on_b_redis: "keeps_inv J m \<Longrightarrow> keeps_inv (\<lambda>b. J (b_redis b)) (on_b_redis m)"
  unfolding on_b_redis_def by (rule keeps_zoom) simp_all

section \<open>The contract\<close>

locale pending_store =
  fixes save :: "string \<Rightarrow> int \<Rightarrow> int \<Rightarrow> int \<Rightarrow> int \<Rightarrow> ('s, exn, bool) eff"
    and mark :: "int \<Rightarrow> int \<Rightarrow> issue_pending_status \<Rightarrow> string option \<Rightarrow> ('s, exn, unit) eff"
    and republ :: "int \<Rightarrow> int \<Rightarrow> int \<Rightarrow> ('s, exn, int) eff"
    and stale :: "int \<Rightarrow> nat \<Rightarrow> ('s, exn, pending_issue list) eff"
    and held :: "'s \<Rightarrow> int \<Rightarrow> int \<Rightarrow> pending_entry option"
    and taken :: "'s \<Rightarrow> int \<Rightarrow> int \<Rightarrow> bool"
    and waiting :: "'s \<Rightarrow> nat"
    and ok :: "'s \<Rightarrow> bool"
  assumes ops_ok: "keeps_inv ok (save rid u e t now)" "keeps_inv ok (mark u t st code)"
      "keeps_inv ok (republ u t now)" "keeps_inv ok (stale cutoff n)"
    and others: "(u', t') \<noteq> (u, t) \<Longrightarrow> keeps_inv (\<lambda>s. held s u' t' = x) (save rid u e t now)"
      "(u', t') \<noteq> (u, t) \<Longrightarrow> keeps_inv (\<lambda>s. held s u' t' = x) (mark u t st code)"
      "(u', t') \<noteq> (u, t) \<Longrightarrow> keeps_inv (\<lambda>s. held s u' t' = x) (republ u t now)"
      "keeps_inv (\<lambda>s. held s u' t' = x) (stale cutoff n)"
    and held_pair: "held s u t = Some en \<Longrightarrow> pair_of (en_item en) = (u, t)"
    and save_taken: "taken s u t \<Longrightarrow> save rid u e t now (s, fs) = (r, s', fs') \<Longrightarrow> s' = s \<and> r \<noteq> Inr True"
    and save_free: "\<not> taken s u t \<Longrightarrow> outcome (save rid u e t now (s, [])) = Inr True"
    and save_holds: "save rid u e t now (s, fs) = (Inr True, s', fs') \<Longrightarrow>
      taken s' u t \<and> held s' u t = Some \<lparr>en_item = fresh_item rid u e t now, en_score = Some now\<rparr>"
    and mark_sets: "held s u t = Some en \<Longrightarrow> outcome (mark u t st code (s, [])) = Inr () \<and>
      held (final (mark u t st code (s, []))) u t =
        Some (en\<lparr>en_item := (en_item en)\<lparr>pi_status := pending_wire st\<rparr>, en_score := None\<rparr>)"
    and mark_any: "held s u t = Some en \<Longrightarrow>
      \<exists>en'. held (final (mark u t st code (s, fs))) u t = Some en' \<and>
        (en_item en' = en_item en \<or> en_item en' = (en_item en)\<lparr>pi_status := pending_wire st\<rparr>)"
    and republ_counts: "ok s \<Longrightarrow> held s u t = Some en \<Longrightarrow>
      outcome (republ u t now (s, [])) = Inr (pi_publishAttempts (en_item en) + 1) \<and>
      held (final (republ u t now (s, []))) u t = Some (en\<lparr>en_item := (en_item en)
        \<lparr>pi_publishAttempts := pi_publishAttempts (en_item en) + 1\<rparr>, en_score := Some now\<rparr>)"
    and republ_any: "ok s \<Longrightarrow> held s u t = Some en \<Longrightarrow>
      \<exists>en'. held (final (republ u t now (s, fs))) u t = Some en' \<and> (en_item en' = en_item en \<or>
        en_item en' = (en_item en)\<lparr>pi_publishAttempts := pi_publishAttempts (en_item en) + 1\<rparr>)"
    and stale_sound: "ok s \<Longrightarrow> stale cutoff n (s, fs) = (Inr ps, s', fs') \<Longrightarrow>
      distinct (map pair_of ps) \<and> (\<forall>p \<in> set ps. \<exists>en sc. held s (pi_userId p) (pi_couponTypeId p) = Some en \<and>
        en_item en = p \<and> en_score en = Some sc \<and> 0 \<le> sc \<and> sc \<le> cutoff)"
    and stale_complete: "waiting s \<le> n \<Longrightarrow> held s u t = Some en \<Longrightarrow> en_score en = Some sc \<Longrightarrow>
      0 \<le> sc \<Longrightarrow> sc \<le> cutoff \<Longrightarrow>
      \<exists>ps. outcome (stale cutoff n (s, [])) = Inr ps \<and> en_item en \<in> set ps"
    and waiting_mark: "waiting (final (mark u t st code (s, fs))) \<le> waiting s"
    and waiting_republ: "held s u t = Some en \<Longrightarrow> en_score en \<noteq> None \<Longrightarrow>
      waiting (final (republ u t now (s, fs))) \<le> waiting s"
    and waiting_stale: "waiting (final (stale cutoff n (s, fs))) \<le> waiting s"

section \<open>The Redis store keeps the contract\<close>

definition b_save :: "int \<Rightarrow> string \<Rightarrow> int \<Rightarrow> int \<Rightarrow> int \<Rightarrow> int \<Rightarrow> (bstate, exn, bool) eff" where
  "b_save ttl rid u e t now = on_b_redis (savePendingIfAbsent ttl rid u e t now)"

definition b_mark :: "int \<Rightarrow> int \<Rightarrow> int \<Rightarrow> issue_pending_status \<Rightarrow> string option \<Rightarrow> (bstate, exn, unit) eff" where
  "b_mark ttl u t st code = on_b_redis (markResult ttl u t st code)"

definition b_republish :: "int \<Rightarrow> int \<Rightarrow> int \<Rightarrow> int \<Rightarrow> (bstate, exn, int) eff" where
  "b_republish ttl u t now = on_b_redis (recordRepublish ttl u t now)"

definition b_stale :: "int \<Rightarrow> nat \<Rightarrow> (bstate, exn, pending_issue list) eff" where
  "b_stale cutoff n = on_b_redis (findPendingOlderThan cutoff n)"

definition b_held :: "bstate \<Rightarrow> int \<Rightarrow> int \<Rightarrow> pending_entry option" where
  "b_held b u t = entry (b_redis b) u t"

definition b_taken :: "bstate \<Rightarrow> int \<Rightarrow> int \<Rightarrow> bool" where
  "b_taken b u t \<longleftrightarrow> reserved (b_redis b) u t"

definition b_waiting :: "bstate \<Rightarrow> nat" where
  "b_waiting b = tracked (b_redis b)"

definition b_ok :: "bstate \<Rightarrow> bool" where
  "b_ok b \<longleftrightarrow> pending_ok (b_redis b)"

lemmas b_store_defs = b_save_def b_mark_def b_republish_def b_stale_def b_held_def b_taken_def
  b_waiting_def b_ok_def

lemma keeps_entry:
  assumes "\<And>r. keeps_inv (same_pair u t r) m"
  shows "keeps_inv (\<lambda>r. entry r u t = x) m"
proof (rule keeps_invI)
  fix r fs assume "entry r u t = x"
  with entry_same [OF keeps_invD [OF assms same_pair_refl]] show "entry (final (m (r, fs))) u t = x" by simp
qed

lemma find_entry: "keeps_inv (\<lambda>r. entry r u t = x) (findPendingOlderThan cutoff n)"
proof (rule keeps_invI)
  fix r fs assume "entry r u t = x"
  moreover have "same_entries r (final (findPendingOlderThan cutoff n (r, fs)))"
    by (rule known_same_entries [OF keeps_invD [OF keeps_find known_refl]])
  ultimately show "entry (final (findPendingOlderThan cutoff n (r, fs))) u t = x"
    by (simp add: same_entries_def)
qed

lemma keeps_find_ok: "keeps_inv pending_ok (findPendingOlderThan cutoff n)"
proof -
  have "keeps_inv pending_ok (read_members ms acc)" for ms acc
  proof (induction ms arbitrary: acc)
    case (Cons m ms)
    then show ?case
      unfolding read_members.simps
      by (intro keeps_option keeps_bnd keeps_pair keeps_pending_commands Cons)
  qed (simp add: keeps_ret)
  then show ?thesis
    unfolding findPendingOlderThan_def by (intro keeps_bnd keeps_if keeps_ret keeps_pending_commands)
qed

text \<open>The expiry is a positive number of seconds, \<open>1 + k\<close>.\<close>

interpretation redis_store: pending_store "b_save (1 + int k)" "b_mark (1 + int k)" "b_republish (1 + int k)"
  b_stale b_held b_taken b_waiting b_ok
  for k
proof
  fix u t u' t' e now cutoff :: int and rid :: string and n :: nat and st code x b b' fs fs' r en sc ps
  let ?ttl = "1 + int k"
  have pos: "0 < ?ttl" by simp
  show "keeps_inv b_ok (b_save ?ttl rid u e t now)" "keeps_inv b_ok (b_mark ?ttl u t st code)"
      "keeps_inv b_ok (b_republish ?ttl u t now)" "keeps_inv b_ok (b_stale cutoff n)"
    using keeps_on_b_redis [OF keeps_pending_ok(1)] keeps_on_b_redis [OF keeps_pending_ok(2)]
      keeps_on_b_redis [OF keeps_pending_ok(3)] keeps_on_b_redis [OF keeps_find_ok]
    by (simp_all add: b_store_defs b_ok_def [abs_def])
  show "keeps_inv (\<lambda>s. b_held s u' t' = x) (b_save ?ttl rid u e t now)" if "(u', t') \<noteq> (u, t)"
    using keeps_on_b_redis [OF keeps_entry [OF save_other_pair [OF that]]] by (simp add: b_store_defs)
  show "keeps_inv (\<lambda>s. b_held s u' t' = x) (b_mark ?ttl u t st code)" if "(u', t') \<noteq> (u, t)"
    using keeps_on_b_redis [OF keeps_entry [OF mark_other_pair [OF that]]] by (simp add: b_store_defs)
  show "keeps_inv (\<lambda>s. b_held s u' t' = x) (b_republish ?ttl u t now)" if "(u', t') \<noteq> (u, t)"
    using keeps_on_b_redis [OF keeps_entry [OF republish_other_pair [OF that]]] by (simp add: b_store_defs)
  show "keeps_inv (\<lambda>s. b_held s u' t' = x) (b_stale cutoff n)"
    using keeps_on_b_redis [OF find_entry] by (simp add: b_store_defs)
  show "pair_of (en_item en) = (u, t)" if "b_held b u t = Some en"
    using that by (auto simp: b_store_defs elim!: entryE dest: pending_of_hashE(3,4))
  show "b' = b \<and> r \<noteq> Inr True" if "b_taken b u t" "b_save ?ttl rid u e t now (b, fs) = (r, b', fs')"
    using that save_reserved [of "b_redis b" u t ?ttl rid e now fs]
    by (cases "savePendingIfAbsent ?ttl rid u e t now (b_redis b, fs)") (auto simp: b_store_defs on_b_redis_apply)
  show "outcome (b_save ?ttl rid u e t now (b, [])) = Inr True" if "\<not> b_taken b u t"
    using that savePending_nil(1) [OF pos] by (simp add: b_store_defs on_b_redis_apply)
  show "b_taken b' u t \<and> b_held b' u t = Some \<lparr>en_item = fresh_item rid u e t now, en_score = Some now\<rparr>"
    if "b_save ?ttl rid u e t now (b, fs) = (Inr True, b', fs')"
    using that save_True(2,3) [OF pos, of rid u e t now "b_redis b" fs]
    by (cases "savePendingIfAbsent ?ttl rid u e t now (b_redis b, fs)") (auto simp: b_store_defs on_b_redis_apply)
  show "outcome (b_mark ?ttl u t st code (b, [])) = Inr () \<and> b_held (final (b_mark ?ttl u t st code (b, []))) u t =
        Some (en\<lparr>en_item := (en_item en)\<lparr>pi_status := pending_wire st\<rparr>, en_score := None\<rparr>)"
    if "b_held b u t = Some en"
    using that mark_nil [OF pos] by (simp add: b_store_defs on_b_redis_apply)
  show "\<exists>en'. b_held (final (b_mark ?ttl u t st code (b, fs))) u t = Some en' \<and>
        (en_item en' = en_item en \<or> en_item en' = (en_item en)\<lparr>pi_status := pending_wire st\<rparr>)"
    if "b_held b u t = Some en"
    using that mark_any [OF pos, of u t "en_item en" "b_redis b" st code fs]
    by (auto simp: b_store_defs on_b_redis_apply has_item_def)
  show "outcome (b_republish ?ttl u t now (b, [])) = Inr (pi_publishAttempts (en_item en) + 1) \<and>
      b_held (final (b_republish ?ttl u t now (b, []))) u t = Some (en\<lparr>en_item := (en_item en)
        \<lparr>pi_publishAttempts := pi_publishAttempts (en_item en) + 1\<rparr>, en_score := Some now\<rparr>)"
    if "b_ok b" "b_held b u t = Some en"
    using that republish_nil [OF pos] by (simp add: b_store_defs on_b_redis_apply pending_ok_def)
  show "\<exists>en'. b_held (final (b_republish ?ttl u t now (b, fs))) u t = Some en' \<and> (en_item en' = en_item en \<or>
        en_item en' = (en_item en)\<lparr>pi_publishAttempts := pi_publishAttempts (en_item en) + 1\<rparr>)"
    if "b_ok b" "b_held b u t = Some en"
    using that republish_any [OF pos, of "b_redis b" u t "en_item en" now fs]
    by (auto simp: b_store_defs on_b_redis_apply has_item_def pending_ok_def)
  show "distinct (map pair_of ps) \<and> (\<forall>p \<in> set ps. \<exists>en sc. b_held b (pi_userId p) (pi_couponTypeId p) = Some en \<and>
        en_item en = p \<and> en_score en = Some sc \<and> 0 \<le> sc \<and> sc \<le> cutoff)"
    if "b_ok b" "b_stale cutoff n (b, fs) = (Inr ps, b', fs')"
    using that find_sound [of "b_redis b" cutoff n fs ps]
    by (cases "findPendingOlderThan cutoff n (b_redis b, fs)")
      (simp add: b_store_defs on_b_redis_apply pending_ok_def)
  show "\<exists>ps. outcome (b_stale cutoff n (b, [])) = Inr ps \<and> en_item en \<in> set ps"
    if "b_waiting b \<le> n" "b_held b u t = Some en" "en_score en = Some sc" "0 \<le> sc" "sc \<le> cutoff"
    using that find_complete [of "b_redis b" n u t en sc cutoff]
    by (simp add: b_store_defs on_b_redis_apply tracked_def)
  show "b_waiting (final (b_mark ?ttl u t st code (b, fs))) \<le> b_waiting b"
    using keeps_invD [OF tracked_mark, of "b_redis b" "tracked (b_redis b)" ?ttl u t st code fs]
    by (simp add: b_store_defs on_b_redis_apply)
  show "b_waiting (final (b_republish ?ttl u t now (b, fs))) \<le> b_waiting b"
    if "b_held b u t = Some en" "en_score en \<noteq> None"
    using that keeps_invD [OF tracked_republish, of "b_redis b" "tracked (b_redis b)" u t ?ttl now fs]
    by (auto simp: b_store_defs on_b_redis_apply elim: entryE)
  show "b_waiting (final (b_stale cutoff n (b, fs))) \<le> b_waiting b"
    using tracked_find by (simp add: b_store_defs on_b_redis_apply)
qed

lemma positive_ttl: "0 < ttl \<Longrightarrow> \<exists>k. ttl = 1 + int k"
  by (metis add.commute zero_less_imp_eq_int int_ops(2) of_nat_Suc plus_1_eq_Suc of_nat_0_less_iff gr0_implies_Suc)

text \<open>A server-b that has just started on an empty Redis.\<close>

definition new_b :: "int \<Rightarrow> bstate" where
  "new_b now = \<lparr>b_redis = \<lparr>r_now = now, r_strings = Map.empty, r_hashes = Map.empty, r_zsets = (\<lambda>_. [])\<rparr>,
     b_topic = [], b_connected = False, b_running = False, b_counters = (\<lambda>_. 0)\<rparr>"

lemma new_b_ok: "b_ok (new_b now)"
  by (simp add: b_ok_def pending_ok_def store_ok_def counted_def live_hash_def new_b_def)

end
