(* ===== verification/B_Accept.thy ===== *)
theory B_Accept imports B_Port Kafka_Consumer begin

text \<open>
  \<open>application/coupon-issue-accept.service.ts\<close> with the producer it calls
  (\<open>infrastructure/kafka/issue-request.publisher.ts\<close>) and \<open>libs/common/src/async/with-timeout.ts\<close>.
  The service is written against the port; the locale \<open>accepting\<close> holds what follows from the contract
  and any publisher that leaves the store alone.
\<close>

section \<open>The publisher\<close>

text \<open>
  \<open>fires\<close>: the timer wins the race.  It only releases the caller; the task is not cancelled and its
  effects happen all the same.
\<close>

definition withTimeout :: "bool \<Rightarrow> string \<Rightarrow> ('s, exn, 'a) eff \<Rightarrow> ('s, exn, 'a) eff" where
  "withTimeout fires message task w = (case task w of
     (r, w') \<Rightarrow> (if fires then Inl (Plain_Error message) else r, w'))"

definition sendInternal :: "issue_request \<Rightarrow> (bstate, exn, unit) eff" where
  "sendInternal payload =
     bnd (gets b_connected) (\<lambda>connected.
     bnd (if \<not> connected
          then bnd (external kafka_gone (\<lambda>b. ((), b))) (\<lambda>_. modify (\<lambda>b. b\<lparr>b_connected := True\<rparr>))
          else ret ()) (\<lambda>_.
     external kafka_gone (\<lambda>b. ((), b\<lparr>b_topic := b_topic b @
       [(dec (rq_userId payload), JSON_stringify (request_json payload))]\<rparr>))))"

text \<open>
  As in server-c: the producer connects in the background, a failure is only logged, and the shutdown
  disconnects.
\<close>

definition IssueRequestPublisher_onModuleInit :: "(bstate, exn, unit) eff" where
  "IssueRequestPublisher_onModuleInit = try_catch
     (bnd (external kafka_gone (\<lambda>b. ((), b))) (\<lambda>_. modify (\<lambda>b. b\<lparr>b_connected := True\<rparr>)))
     (\<lambda>e. ret ())"

definition IssueRequestPublisher_onApplicationShutdown :: "(bstate, exn, unit) eff" where
  "IssueRequestPublisher_onApplicationShutdown = try_catch (external kafka_gone (\<lambda>b. ((), b))) (\<lambda>e. ret ())"

text \<open>A process that starts again has lost what it had in memory, the counters included.\<close>

definition b_restart :: "(bstate, exn, unit) eff" where
  "b_restart = bnd IssueRequestPublisher_onApplicationShutdown (\<lambda>_.
     bnd (modify (\<lambda>b. b\<lparr>b_running := False, b_counters := (\<lambda>_. 0), b_connected := False\<rparr>)) (\<lambda>_.
     IssueRequestPublisher_onModuleInit))"

lemma b_restart_cases:
  "\<exists>x. final (b_restart (b, fs)) = b\<lparr>b_running := False, b_counters := (\<lambda>_. 0), b_connected := x\<rparr>"
  "outcome (b_restart (b, fs)) = Inr ()"
  by (auto simp: b_restart_def IssueRequestPublisher_onApplicationShutdown_def IssueRequestPublisher_onModuleInit_def
      bnd_def try_catch_def external_def split: list.split fault.split)

definition publishWithTimeout :: "bool \<Rightarrow> issue_request \<Rightarrow> int \<Rightarrow> (bstate, exn, unit) eff" where
  "publishWithTimeout fires payload timeoutMs =
     (case assertIssueRequestPayload (request_json payload) of
        Inl e \<Rightarrow> throw e
      | Inr _ \<Rightarrow> withTimeout fires (''kafka send timed out after '' @ dec timeoutMs @ ''ms: requestId='' @
          rq_requestId payload) (sendInternal payload))"

definition publish :: "int \<Rightarrow> bool \<Rightarrow> issue_request \<Rightarrow> (bstate, exn, unit) eff" where
  "publish sendTimeoutMs fires payload = publishWithTimeout fires payload sendTimeoutMs"

definition publishForScheduler :: "int \<Rightarrow> bool \<Rightarrow> issue_request \<Rightarrow> (bstate, exn, unit) eff" where
  "publishForScheduler schedulerSendTimeoutMs fires payload = publishWithTimeout fires payload schedulerSendTimeoutMs"

section \<open>The accept service\<close>

definition accept ::
  "(string \<Rightarrow> int \<Rightarrow> int \<Rightarrow> int \<Rightarrow> int \<Rightarrow> ('s, exn, bool) eff) \<Rightarrow> (issue_request \<Rightarrow> ('s, exn, unit) eff) \<Rightarrow>
   string \<Rightarrow> int \<Rightarrow> int \<Rightarrow> int \<Rightarrow> int \<Rightarrow> ('s, exn, acceptance) eff" where
  "accept savePending pub requestId now userId eventId couponTypeId =
     bnd (savePending requestId userId eventId couponTypeId now) (\<lambda>firstWrite.
     if \<not> firstWrite then ret (acceptance_duplicate requestId)
     else
       let payload = \<lparr>rq_requestId = requestId, rq_userId = userId, rq_eventId = eventId,
         rq_couponTypeId = couponTypeId, rq_requestedAt = toInstantString now\<rparr> in
       bnd (try_catch (pub payload) (\<lambda>e. ret ())) (\<lambda>_.
       ret (acceptance_accepted requestId)))"

text \<open>As the module wires it.\<close>

definition CouponIssueAcceptService_accept ::
  "int \<Rightarrow> int \<Rightarrow> bool \<Rightarrow> string \<Rightarrow> int \<Rightarrow> int \<Rightarrow> int \<Rightarrow> int \<Rightarrow> (bstate, exn, acceptance) eff" where
  "CouponIssueAcceptService_accept ttl sendTimeoutMs fires requestId now userId eventId couponTypeId =
     accept (b_save ttl) (publish sendTimeoutMs fires) requestId now userId eventId couponTypeId"

section \<open>Laws of the publisher\<close>

lemma withTimeout_state: "snd (withTimeout fires message task w) = snd (task w)"
  by (simp add: withTimeout_def split: prod.split)

lemma keeps_withTimeout [keeps]: "keeps_inv I task \<Longrightarrow> keeps_inv I (withTimeout fires message task)"
  by (simp add: keeps_inv_def withTimeout_state)

lemma fair_withTimeout [fair]: "fair task \<Longrightarrow> fair (withTimeout fires message task)"
proof (rule fairI)
  fix s fs r s' fs'
  assume f: "fair task" and w: "withTimeout fires message task (s, fs) = (r, s', fs')"
  then obtain q where q: "task (s, fs) = (q, s', fs')" by (auto simp: withTimeout_def split: prod.splits)
  with w fairD [OF f q] show "nfaults fs' \<le> nfaults fs \<and>
      (nfaults fs' = nfaults fs \<longrightarrow> withTimeout fires message task (s, []) = (r, s', []))"
    by (auto simp: withTimeout_def)
qed

lemma fair_publishWithTimeout: "fair (publishWithTimeout fires p timeoutMs)"
  unfolding publishWithTimeout_def sendInternal_def by (intro fair)

text \<open>A publish touches nothing but the topic and the connection.\<close>

definition same_store :: "bstate \<Rightarrow> bstate \<Rightarrow> bool" where
  "same_store b b' \<longleftrightarrow> b_redis b' = b_redis b \<and> b_running b' = b_running b"

lemma publish_same_store: "keeps_inv (same_store b) (publishWithTimeout fires p timeoutMs)"
  unfolding publishWithTimeout_def sendInternal_def
  by (intro keeps) (simp_all add: same_store_def)

lemma publish_redis: "b_redis (final (publishWithTimeout fires p timeoutMs (b, fs))) = b_redis b"
  using keeps_invD [OF publish_same_store, of b b fires p timeoutMs fs] by (simp add: same_store_def)

text \<open>Every message of the topic is a checked request under the key of its user.\<close>

definition good_request :: "issue_request \<Rightarrow> bool" where
  "good_request p \<longleftrightarrow> \<not> blank (rq_requestId p) \<and> 0 < rq_userId p \<and> 0 < rq_eventId p \<and> 0 < rq_couponTypeId p"

definition topic_ok :: "bstate \<Rightarrow> bool" where
  "topic_ok b \<longleftrightarrow> (\<forall>(k, v) \<in> set (b_topic b). \<exists>p. good_request p \<and> k = dec (rq_userId p) \<and>
     v = JSON_stringify (request_json p))"

lemma keeps_publish_topic: "keeps_inv topic_ok (publishWithTimeout fires p timeoutMs)"
proof (cases "assertIssueRequestPayload (request_json p)")
  case (Inr u)
  then have "good_request p" using assert_request_json [of p] by (simp add: good_request_def)
  then show ?thesis
    unfolding publishWithTimeout_def sendInternal_def
    by (intro keeps) (auto simp: topic_ok_def)
qed (simp add: publishWithTimeout_def keeps_throw)

section \<open>Accepting on any store\<close>

locale accepting = pending_store +
  fixes pub :: "issue_request \<Rightarrow> ('a, exn, unit) eff"
  assumes pub_keeps: "keeps_inv (\<lambda>s. held s u t = x) (pub p)" "keeps_inv (\<lambda>s. taken s u t = b) (pub p)"
      "keeps_inv ok (pub p)"
begin

lemma accept_outcome:
  assumes "accept save pub rid now u e t (s, fs) = (Inr a, s', fs')"
  shows "a = acceptance_accepted rid \<or> a = acceptance_duplicate rid"
  using assms
  by (auto simp: accept_def bnd_def Let_def split: prod.splits sum.splits if_splits)

lemma accept_taken:
  assumes "taken s u t"
  shows "final (accept save pub rid now u e t (s, fs)) = s \<and>
    outcome (accept save pub rid now u e t (s, fs)) \<noteq> Inr (acceptance_accepted rid)"
proof -
  obtain q s1 gs where w: "save rid u e t now (s, fs) = (q, s1, gs)" by (cases "save rid u e t now (s, fs)")
  from save_taken [OF assms w] have "s1 = s" "q \<noteq> Inr True" by auto
  with w show ?thesis
    by (cases q) (auto simp: accept_def bnd_def acceptance_duplicate_def acceptance_accepted_def)
qed

lemma accept_run:
  assumes "save rid u e t now (s, fs) = (Inr True, s1, gs)"
  shows "accept save pub rid now u e t (s, fs) = (Inr (acceptance_accepted rid),
    snd (pub \<lparr>rq_requestId = rid, rq_userId = u, rq_eventId = e, rq_couponTypeId = t,
      rq_requestedAt = toInstantString now\<rparr> (s1, gs)))"
  using assms by (auto simp: accept_def bnd_def try_catch_def Let_def split: prod.split sum.split)

lemma accept_accepted:
  assumes "accept save pub rid now u e t (s, fs) = (Inr (acceptance_accepted rid), s', fs')"
  shows "taken s' u t \<and> held s' u t = Some \<lparr>en_item = fresh_item rid u e t now, en_score = Some now\<rparr>"
proof -
  obtain q s1 gs where w: "save rid u e t now (s, fs) = (q, s1, gs)" by (cases "save rid u e t now (s, fs)")
  have q: "q = Inr True"
    using assms w by (cases q)
      (auto simp: accept_def bnd_def acceptance_duplicate_def acceptance_accepted_def split: if_splits)
  from accept_run [OF w [unfolded q]] assms obtain p where "s' = final (pub p (s1, gs))"
    by (metis fst_conv snd_conv)
  with save_holds [OF w [unfolded q]] show ?thesis
    using keeps_invD [OF pub_keeps(1)] keeps_invD [OF pub_keeps(2)] by metis
qed

lemma accept_free:
  assumes "\<not> taken s u t"
  shows "outcome (accept save pub rid now u e t (s, [])) = Inr (acceptance_accepted rid)"
proof -
  obtain s1 gs where "save rid u e t now (s, []) = (Inr True, s1, gs)"
    using save_free [OF assms, of rid e now] by (cases "save rid u e t now (s, [])") auto
  from accept_run [OF this] show ?thesis by simp
qed

lemma keeps_accept:
  assumes "\<And>rid u e t now. keeps_inv J (save rid u e t now)" "\<And>p. keeps_inv J (pub p)"
  shows "keeps_inv J (accept save pub rid now u e t)"
  unfolding accept_def by (intro keeps assms)

lemma accept_keeps_ok: "keeps_inv ok (accept save pub rid now u e t)"
  by (rule keeps_accept [OF ops_ok(1) pub_keeps(3)])

end

interpretation accept_service: accepting "b_save (1 + int k)" "b_mark (1 + int k)" "b_republish (1 + int k)"
  b_stale b_held b_taken b_waiting b_ok "publish sendTimeoutMs fires"
  for k sendTimeoutMs fires
  by unfold_locales (simp_all add: keeps_inv_def b_held_def b_taken_def b_ok_def publish_def publish_redis)

end
