(* ===== verification/B_Scheduler.thy ===== *)
theory B_Scheduler imports B_Accept Http begin

text \<open>
  \<open>application/pending-issue.scheduler.ts\<close> and the look-up it makes in server-c
  (\<open>infrastructure/client/user-coupon.client.ts\<close>).  The answers of server-c are a parameter: a
  function from the path to a reply.  A sweep looks at every pair at most once, so one function per
  sweep is as general as answers that change while it runs; the same holds for the clock readings.
\<close>

section \<open>Looking up a coupon in server-c\<close>

record lookup_result =
  lk_status :: "string option"
  lk_code :: "string option"

definition json_text :: "json option \<Rightarrow> string option" where
  "json_text v = (case v of Some (JStr s) \<Rightarrow> Some s | _ \<Rightarrow> None)"

text \<open>\<open>response.data?.data ?? null\<close>, and of the result the two properties the scheduler reads.\<close>

definition envelope_data :: "json \<Rightarrow> lookup_result option" where
  "envelope_data body = (case jprop ''data'' body of
      None \<Rightarrow> None
    | Some JNull \<Rightarrow> None
    | Some d \<Rightarrow> Some \<lparr>lk_status = json_text (jprop ''status'' d), lk_code = json_text (jprop ''code'' d)\<rparr>)"

fun httpStatusOf :: "exn \<Rightarrow> int option" where
  "httpStatusOf (ResponseError status) = Some status"
| "httpStatusOf _ = None"

definition lookup_path :: "int \<Rightarrow> int \<Rightarrow> string" where
  "lookup_path userId couponTypeId =
     ''/internal/v1/users/'' @ dec userId @ ''/coupons/'' @ dec couponTypeId"

definition UserCouponClient_findOne ::
  "(string \<Rightarrow> http_reply) \<Rightarrow> int \<Rightarrow> int \<Rightarrow> exn + lookup_result option" where
  "UserCouponClient_findOne server userId couponTypeId =
     (case axios_result (server (lookup_path userId couponTypeId)) of
        Inr body \<Rightarrow> Inr (envelope_data body)
      | Inl e \<Rightarrow> if httpStatusOf e = Some 404 then Inr None else Inl e)"

section \<open>The sweep\<close>

definition mapStatus :: "string option \<Rightarrow> issue_pending_status" where
  "mapStatus cStatus =
     (if cStatus = Some ''SUCCESS'' then PS_SUCCESS
      else if cStatus = Some ''SOLD_OUT'' then PS_SOLD_OUT
      else if cStatus = Some ''USED'' then PS_SUCCESS
      else PS_FAILED)"

definition republish ::
  "(int \<Rightarrow> int \<Rightarrow> int \<Rightarrow> ('s, exn, int) eff) \<Rightarrow> (issue_request \<Rightarrow> ('s, exn, unit) eff) \<Rightarrow>
   (metric \<Rightarrow> ('s, exn, unit) eff) \<Rightarrow> int \<Rightarrow> pending_issue \<Rightarrow> ('s, exn, unit) eff" where
  "republish recordRepub pub inc now pending =
     bnd (recordRepub (pi_userId pending) (pi_couponTypeId pending) now) (\<lambda>updatedAttempts.
     bnd (inc REPUBLISH_COUNTER) (\<lambda>_.
     let payload = \<lparr>rq_requestId = pi_requestId pending, rq_userId = pi_userId pending,
       rq_eventId = pi_eventId pending, rq_couponTypeId = pi_couponTypeId pending,
       rq_requestedAt = toInstantString (pi_createdAt pending)\<rparr> in
     try_catch (pub payload) (\<lambda>e. ret ())))"

definition sweep_item ::
  "(int \<Rightarrow> int \<Rightarrow> issue_pending_status \<Rightarrow> string option \<Rightarrow> ('s, exn, unit) eff) \<Rightarrow>
   (int \<Rightarrow> int \<Rightarrow> int \<Rightarrow> ('s, exn, int) eff) \<Rightarrow> (issue_request \<Rightarrow> ('s, exn, unit) eff) \<Rightarrow>
   (metric \<Rightarrow> ('s, exn, unit) eff) \<Rightarrow> (int \<Rightarrow> int \<Rightarrow> exn + lookup_result option) \<Rightarrow>
   (int \<Rightarrow> int \<Rightarrow> int) \<Rightarrow> int \<Rightarrow> pending_issue \<Rightarrow> ('s, exn, unit) eff" where
  "sweep_item markRes recordRepub pub inc lookup clock maxPublishAttempts pending = try_catch
     (case lookup (pi_userId pending) (pi_couponTypeId pending) of
        Inl e \<Rightarrow> throw e
      | Inr result \<Rightarrow>
          (case result of
             Some r \<Rightarrow> markRes (pi_userId pending) (pi_couponTypeId pending) (mapStatus (lk_status r)) (lk_code r)
           | None \<Rightarrow>
               if pi_publishAttempts pending < maxPublishAttempts
               then republish recordRepub pub inc (clock (pi_userId pending) (pi_couponTypeId pending)) pending
               else
                 bnd (markRes (pi_userId pending) (pi_couponTypeId pending) PS_FAILED None) (\<lambda>_.
                 inc GIVE_UP_COUNTER)))
     (\<lambda>e. ret ())"

definition sweep ::
  "(int \<Rightarrow> nat \<Rightarrow> ('s, exn, pending_issue list) eff) \<Rightarrow> (pending_issue \<Rightarrow> ('s, exn, unit) eff) \<Rightarrow>
   int \<Rightarrow> nat \<Rightarrow> int \<Rightarrow> ('s, exn, unit) eff" where
  "sweep findStale item cutoffSeconds batchSize now =
     bnd (findStale (now - cutoffSeconds * 1000) batchSize) (\<lambda>stale.
     if stale = [] then ret () else foreach stale item)"

section \<open>The scheduler as the module wires it\<close>

record scheduler_config =
  cf_ttl :: int
  cf_cutoffSeconds :: int
  cf_batchSize :: nat
  cf_maxPublishAttempts :: int
  cf_sendTimeoutMs :: int

text \<open>The surroundings of one cycle: the answers of server-c, the clock, the timers of the sends.\<close>

record cycle =
  cy_now :: int
  cy_clock :: "int \<Rightarrow> int \<Rightarrow> int"
  cy_server :: "string \<Rightarrow> http_reply"
  cy_fires :: "issue_request \<Rightarrow> bool"

definition inc_counter :: "metric \<Rightarrow> (bstate, exn, unit) eff" where
  "inc_counter m = modify (\<lambda>b. b\<lparr>b_counters := (b_counters b)(m := Suc (b_counters b m))\<rparr>)"

definition scheduler_item :: "scheduler_config \<Rightarrow> cycle \<Rightarrow> pending_issue \<Rightarrow> (bstate, exn, unit) eff" where
  "scheduler_item cf cy = sweep_item (b_mark (cf_ttl cf)) (b_republish (cf_ttl cf))
     (\<lambda>p. publishForScheduler (cf_sendTimeoutMs cf) (cy_fires cy p) p) inc_counter
     (UserCouponClient_findOne (cy_server cy)) (cy_clock cy) (cf_maxPublishAttempts cf)"

definition PendingIssueScheduler_sweep :: "scheduler_config \<Rightarrow> cycle \<Rightarrow> (bstate, exn, unit) eff" where
  "PendingIssueScheduler_sweep cf cy =
     sweep b_stale (scheduler_item cf cy) (cf_cutoffSeconds cf) (cf_batchSize cf) (cy_now cy)"

definition PendingIssueScheduler_run :: "scheduler_config \<Rightarrow> cycle \<Rightarrow> (bstate, exn, unit) eff" where
  "PendingIssueScheduler_run cf cy =
     bnd (gets b_running) (\<lambda>running.
     if running then ret () else
     bnd (modify (\<lambda>b. b\<lparr>b_running := True\<rparr>)) (\<lambda>_.
     bnd (try_catch (PendingIssueScheduler_sweep cf cy) (\<lambda>e. ret ())) (\<lambda>_.
     modify (\<lambda>b. b\<lparr>b_running := False\<rparr>))))"

section \<open>Sweeping any store\<close>

text \<open>What a sweep without faults makes of an entry it finds.\<close>

definition swept :: "exn + lookup_result option \<Rightarrow> int \<Rightarrow> int \<Rightarrow> pending_entry \<Rightarrow> pending_entry" where
  "swept answer mx now en = (case answer of
      Inl e \<Rightarrow> en
    | Inr result \<Rightarrow>
        (case result of
           Some r \<Rightarrow> en\<lparr>en_item := (en_item en)\<lparr>pi_status := pending_wire (mapStatus (lk_status r))\<rparr>, en_score := None\<rparr>
         | None \<Rightarrow>
             if pi_publishAttempts (en_item en) < mx
             then en\<lparr>en_item := (en_item en)\<lparr>pi_publishAttempts := pi_publishAttempts (en_item en) + 1\<rparr>,
                     en_score := Some now\<rparr>
             else en\<lparr>en_item := (en_item en)\<lparr>pi_status := ''FAILED''\<rparr>, en_score := None\<rparr>))"

text \<open>And what any sweep may make of an issue.\<close>

definition may_become :: "exn + lookup_result option \<Rightarrow> int \<Rightarrow> pending_issue \<Rightarrow> pending_issue \<Rightarrow> bool" where
  "may_become answer mx p p' \<longleftrightarrow> p' = p \<or> (case answer of
      Inl e \<Rightarrow> False
    | Inr result \<Rightarrow>
        (case result of
           Some r \<Rightarrow> p' = p\<lparr>pi_status := pending_wire (mapStatus (lk_status r))\<rparr>
         | None \<Rightarrow>
             if pi_publishAttempts p < mx then p' = p\<lparr>pi_publishAttempts := pi_publishAttempts p + 1\<rparr>
             else p' = p\<lparr>pi_status := ''FAILED''\<rparr>))"

locale scheduling = accepting +
  fixes inc :: "metric \<Rightarrow> ('a, exn, unit) eff"
  assumes inc_keeps: "keeps_inv (\<lambda>s. held s u t = x) (inc m)" "keeps_inv ok (inc m)"
    and waiting_pub: "waiting (final (pub p (s, fs))) \<le> waiting s"
    and waiting_inc: "waiting (final (inc m (s, fs))) \<le> waiting s"
    and fair_ops: "fair (mark u t st code)" "fair (republ u t now)" "fair (stale cutoff n)" "fair (pub p)" "fair (inc m)"
begin

lemma item_never: "outcome (sweep_item mark republ pub inc lookup clock mx p w) = Inr ()"
  unfolding sweep_item_def by (rule try_ret_unit)

lemma fair_item: "fair (sweep_item mark republ pub inc lookup clock mx p)"
  unfolding sweep_item_def republish_def Let_def by (intro fair fair_ops)

lemma item_ok: "keeps_inv ok (sweep_item mark republ pub inc lookup clock mx p)"
  unfolding sweep_item_def republish_def Let_def by (intro keeps ops_ok pub_keeps inc_keeps)

lemma item_other:
  assumes "pair_of p \<noteq> (u, t)"
  shows "held (final (sweep_item mark republ pub inc lookup clock mx p (s, fs))) u t = held s u t"
proof -
  from assms have "(u, t) \<noteq> (pi_userId p, pi_couponTypeId p)" by auto
  then have "keeps_inv (\<lambda>s'. held s' u t = held s u t) (sweep_item mark republ pub inc lookup clock mx p)"
    unfolding sweep_item_def republish_def Let_def by (intro keeps others pub_keeps inc_keeps)
  from keeps_invD [OF this] show ?thesis by simp
qed

lemma republish_held:
  "held (final (republish republ pub inc now p (s, fs))) u t =
   held (final (republ (pi_userId p) (pi_couponTypeId p) now (s, fs))) u t"
proof -
  obtain r s1 gs where w: "republ (pi_userId p) (pi_couponTypeId p) now (s, fs) = (r, s1, gs)"
    by (cases "republ (pi_userId p) (pi_couponTypeId p) now (s, fs)")
  show ?thesis
  proof (cases r)
    case (Inr n)
    define rest where "rest = (\<lambda>_ :: int. bnd (inc REPUBLISH_COUNTER) (\<lambda>_. try_catch (pub
       \<lparr>rq_requestId = pi_requestId p, rq_userId = pi_userId p, rq_eventId = pi_eventId p,
        rq_couponTypeId = pi_couponTypeId p, rq_requestedAt = toInstantString (pi_createdAt p)\<rparr>) (\<lambda>e. ret ())))"
    have "keeps_inv (\<lambda>s'. held s' u t = held s1 u t) (rest n)"
      unfolding rest_def by (intro keeps pub_keeps inc_keeps)
    from keeps_invD [OF this, of s1 gs] have "held (final (rest n (s1, gs))) u t = held s1 u t" by simp
    moreover have "republish republ pub inc now p (s, fs) = rest n (s1, gs)"
      unfolding republish_def Let_def rest_def [symmetric] using w Inr by (simp add: bnd_def)
    ultimately show ?thesis using w by simp
  qed (simp add: republish_def bnd_def w)
qed

text \<open>The item of a pair, by the answer for it.\<close>

lemma item_cases:
  fixes u t mx :: int and s :: 'a and fs :: "fault list"
    and lookup :: "int \<Rightarrow> int \<Rightarrow> exn + lookup_result option" and clock :: "int \<Rightarrow> int \<Rightarrow> int"
  assumes "pair_of p = (u, t)"
  defines "h \<equiv> held (final (sweep_item mark republ pub inc lookup clock mx p (s, fs))) u t"
  shows "lookup u t = Inl e \<Longrightarrow> h = held s u t"
    and "lookup u t = Inr (Some r) \<Longrightarrow> h = held (final (mark u t (mapStatus (lk_status r)) (lk_code r) (s, fs))) u t"
    and "lookup u t = Inr None \<Longrightarrow> pi_publishAttempts p < mx \<Longrightarrow>
      h = held (final (republ u t (clock u t) (s, fs))) u t"
    and "lookup u t = Inr None \<Longrightarrow> \<not> pi_publishAttempts p < mx \<Longrightarrow>
      h = held (final (mark u t PS_FAILED None (s, fs))) u t"
proof -
  have swallow: "final (try_catch m (\<lambda>e. ret ()) (s, fs)) = final (m (s, fs))" for m :: "('a, exn, unit) eff"
    by (auto simp: try_catch_def split: prod.split sum.split)
  show "lookup u t = Inl e \<Longrightarrow> h = held s u t"
    using assms by (simp add: sweep_item_def try_catch_def)
  show "lookup u t = Inr (Some r) \<Longrightarrow> h = held (final (mark u t (mapStatus (lk_status r)) (lk_code r) (s, fs))) u t"
    using assms by (simp add: sweep_item_def swallow)
  show "lookup u t = Inr None \<Longrightarrow> pi_publishAttempts p < mx \<Longrightarrow>
      h = held (final (republ u t (clock u t) (s, fs))) u t"
    using assms by (simp add: sweep_item_def swallow republish_held)
  obtain q s1 gs where w: "mark u t PS_FAILED None (s, fs) = (q, s1, gs)" by (cases "mark u t PS_FAILED None (s, fs)")
  have "held (final (inc GIVE_UP_COUNTER (s1, gs))) u t = held s1 u t"
    using keeps_invD [OF inc_keeps(1)] by blast
  then have "held (final (bnd (mark u t PS_FAILED None) (\<lambda>_. inc GIVE_UP_COUNTER) (s, fs))) u t = held s1 u t"
    using w by (cases q) (simp_all add: bnd_def)
  then show "lookup u t = Inr None \<Longrightarrow> \<not> pi_publishAttempts p < mx \<Longrightarrow>
      h = held (final (mark u t PS_FAILED None (s, fs))) u t"
    using assms w by (simp add: sweep_item_def swallow)
qed

lemma item_nil:
  assumes "ok s" "held s u t = Some en"
  shows "held (final (sweep_item mark republ pub inc lookup clock mx (en_item en) (s, []))) u t =
    Some (swept (lookup u t) mx (clock u t) en)"
proof (cases "lookup u t")
  case (Inr answer)
  then show ?thesis
    using mark_sets [OF assms(2)] republ_counts [OF assms]
    by (cases answer; cases "pi_publishAttempts (en_item en) < mx")
      (simp_all add: item_cases [OF held_pair [OF assms(2)]] swept_def)
qed (simp add: item_cases [OF held_pair [OF assms(2)]] swept_def assms(2))

lemma item_any:
  assumes "ok s" "held s u t = Some en"
  shows "\<exists>en'. held (final (sweep_item mark republ pub inc lookup clock mx (en_item en) (s, fs))) u t = Some en' \<and>
    may_become (lookup u t) mx (en_item en) (en_item en')"
proof (cases "lookup u t")
  case (Inr answer)
  then show ?thesis
    using mark_any [OF assms(2), of PS_FAILED None fs] republ_any [OF assms, of "clock u t" fs]
      mark_any [OF assms(2), of "mapStatus (lk_status (the answer))" "lk_code (the answer)" fs]
    by (cases answer; cases "pi_publishAttempts (en_item en) < mx")
      (auto simp: item_cases [OF held_pair [OF assms(2)]] may_become_def)
qed (simp add: item_cases [OF held_pair [OF assms(2)]] may_become_def assms(2))

end

section \<open>One sweep\<close>

context scheduling begin

lemma sweep_run:
  assumes "stale (now - cutoff * 1000) n (s, fs) = (q, s1, gs)"
  shows "sweep stale item cutoff n now (s, fs) =
    (case q of Inl e \<Rightarrow> (Inl e, s1, gs) | Inr ps \<Rightarrow> foreach ps item (s1, gs))"
  using assms by (cases q) (simp_all add: sweep_def bnd_def)

lemma sweep_ok: "keeps_inv ok (sweep stale (sweep_item mark republ pub inc lookup clock mx) cutoff n now)"
  unfolding sweep_def by (intro keeps ops_ok item_ok)

lemma fair_sweep: "fair (sweep stale (sweep_item mark republ pub inc lookup clock mx) cutoff n now)"
  unfolding sweep_def by (intro fair fair_item fair_ops)

lemma stale_held: "stale cutoff n (s, fs) = (q, s1, gs) \<Longrightarrow> held s1 u t = held s u t"
  using keeps_invD [OF others(4), of s u t "held s u t" cutoff n fs] by simp

lemma stale_ok: "ok s \<Longrightarrow> stale cutoff n (s, fs) = (q, s1, gs) \<Longrightarrow> ok s1"
  using keeps_invD [OF ops_ok(4), of s cutoff n fs] by simp

text \<open>What the sweep does to a pair it lists is what its item does.\<close>

lemma sweep_listed:
  assumes "ok s" "stale (now - cutoff * 1000) n (s, fs) = (Inr ps, s1, gs)" "p \<in> set ps" "pair_of p = (u, t)"
  shows "\<exists>s0 hs. ok s0 \<and> held s0 u t = held s u t \<and>
    held (final (sweep stale (sweep_item mark republ pub inc lookup clock mx) cutoff n now (s, fs))) u t =
    held (final (sweep_item mark republ pub inc lookup clock mx p (s0, hs))) u t \<and> (gs = [] \<longrightarrow> hs = [])"
proof -
  from stale_sound [OF assms(1,2)] have "distinct (map pair_of ps)" by simp
  from foreach_focus [where body = "sweep_item mark republ pub inc lookup clock mx" and I = ok and f = pair_of
      and ob = "\<lambda>s. held s u t", OF item_never _ item_ok this assms(3) stale_ok [OF assms(1,2)], of gs]
    item_other assms(4) fair_item stale_held [OF assms(2)]
  show ?thesis unfolding sweep_run [OF assms(2)] by simp
qed

lemma sweep_unlisted:
  assumes "ok s" "stale (now - cutoff * 1000) n (s, fs) = (Inr ps, s1, gs)" "(u, t) \<notin> pair_of ` set ps"
  shows "held (final (sweep stale (sweep_item mark republ pub inc lookup clock mx) cutoff n now (s, fs))) u t = held s u t"
proof -
  have "held (final (foreach ps (sweep_item mark republ pub inc lookup clock mx) (s1, gs))) u t = held s1 u t"
    by (rule foreach_others [where ob = "\<lambda>s. held s u t", OF item_never]) (use assms(3) in \<open>auto intro!: item_other\<close>)
  then show ?thesis unfolding sweep_run [OF assms(2)] using stale_held [OF assms(2)] by simp
qed

lemma sweep_step:
  assumes "ok s" "waiting s \<le> n" "held s u t = Some en" "en_score en = Some sc" "0 \<le> sc" "sc \<le> now - cutoff * 1000"
  shows "held (final (sweep stale (sweep_item mark republ pub inc lookup clock mx) cutoff n now (s, []))) u t =
    Some (swept (lookup u t) mx (clock u t) en)"
proof -
  from stale_complete [OF assms(2-6)] obtain ps s1 gs
    where w: "stale (now - cutoff * 1000) n (s, []) = (Inr ps, s1, gs)" "en_item en \<in> set ps"
    by (cases "stale (now - cutoff * 1000) n (s, [])") auto
  have "gs = []" using fair_nil [OF fair_ops(3), of "now - cutoff * 1000" n s] w by simp
  with sweep_listed [OF assms(1) w held_pair [OF assms(3)], of lookup clock mx]
  obtain s0 where "ok s0" "held s0 u t = held s u t"
    "held (final (sweep stale (sweep_item mark republ pub inc lookup clock mx) cutoff n now (s, []))) u t =
    held (final (sweep_item mark republ pub inc lookup clock mx (en_item en) (s0, []))) u t" by blast
  with item_nil [of s0 u t en lookup clock mx] assms(3) show ?thesis by simp
qed

lemma sweep_any:
  assumes "ok s" "held s u t = Some en"
  shows "\<exists>en'. held (final (sweep stale (sweep_item mark republ pub inc lookup clock mx) cutoff n now (s, fs))) u t = Some en' \<and>
    may_become (lookup u t) mx (en_item en) (en_item en')"
proof -
  obtain q s1 gs where w: "stale (now - cutoff * 1000) n (s, fs) = (q, s1, gs)"
    by (cases "stale (now - cutoff * 1000) n (s, fs)")
  show ?thesis
  proof (cases q)
    case (Inl e)
    with stale_held [OF w] assms(2) show ?thesis by (simp add: sweep_run [OF w] may_become_def)
  next
    case (Inr ps)
    note w = w [unfolded Inr]
    show ?thesis
    proof (cases "(u, t) \<in> pair_of ` set ps")
      case False
      with sweep_unlisted [OF assms(1) w] assms(2) show ?thesis by (simp add: may_become_def)
    next
      case True
      then obtain p where p: "p \<in> set ps" "pair_of p = (u, t)" by auto
      with stale_sound [OF assms(1) w] assms(2) have "p = en_item en" by fastforce
      with sweep_listed [OF assms(1) w p, of lookup clock mx] assms(2) obtain s0 hs where s0: "ok s0" "held s0 u t = Some en"
        "held (final (sweep stale (sweep_item mark republ pub inc lookup clock mx) cutoff n now (s, fs))) u t =
         held (final (sweep_item mark republ pub inc lookup clock mx (en_item en) (s0, hs))) u t" by auto
      from item_any [OF s0(1,2)] s0(3) show ?thesis by simp
    qed
  qed
qed

text \<open>The grace of a cutoff: an entry that is not stale is left alone, whatever fails.\<close>

lemma sweep_grace:
  assumes "ok s" "held s u t = Some en" "\<And>sc. en_score en = Some sc \<Longrightarrow> now - cutoff * 1000 < sc"
  shows "held (final (sweep stale (sweep_item mark republ pub inc lookup clock mx) cutoff n now (s, fs))) u t = Some en"
proof -
  obtain q s1 gs where w: "stale (now - cutoff * 1000) n (s, fs) = (q, s1, gs)"
    by (cases "stale (now - cutoff * 1000) n (s, fs)")
  show ?thesis
  proof (cases q)
    case (Inl e)
    with stale_held [OF w] assms(2) show ?thesis by (simp add: sweep_run [OF w])
  next
    case (Inr ps)
    note w = w [unfolded Inr]
    from stale_sound [OF assms(1) w] assms(2,3) have "(u, t) \<notin> pair_of ` set ps" by fastforce
    from sweep_unlisted [OF assms(1) w this] assms(2) show ?thesis by simp
  qed
qed

lemma item_waiting:
  assumes "held s (pi_userId p) (pi_couponTypeId p) = Some en" "en_score en \<noteq> None"
  shows "waiting (final (sweep_item mark republ pub inc lookup clock mx p (s, fs))) \<le> waiting s"
proof -
  let ?I = "\<lambda>s'. waiting s' \<le> waiting s"
  have pub': "keeps_inv ?I (pub q)" for q
    by (rule keeps_invI) (rule order_trans [OF waiting_pub])
  have inc': "keeps_inv ?I (inc m)" for m
    by (rule keeps_invI) (rule order_trans [OF waiting_inc])
  have mark': "keeps_inv ?I (mark u t st code)" for u t st code
    by (rule keeps_invI) (rule order_trans [OF waiting_mark])
  have rep: "waiting (final (republish republ pub inc now p (s, fs))) \<le> waiting s" for now
  proof -
    obtain r s1 gs where w: "republ (pi_userId p) (pi_couponTypeId p) now (s, fs) = (r, s1, gs)"
      by (cases "republ (pi_userId p) (pi_couponTypeId p) now (s, fs)")
    have s1: "?I s1" using waiting_republ [OF assms, of now fs] w by simp
    have "keeps_inv ?I (bnd (inc REPUBLISH_COUNTER) (\<lambda>_. try_catch (pub q) (\<lambda>e. ret ())))" for q
      by (intro keeps pub' inc')
    from keeps_invD [OF this s1] w s1 show ?thesis by (cases r) (simp_all add: republish_def bnd_def)
  qed
  have swallow: "final (try_catch m (\<lambda>e. ret ()) w) = final (m w)" for m :: "('a, exn, unit) eff" and w
    by (auto simp: try_catch_def ret_def split: prod.split sum.split)
  have mark: "?I (final (mark u t st code (s, fs)))" for u t st code
    by (rule waiting_mark)
  have give_up: "?I (final (bnd (mark u t st code) (\<lambda>_. inc m) (s, fs)))" for u t st code m
    by (rule keeps_invD [where I = ?I]) (intro keeps mark' inc', simp)
  show ?thesis
    unfolding sweep_item_def swallow
    by (auto simp: mark rep give_up split: sum.split option.split)
qed

lemma sweep_waiting:
  assumes "ok s"
  shows "waiting (final (sweep stale (sweep_item mark republ pub inc lookup clock mx) cutoff n now (s, fs))) \<le> waiting s"
proof -
  let ?item = "sweep_item mark republ pub inc lookup clock mx"
  have loop: "waiting (final (foreach ps ?item (s', gs))) \<le> waiting s'"
    if "distinct (map pair_of ps)" "\<forall>p \<in> set ps. \<exists>en. held s' (pi_userId p) (pi_couponTypeId p) = Some en \<and> en_score en \<noteq> None"
    for ps s' gs
    using that
  proof (induction ps arbitrary: s' gs)
    case (Cons p ps)
    obtain s1 hs where w: "snd (?item p (s', gs)) = (s1, hs)" by (cases "snd (?item p (s', gs))")
    have "p \<in> set (p # ps)" by simp
    from bspec [OF Cons.prems(2) this] obtain en
      where "held s' (pi_userId p) (pi_couponTypeId p) = Some en" "en_score en \<noteq> None" by blast
    from item_waiting [OF this, of lookup clock mx gs] w have "waiting s1 \<le> waiting s'" by simp
    moreover have held1: "\<exists>en. held s1 (pi_userId q) (pi_couponTypeId q) = Some en \<and> en_score en \<noteq> None"
      if q: "q \<in> set ps" for q
    proof -
      from Cons.prems(1) q have "pair_of p \<noteq> pair_of q"
        by force
      from item_other [OF this, of lookup clock mx s' gs] w
      have "held s1 (pi_userId q) (pi_couponTypeId q) = held s' (pi_userId q) (pi_couponTypeId q)" by simp
      moreover have "q \<in> set (p # ps)" using q by simp
      from bspec [OF Cons.prems(2) this] obtain en
        where "held s' (pi_userId q) (pi_couponTypeId q) = Some en" "en_score en \<noteq> None" by blast
      ultimately show ?thesis by (intro exI [of _ en] conjI) (rule trans)
    qed
    moreover have "distinct (map pair_of ps)" using Cons.prems(1) by simp
    then have "waiting (final (foreach ps ?item (s1, hs))) \<le> waiting s1"
      by (rule Cons.IH) (intro ballI held1)
    ultimately show ?case
      using foreach_Cons_final [of ?item p "(s', gs)" ps, OF item_never] w by simp
  qed simp
  obtain q s1 gs where w: "stale (now - cutoff * 1000) n (s, fs) = (q, s1, gs)"
    by (cases "stale (now - cutoff * 1000) n (s, fs)")
  have s1: "waiting s1 \<le> waiting s" using waiting_stale [of "now - cutoff * 1000" n s fs] w by simp
  show ?thesis
  proof (cases q)
    case (Inr ps)
    note w = w [unfolded Inr]
    have held1: "\<forall>p \<in> set ps. \<exists>en. held s1 (pi_userId p) (pi_couponTypeId p) = Some en \<and> en_score en \<noteq> None"
    proof
      fix p assume "p \<in> set ps"
      with stale_sound [OF assms w] obtain en sc where "held s (pi_userId p) (pi_couponTypeId p) = Some en"
        "en_score en = Some sc" by blast
      then show "\<exists>en. held s1 (pi_userId p) (pi_couponTypeId p) = Some en \<and> en_score en \<noteq> None"
        using stale_held [OF w] by simp
    qed
    have "distinct (map pair_of ps)" using stale_sound [OF assms w] by blast
    from order_trans [OF loop [OF this held1, of gs] s1] show ?thesis
      unfolding sweep_run [OF w] by simp
  qed (simp add: sweep_run [OF w] s1)
qed

end

end
