(* ===== verification/B_Cycles.thy ===== *)
theory B_Cycles imports B_Scheduler begin

text \<open>
  server-b at work: what the contract gives for the accept service and for the runs of the scheduler
  on Redis.  \<open>store_config\<close> holds the configuration of the deployment (a day of expiry, a cutoff of ten
  seconds, batches of fifty, three publishes).
\<close>

interpretation scheduler: scheduling "b_save (1 + int k)" "b_mark (1 + int k)" "b_republish (1 + int k)"
  b_stale b_held b_taken b_waiting b_ok "\<lambda>p. publishForScheduler timeoutMs (fires p) p" inc_counter
  for k timeoutMs fires
proof
  show "fair (b_mark (1 + int k) u t st code)" "fair (b_republish (1 + int k) u t now)" "fair (b_stale cutoff n)"
    for k u t st code now cutoff n
  proof -
    have "fair (read_members ms acc)" for ms acc
    proof (induction ms arbitrary: acc)
      case (Cons m ms)
      then show ?case
        unfolding read_members.simps redis_hgetall_def redis_zrem_def by (intro fair Cons)
    qed (simp add: fair_ret)
    then have "fair (findPendingOlderThan cutoff n)"
      unfolding findPendingOlderThan_def redis_zrangebyscore_def by (intro fair)
    then show "fair (b_stale cutoff n)" unfolding b_stale_def on_b_redis_def by (intro fair)
    show "fair (b_mark (1 + int k) u t st code)" "fair (b_republish (1 + int k) u t now)"
      unfolding b_store_defs store_defs on_b_redis_def by (intro fair)+
  qed
qed (simp_all add: keeps_inv_def b_store_defs publishForScheduler_def publish_redis inc_counter_def
    fair_publishWithTimeout fair_modify)

lemma sweep_eq:
  "cf_ttl cf = 1 + int k \<Longrightarrow> PendingIssueScheduler_sweep cf cy = sweep b_stale
     (sweep_item (b_mark (1 + int k)) (b_republish (1 + int k))
       (\<lambda>p. publishForScheduler (cf_sendTimeoutMs cf) (cy_fires cy p) p) inc_counter
       (UserCouponClient_findOne (cy_server cy)) (cy_clock cy) (cf_maxPublishAttempts cf))
     (cf_cutoffSeconds cf) (cf_batchSize cf) (cy_now cy)"
  by (simp add: PendingIssueScheduler_sweep_def scheduler_item_def)

section \<open>One run of the scheduler\<close>

text \<open>A run that gets past the guard is a sweep; the guard is free again afterwards.\<close>

lemma keeps_running:
  "keeps_inv (\<lambda>b :: bstate. b_running b = x) (PendingIssueScheduler_sweep cf cy)"
proof -
  have redis: "keeps_inv (\<lambda>b :: bstate. b_running b = x) (on_b_redis m)" for m :: "(redis, exn, 'c) eff"
    by (simp add: keeps_inv_def on_b_redis_apply)
  have pub: "keeps_inv (\<lambda>b :: bstate. b_running b = x) (publishForScheduler tmo fires p)" for tmo fires p
  proof (rule keeps_invI)
    fix b :: bstate and fs assume "b_running b = x"
    with keeps_invD [OF publish_same_store, of b b fires p tmo fs]
    show "b_running (final (publishForScheduler tmo fires p (b, fs))) = x"
      by (simp add: same_store_def publishForScheduler_def)
  qed
  show ?thesis
    unfolding PendingIssueScheduler_sweep_def sweep_def scheduler_item_def sweep_item_def republish_def
      b_mark_def b_republish_def b_stale_def inc_counter_def Let_def
    by (intro keeps redis pub) simp_all
qed

lemma run_cases:
  "PendingIssueScheduler_run cf cy (b, fs) =
    (if b_running b then (Inr (), b, fs)
     else (Inr (), (final (PendingIssueScheduler_sweep cf cy (b\<lparr>b_running := True\<rparr>, fs)))\<lparr>b_running := False\<rparr>,
       snd (snd (PendingIssueScheduler_sweep cf cy (b\<lparr>b_running := True\<rparr>, fs)))))"
proof (cases "b_running b")
  case False
  obtain q b1 gs where w: "PendingIssueScheduler_sweep cf cy (b\<lparr>b_running := True\<rparr>, fs) = (q, b1, gs)"
    by (cases "PendingIssueScheduler_sweep cf cy (b\<lparr>b_running := True\<rparr>, fs)")
  then show ?thesis
    using False by (cases q) (simp_all add: PendingIssueScheduler_run_def bnd_def try_catch_def)
qed (simp add: PendingIssueScheduler_run_def bnd_def)

lemma held_running [simp]: "b_held (b\<lparr>b_running := x\<rparr>) = b_held b"
  by (intro ext) (simp add: b_held_def)

lemma ok_running [simp]: "b_ok (b\<lparr>b_running := x\<rparr>) = b_ok b" "b_waiting (b\<lparr>b_running := x\<rparr>) = b_waiting b"
  by (simp_all add: b_ok_def b_waiting_def)

lemma run_ok:
  assumes "0 < cf_ttl cf"
  shows "keeps_inv b_ok (PendingIssueScheduler_run cf cy)"
proof (rule keeps_invI)
  fix b fs assume b: "b_ok b"
  obtain k where k: "cf_ttl cf = 1 + int k" using positive_ttl [OF assms] by blast
  from b keeps_invD [OF scheduler.sweep_ok, of "b\<lparr>b_running := True\<rparr>"]
  show "b_ok (final (PendingIssueScheduler_run cf cy (b, fs)))"
    by (simp add: run_cases sweep_eq [OF k])
qed

lemma run_waiting:
  assumes "0 < cf_ttl cf" "b_ok b"
  shows "b_waiting (final (PendingIssueScheduler_run cf cy (b, fs))) \<le> b_waiting b"
proof -
  obtain k where k: "cf_ttl cf = 1 + int k" using positive_ttl [OF assms(1)] by blast
  with assms(2) scheduler.sweep_waiting [of "b\<lparr>b_running := True\<rparr>"] show ?thesis
    by (simp add: run_cases sweep_eq [OF k])
qed

lemma run_step:
  assumes "0 < cf_ttl cf" "b_ok b" "\<not> b_running b" "b_waiting b \<le> cf_batchSize cf"
    and "b_held b u t = Some en" "en_score en = Some sc" "0 \<le> sc" "sc \<le> cy_now cy - cf_cutoffSeconds cf * 1000"
  shows "b_held (final (PendingIssueScheduler_run cf cy (b, []))) u t =
    Some (swept (UserCouponClient_findOne (cy_server cy) u t) (cf_maxPublishAttempts cf) (cy_clock cy u t) en)"
proof -
  obtain k where k: "cf_ttl cf = 1 + int k" using positive_ttl [OF assms(1)] by blast
  from scheduler.sweep_step [of "b\<lparr>b_running := True\<rparr>" "cf_batchSize cf" u t en sc] assms(2-)
  show ?thesis by (simp add: run_cases sweep_eq [OF k])
qed

section \<open>Runs one after the other\<close>

fun scheduler_runs :: "scheduler_config \<Rightarrow> cycle list \<Rightarrow> bstate \<Rightarrow> bstate" where
  "scheduler_runs cf [] b = b"
| "scheduler_runs cf (cy # cys) b = scheduler_runs cf cys (final (PendingIssueScheduler_run cf cy (b, [])))"

text \<open>Each run of \<open>cys\<close> finds the pair stale and server-c without a coupon for it.\<close>

fun unanswered :: "scheduler_config \<Rightarrow> int \<Rightarrow> int \<Rightarrow> int \<Rightarrow> cycle list \<Rightarrow> bool" where
  "unanswered cf u t published [] \<longleftrightarrow> True"
| "unanswered cf u t published (cy # cys) \<longleftrightarrow>
     0 \<le> published \<and> published + cf_cutoffSeconds cf * 1000 \<le> cy_now cy \<and>
     UserCouponClient_findOne (cy_server cy) u t = Inr None \<and> unanswered cf u t (cy_clock cy u t) cys"

lemma runs_give_up:
  assumes "0 < cf_ttl cf"
  shows "b_ok b \<Longrightarrow> \<not> b_running b \<Longrightarrow> b_waiting b \<le> cf_batchSize cf \<Longrightarrow> b_held b u t = Some en \<Longrightarrow>
    en_score en = Some sc \<Longrightarrow> unanswered cf u t sc cys \<Longrightarrow>
    int (length cys) = max 0 (cf_maxPublishAttempts cf - pi_publishAttempts (en_item en)) + 1 \<Longrightarrow>
    \<exists>en'. b_held (scheduler_runs cf cys b) u t = Some en' \<and> pi_status (en_item en') = ''FAILED'' \<and>
      pi_publishAttempts (en_item en') = max (pi_publishAttempts (en_item en)) (cf_maxPublishAttempts cf) \<and>
      en_score en' = None"
proof (induction cys arbitrary: b en sc)
  case (Cons cy cys)
  let ?b = "final (PendingIssueScheduler_run cf cy (b, []))" and ?a = "pi_publishAttempts (en_item en)"
  from Cons.prems(6) have sc: "0 \<le> sc" "sc \<le> cy_now cy - cf_cutoffSeconds cf * 1000"
      "UserCouponClient_findOne (cy_server cy) u t = Inr None" "unanswered cf u t (cy_clock cy u t) cys" by auto
  note step = run_step [OF assms Cons.prems(1-5) sc(1,2), unfolded sc(3)]
  have ok: "b_ok ?b" "\<not> b_running ?b" "b_waiting ?b \<le> cf_batchSize cf"
    using keeps_invD [OF run_ok [OF assms] Cons.prems(1)] Cons.prems(2,3)
      run_waiting [OF assms Cons.prems(1), of cy "[]"] by (simp_all add: run_cases)
  show ?case
  proof (cases "?a < cf_maxPublishAttempts cf")
    case True
    with step have held: "b_held ?b u t = Some (en\<lparr>en_item := (en_item en)\<lparr>pi_publishAttempts := ?a + 1\<rparr>,
        en_score := Some (cy_clock cy u t)\<rparr>)" by (simp add: swept_def)
    have "int (length cys) = max 0 (cf_maxPublishAttempts cf - (?a + 1)) + 1" using Cons.prems(7) True by simp
    with Cons.IH [OF ok held _ sc(4)] True show ?thesis by simp
  next
    case False
    with Cons.prems(7) have "cys = []" by simp
    with False step show ?thesis by (simp add: swept_def)
  qed
qed simp

lemma accept_nil:
  fixes rid :: string and u e t now :: int
  assumes "0 < ttl" "\<not> b_taken b u t" "\<not> blank rid" "0 < u" "0 < e" "0 < t"
  defines "p \<equiv> \<lparr>rq_requestId = rid, rq_userId = u, rq_eventId = e, rq_couponTypeId = t,
    rq_requestedAt = toInstantString now\<rparr>"
  obtains b' where "CouponIssueAcceptService_accept ttl sendTimeoutMs False rid now u e t (b, []) =
      (Inr (acceptance_accepted rid), b', [])"
    "b_topic b' = b_topic b @ [(dec u, JSON_stringify (request_json p))]"
proof -
  let ?w = "CouponIssueAcceptService_accept ttl sendTimeoutMs False rid now u e t (b, [])"
  from savePending_nil(1) [OF assms(1)] assms(2) have "outcome (savePendingIfAbsent ttl rid u e t now (b_redis b, [])) = Inr True"
    by (simp add: b_taken_def)
  moreover have "fair (savePendingIfAbsent ttl rid u e t now)" unfolding store_defs by (intro fair)
  from fair_nil [OF this] have "snd (snd (savePendingIfAbsent ttl rid u e t now (b_redis b, []))) = []" .
  ultimately have save: "b_save ttl rid u e t now (b, []) =
      (Inr True, b\<lparr>b_redis := final (savePendingIfAbsent ttl rid u e t now (b_redis b, []))\<rparr>, [])"
    by (simp add: b_save_def on_b_redis_apply)
  have "assertIssueRequestPayload (request_json p) = Inr ()"
    using assms(3-6) by (simp add: assert_request_json p_def)
  with save have "outcome ?w = Inr (acceptance_accepted rid) \<and> snd (snd ?w) = [] \<and>
      b_topic (final ?w) = b_topic b @ [(dec u, JSON_stringify (request_json p))]"
    by (simp add: CouponIssueAcceptService_accept_def accept_def bnd_def try_catch_def publish_def
        publishWithTimeout_def withTimeout_def sendInternal_def Let_def p_def)
  with that show ?thesis by (cases ?w) auto
qed

section \<open>Properties\<close>

text \<open>C20. An accepted request is never lost: whenever the service answers ACCEPTED, whatever failed on
  the way and even if its message was never sent, Redis holds the request as PENDING with one
  publish counted and the time of acceptance as its score, so the scheduler will find it.\<close>

theorem accepted_is_tracked:
  assumes "0 < ttl"
    and "CouponIssueAcceptService_accept ttl sendTimeoutMs fires rid now u e t (b, fs) = (Inr (acceptance_accepted rid), b', fs')"
  shows "b_taken b' u t \<and> b_held b' u t = Some \<lparr>en_item = fresh_item rid u e t now, en_score = Some now\<rparr>"
proof -
  obtain k where k: "ttl = 1 + int k" using positive_ttl [OF assms(1)] by blast
  from accept_service.accept_accepted [OF assms(2) [unfolded CouponIssueAcceptService_accept_def k]]
  show ?thesis .
qed

text \<open>One accepted request per pair: while a pair is taken, a further request for it is never
  answered ACCEPTED and changes nothing, neither in Redis nor on the topic.\<close>

lemma taken_pair_is_refused:
  assumes "0 < ttl" "b_taken b u t"
  shows "final (CouponIssueAcceptService_accept ttl sendTimeoutMs fires rid now u e t (b, fs)) = b \<and>
    outcome (CouponIssueAcceptService_accept ttl sendTimeoutMs fires rid now u e t (b, fs)) \<noteq> Inr (acceptance_accepted rid)"
proof -
  obtain k where k: "ttl = 1 + int k" using positive_ttl [OF assms(1)] by blast
  from accept_service.accept_taken [OF assms(2)] show ?thesis
    unfolding CouponIssueAcceptService_accept_def k .
qed


text \<open>Recovery of a lost result: a run that finds a stale pair for which server-c answers with a
  coupon takes over the status of the answer and stops tracking the pair.\<close>

lemma scheduler_takes_over_result:
  assumes "0 < cf_ttl cf" "b_ok b" "\<not> b_running b" "b_waiting b \<le> cf_batchSize cf"
    and "b_held b u t = Some en" "en_score en = Some sc" "0 \<le> sc" "sc \<le> cy_now cy - cf_cutoffSeconds cf * 1000"
    and "UserCouponClient_findOne (cy_server cy) u t = Inr (Some r)"
  shows "b_held (final (PendingIssueScheduler_run cf cy (b, []))) u t = Some (en\<lparr>en_item := (en_item en)
    \<lparr>pi_status := pending_wire (mapStatus (lk_status r))\<rparr>, en_score := None\<rparr>)"
  using run_step [OF assms(1-8)] assms(9) by (simp add: swept_def)

text \<open>C32. The scheduler never oversteps: under any faults a run leaves a pair within its grace period
  as it is, and of a stale one it changes only what the answer of server-c calls for; in particular it
  gives up only a pair that server-c does not know and that has used up its publishes.\<close>

theorem scheduler_never_oversteps:
  assumes "0 < cf_ttl cf" "b_ok b" "b_held b u t = Some en"
  shows "\<exists>en'. b_held (final (PendingIssueScheduler_run cf cy (b, fs))) u t = Some en' \<and>
    may_become (UserCouponClient_findOne (cy_server cy) u t) (cf_maxPublishAttempts cf) (en_item en) (en_item en') \<and>
    (\<forall>sc. en_score en = Some sc \<longrightarrow> cy_now cy - cf_cutoffSeconds cf * 1000 < sc \<longrightarrow> en' = en)"
proof (cases "b_running b")
  case True
  with assms(3) show ?thesis by (simp add: run_cases may_become_def)
next
  case False
  obtain k where k: "cf_ttl cf = 1 + int k" using positive_ttl [OF assms(1)] by blast
  let ?b = "b\<lparr>b_running := True\<rparr>"
  let ?h = "b_held (final (PendingIssueScheduler_run cf cy (b, fs))) u t"
  have run: "?h = b_held (final (PendingIssueScheduler_sweep cf cy (?b, fs))) u t" using False by (simp add: run_cases)
  have ok: "b_ok ?b" "b_held ?b u t = Some en" using assms(2,3) by simp_all
  from scheduler.sweep_any [where fires = "cy_fires cy" and timeoutMs = "cf_sendTimeoutMs cf" and k = k and
      lookup = "UserCouponClient_findOne (cy_server cy)" and mx = "cf_maxPublishAttempts cf", OF ok]
  obtain en' where en': "?h = Some en'"
      "may_become (UserCouponClient_findOne (cy_server cy) u t) (cf_maxPublishAttempts cf) (en_item en) (en_item en')"
    unfolding run sweep_eq [OF k] by blast
  moreover have "en' = en" if "en_score en = Some sc" "cy_now cy - cf_cutoffSeconds cf * 1000 < sc" for sc
  proof -
    have "?h = Some en"
      unfolding run sweep_eq [OF k] using that by (intro scheduler.sweep_grace [OF ok]) simp
    with en'(1) show ?thesis by simp
  qed
  ultimately show ?thesis by blast
qed

text \<open>C33. A crash between two commands of the store: when \<open>HSETNX\<close> succeeds and the following \<open>HSET\<close>
  fails, the caller gets an error, the pair holds no request the scheduler could find, and because
  the hash has no expiry every later request for the pair, at any time, is answered DUPLICATE.\<close>

theorem half_saved_request_blocks_the_pair:
  fixes b :: bstate and rid :: string and u e t now ttl sendTimeoutMs :: int and fires :: bool
  assumes "live_hash (b_redis b) (pendingHash u t) = None"
  defines "b' \<equiv> final (CouponIssueAcceptService_accept ttl sendTimeoutMs fires rid now u e t (b, [NoFault, FailBefore]))"
  shows "outcome (CouponIssueAcceptService_accept ttl sendTimeoutMs fires rid now u e t (b, [NoFault, FailBefore])) = Inl redis_down \<and>
    b_held b' u t = None \<and>
    outcome (CouponIssueAcceptService_accept ttl sendTimeoutMs fires' rid' now' u e' t
      (b'\<lparr>b_redis := (b_redis b')\<lparr>r_now := later\<rparr>\<rparr>, [])) = Inr (acceptance_duplicate rid')"
proof -
  let ?k = "pendingHash u t" and ?r = "b_redis b"
  have field: "hash_field ?r ?k ''userId'' = None" using assms(1) by (simp add: hash_field_def)
  have run: "CouponIssueAcceptService_accept ttl sendTimeoutMs fires rid now u e t (b, [NoFault, FailBefore]) =
      (Inl redis_down, b\<lparr>b_redis := put_fields ?k [(''userId'', dec u)] ?r\<rparr>, [])"
    by (simp add: CouponIssueAcceptService_accept_def accept_def b_save_def on_b_redis_apply bnd_def
        savePendingIfAbsent_def Let_def redis_hsetnx_def redis_hset_def do_hsetnx_def field)
  have hash: "r_hashes (put_fields ?k [(''userId'', dec u)] ?r) ?k = Some (Map.empty(''userId'' \<mapsto> dec u), None)"
    by (simp add: put_fields_def assms(1))
  define r' where "r' = (put_fields ?k [(''userId'', dec u)] ?r)\<lparr>r_now := later\<rparr>"
  have "live_hash r' ?k = Some (Map.empty(''userId'' \<mapsto> dec u), None)" by (simp add: live_hash_def r'_def hash)
  then have "hash_field r' ?k ''userId'' = Some (dec u)" by (simp add: hash_field_def)
  then have "outcome (CouponIssueAcceptService_accept ttl sendTimeoutMs fires' rid' now' u e' t
      (b\<lparr>b_redis := r'\<rparr>, [])) = Inr (acceptance_duplicate rid')"
    by (simp add: CouponIssueAcceptService_accept_def accept_def b_save_def on_b_redis_apply bnd_def
        savePendingIfAbsent_def Let_def redis_hsetnx_def do_hsetnx_def)
  moreover have "b_held b' u t = None"
    using assms(1) by (simp add: b'_def run b_held_def entry_def live_hash_put pending_of_hash_def)
  ultimately show ?thesis by (simp add: b'_def run r'_def)
qed

section \<open>Witnesses\<close>

text \<open>A new server-b, the request of user 11 for coupon type 3 whose message is never sent, and three
  cycles in which server-c does not know the pair.\<close>

definition first_accept :: "(exn + acceptance) \<times> bstate \<times> fault list" where
  "first_accept = CouponIssueAcceptService_accept 86400 3000 True ''4d2f'' 1000 11 7 3 (new_b 1000, [])"

definition store_config :: scheduler_config where
  "store_config = \<lparr>cf_ttl = 86400, cf_cutoffSeconds = 10, cf_batchSize = 50, cf_maxPublishAttempts = 3,
     cf_sendTimeoutMs = 500\<rparr>"

definition cycle_at :: "int \<Rightarrow> (string \<Rightarrow> http_reply) \<Rightarrow> cycle" where
  "cycle_at now server = \<lparr>cy_now = now, cy_clock = (\<lambda>_ _. now), cy_server = server, cy_fires = (\<lambda>_. True)\<rparr>"

definition not_known :: "string \<Rightarrow> http_reply" where
  "not_known path = Http_Response 404 JNull"

definition used_coupon :: "string \<Rightarrow> http_reply" where
  "used_coupon path = Http_Response 200 (JObj [(''success'', JBool True),
     (''data'', JObj [(''code'', JStr ''AAAAAAAAAAAA''), (''status'', JStr ''USED'')])])"

lemma tracked_zadd_new: "tracked (snd (do_zadd z s m r)) \<le> Suc (tracked r)"
  by (auto simp: tracked_def do_zadd_def intro: order_trans [OF length_filter_le])

lemma tracked_none: "tracked \<lparr>r_now = n, r_strings = x, r_hashes = y, r_zsets = (\<lambda>_. [])\<rparr> = 0"
  by (simp add: tracked_def)

lemma not_taken_new: "\<not> b_taken (new_b now) u t"
  by (simp add: b_taken_def reserved_def hash_field_def live_hash_def new_b_def)

lemma first_accept_eq: "first_accept = accept (b_save (1 + int 86399)) (publish 3000 True) ''4d2f'' 1000 11 7 3 (new_b 1000, [])"
  by (simp add: first_accept_def CouponIssueAcceptService_accept_def)

lemma first_accept_outcome: "outcome first_accept = Inr (acceptance_accepted ''4d2f'')"
  unfolding first_accept_eq by (rule accept_service.accept_free [OF not_taken_new])

lemma first_accept_held:
  "b_taken (final first_accept) 11 3 \<and>
   b_held (final first_accept) 11 3 = Some \<lparr>en_item = fresh_item ''4d2f'' 11 7 3 1000, en_score = Some 1000\<rparr>"
proof -
  obtain b' fs' where w: "first_accept = (Inr (acceptance_accepted ''4d2f''), b', fs')"
    using first_accept_outcome by (metis prod.collapse)
  from accept_service.accept_accepted [OF w [unfolded first_accept_eq]] show ?thesis
    unfolding w fst_conv snd_conv .
qed

lemma first_accept_ok: "b_ok (final first_accept)"
  unfolding first_accept_eq by (rule keeps_invD [OF accept_service.accept_keeps_ok new_b_ok])

lemma first_accept_rest: "\<not> b_running (final first_accept)" "b_waiting (final first_accept) \<le> 50"
proof -
  obtain b1 gs where w: "b_save 86400 ''4d2f'' 11 7 3 1000 (new_b 1000, []) = (Inr True, b1, gs)"
    and b1: "b_waiting b1 \<le> 50" "\<not> b_running b1"
    by (simp add: b_save_def on_b_redis_apply store_defs do_hsetnx_def hash_field_def live_hash_def new_b_def
        b_waiting_def order_trans [OF tracked_zadd_new] tracked_none)
  have run: "first_accept = (Inr (acceptance_accepted ''4d2f''), snd (publish 3000 True
      \<lparr>rq_requestId = ''4d2f'', rq_userId = 11, rq_eventId = 7, rq_couponTypeId = 3,
       rq_requestedAt = toInstantString 1000\<rparr> (b1, gs)))"
    unfolding first_accept_eq by (rule accept_service.accept_run) (use w in simp)
  have "same_store b1 (final first_accept)"
    unfolding run publish_def snd_conv by (rule keeps_invD [OF publish_same_store]) (simp add: same_store_def)
  with b1 show "\<not> b_running (final first_accept)" "b_waiting (final first_accept) \<le> 50"
    by (simp_all add: same_store_def b_waiting_def)
qed

theorem accepted_is_tracked_witness:
  "b_held (final first_accept) 11 3 = Some \<lparr>en_item = fresh_item ''4d2f'' 11 7 3 1000, en_score = Some 1000\<rparr>"
proof -
  obtain b' fs' where w: "first_accept = (Inr (acceptance_accepted ''4d2f''), b', fs')"
    using first_accept_outcome by (metis prod.collapse)
  from accepted_is_tracked [OF _ w [unfolded first_accept_def]] show ?thesis
    unfolding w fst_conv snd_conv by simp
qed

lemma taken_pair_is_refused_witness:
  "final (CouponIssueAcceptService_accept 86400 3000 False ''77aa'' 2000 11 8 3 (final first_accept, [FailAfter])) = final first_accept"
  using taken_pair_is_refused [of 86400 "final first_accept" 11 3 3000 False "''77aa''" 2000 8 "[FailAfter]"]
    first_accept_held by simp

lemma not_known_none: "UserCouponClient_findOne not_known u t = Inr None"
  by (simp add: UserCouponClient_findOne_def axios_result_def not_known_def)


theorem scheduler_takes_over_result_witness:
  "b_held (final (PendingIssueScheduler_run store_config (cycle_at 11000 used_coupon) (final first_accept, []))) 11 3 =
    Some \<lparr>en_item = (fresh_item ''4d2f'' 11 7 3 1000)\<lparr>pi_status := ''SUCCESS''\<rparr>, en_score = None\<rparr>"
proof -
  have "UserCouponClient_findOne used_coupon 11 3 = Inr (Some \<lparr>lk_status = Some ''USED'', lk_code = Some ''AAAAAAAAAAAA''\<rparr>)"
    by (simp add: UserCouponClient_findOne_def axios_result_def used_coupon_def envelope_data_def jprop_def json_text_def)
  with scheduler_takes_over_result [of store_config "final first_accept" 11 3
      "\<lparr>en_item = fresh_item ''4d2f'' 11 7 3 1000, en_score = Some 1000\<rparr>" 1000 "cycle_at 11000 used_coupon"]
    first_accept_ok first_accept_rest first_accept_held
  show ?thesis by (simp add: store_config_def cycle_at_def mapStatus_def)
qed

theorem scheduler_never_oversteps_witness:
  "\<exists>en'. b_held (final (PendingIssueScheduler_run store_config (cycle_at 11000 not_known) (final first_accept, [NoFault, FailAfter]))) 11 3
      = Some en' \<and> may_become (Inr None) 3 (fresh_item ''4d2f'' 11 7 3 1000) (en_item en')"
  using scheduler_never_oversteps [of store_config "final first_accept" 11 3
      "\<lparr>en_item = fresh_item ''4d2f'' 11 7 3 1000, en_score = Some 1000\<rparr>" "cycle_at 11000 not_known" "[NoFault, FailAfter]"]
    first_accept_ok first_accept_held
  by (auto simp: store_config_def cycle_at_def not_known_none)

theorem half_saved_request_blocks_the_pair_witness:
  "outcome (CouponIssueAcceptService_accept 86400 3000 False ''4d2f'' 1000 11 7 3 (new_b 1000, [NoFault, FailBefore])) = Inl redis_down"
  using half_saved_request_blocks_the_pair [of "new_b 1000" 11 3 86400 3000 False "''4d2f''" 1000 7]
  by (simp add: new_b_def live_hash_def)

end
