(* ===== verification/B_Results.thy ===== *)
theory B_Results imports B_Port Kafka_Lifecycle begin

text \<open>
  \<open>apps/server-b/src/infrastructure/kafka/coupon-issue-result.consumer.ts\<close>: the consumer discipline of
  \<open>Kafka_Consumer\<close> on the store.  A record is settled once the hash of its pair carries its status and
  code and the pair is no longer tracked.
\<close>

section \<open>The consumer\<close>

fun result_mapStatus :: "result_status \<Rightarrow> issue_pending_status" where
  "result_mapStatus R_SUCCESS = PS_SUCCESS"
| "result_mapStatus R_SOLD_OUT = PS_SOLD_OUT"
| "result_mapStatus R_FAILED = PS_FAILED"

definition parse_result :: "string option \<Rightarrow> issue_result option" where
  "parse_result val = (case val of
      None \<Rightarrow> None
    | Some raw \<Rightarrow> (case JSON_parse raw of
        None \<Rightarrow> None
      | Some parsed \<Rightarrow> (case assertIssueResultPayload parsed of
          Inl e \<Rightarrow> None
        | Inr _ \<Rightarrow> result_of parsed)))"

definition mark_attempt :: "int \<Rightarrow> nat \<Rightarrow> issue_result \<Rightarrow> (bstate, exn, unit) eff" where
  "mark_attempt ttl k payload =
     b_mark ttl (rs_userId payload) (rs_couponTypeId payload) (result_mapStatus (rs_status payload)) (rs_couponCode payload)"

definition result_deliver :: "int \<Rightarrow> nat \<Rightarrow> string option \<Rightarrow> (bstate, exn, unit) eff" where
  "result_deliver ttl maxDeliveryAttempts val =
     deliver maxDeliveryAttempts parse_result (mark_attempt ttl) val"

definition result_run_options :: "int \<Rightarrow> run_options" where
  "result_run_options concurrency =
     \<lparr>ro_autoCommit = True, ro_autoCommitThreshold = 1, ro_eachBatchAutoResolve = False,
      ro_partitionsConsumedConcurrently = concurrency\<rparr>"

definition result_consumer_setup :: "env \<Rightarrow> consumer_setup" where
  "result_consumer_setup env =
     \<lparr>cs_groupId = ''coupon-result-server-b'', cs_sessionTimeout = 45000, cs_rebalanceTimeout = 300000,
      cs_maxWaitTimeInMs = 500, cs_topic = kt_issueResult (kafkaTopics_b env), cs_fromBeginning = True,
      cs_run = result_run_options (env_number env ''KAFKA_CONSUMER_CONCURRENCY'' 1)\<rparr>"

text \<open>Its life is that of every consumer; here are the steps of its start and of its shutdown.\<close>

definition result_consumer_start :: "env \<Rightarrow> (broker, exn, unit) eff" where
  "result_consumer_start env = consumer_start (result_consumer_setup env)"

definition result_lifecycle_step :: "bool \<Rightarrow> env \<Rightarrow> lifecycle \<Rightarrow> lifecycle \<Rightarrow> bool" where
  "result_lifecycle_step lossy env = lifecycle_step lossy (result_consumer_setup env)"

definition result_batch ::
  "int \<Rightarrow> nat \<Rightarrow> int \<Rightarrow> nat \<Rightarrow> (nat \<Rightarrow> bool) \<Rightarrow> message list \<Rightarrow> (bstate \<times> offsets, exn, unit) eff" where
  "result_batch ttl maxDeliveryAttempts concurrency maxRecordsPerBatch go msgs =
     run_batch (result_run_options concurrency) maxRecordsPerBatch go (result_deliver ttl maxDeliveryAttempts) msgs"

section \<open>Marking is idempotent\<close>

definition result_settled :: "issue_result \<Rightarrow> bstate \<Rightarrow> bool" where
  "result_settled p b \<longleftrightarrow> (let r = b_redis b; k = pendingHash (rs_userId p) (rs_couponTypeId p) in
     hash_field r k ''status'' = Some (pending_wire (result_mapStatus (rs_status p))) \<and>
     (case rs_couponCode p of None \<Rightarrow> True | Some c \<Rightarrow> hash_field r k ''code'' = Some c) \<and>
     zscore r PENDING_ZSET (pendingZsetMember (rs_userId p) (rs_couponTypeId p)) = None)"

text \<open>What clients can read: every field of every hash, every score, the topic.\<close>

definition same_view :: "bstate \<Rightarrow> bstate \<Rightarrow> bool" where
  "same_view b b' \<longleftrightarrow> hash_field (b_redis b') = hash_field (b_redis b) \<and>
     zscore (b_redis b') = zscore (b_redis b) \<and> b_topic b' = b_topic b"

lemma hash_field_put_one:
  "hash_field (put_fields k [(f, v)] r) = (\<lambda>k' f'. if k' = k \<and> f' = f then Some v else hash_field r k' f')"
  by (intro ext) (auto simp: hash_field_def live_hash_put split: option.split prod.split)

lemma hash_field_expire: "0 < ttl \<Longrightarrow> hash_field (snd (do_expire k ttl r)) = hash_field r"
  by (intro ext) (auto simp: hash_field_def live_hash_expire split: option.split prod.split)

lemma hash_field_zrem: "hash_field (snd (do_zrem z m r)) = hash_field r"
  by (intro ext) (simp add: hash_field_def)

lemma zscore_store [simp]:
  "zscore (put_fields k fvs r) = zscore r" "zscore (snd (do_expire k ttl r)) = zscore r"
  by (intro ext, simp)+

lemma mark_settles:
  assumes "0 < ttl"
  shows "result_settled p (final (mark_attempt ttl k p (b, [])))"
  using hash_field_expire [OF assms]
  by (cases "rs_couponCode p")
    (simp_all add: result_settled_def mark_attempt_def b_mark_def on_b_redis_apply store_defs Let_def
      hash_field_put_one hash_field_zrem)

lemma mark_settled_same:
  assumes "0 < ttl" "result_settled p b"
  shows "same_view b (final (mark_attempt ttl k p (b, fs)))"
proof -
  let ?u = "rs_userId p" and ?t = "rs_couponTypeId p" and ?r = "b_redis b"
  let ?k = "pendingHash ?u ?t" and ?st = "result_mapStatus (rs_status p)"
  let ?I = "\<lambda>r. hash_field r = hash_field ?r \<and> zscore r = zscore ?r"
  have status: "hash_field ?r ?k ''status'' = Some (pending_wire ?st)"
    and code: "rs_couponCode p = Some c \<Longrightarrow> hash_field ?r ?k ''code'' = Some c"
    and score: "zscore ?r PENDING_ZSET (pendingZsetMember ?u ?t) = None" for c
    using assms(2) by (simp_all add: result_settled_def Let_def)
  have put: "?I s \<Longrightarrow> hash_field ?r ?k f = Some v \<Longrightarrow> ?I (put_fields ?k [(f, v)] s)" for s f v
    by (auto simp: hash_field_put_one fun_eq_iff)
  have zrem: "?I s \<Longrightarrow> ?I (snd (do_zrem PENDING_ZSET (pendingZsetMember ?u ?t) s))" for s
    using score by (auto simp: hash_field_zrem fun_eq_iff)
  have "keeps_inv ?I (markResult ttl ?u ?t ?st (rs_couponCode p))"
    unfolding store_defs
    using put [OF _ status] put [OF _ code] zrem
    by (intro keeps) (simp_all add: hash_field_expire [OF assms(1)])
  from keeps_invD [OF this, of ?r fs] show ?thesis
    by (simp add: same_view_def mark_attempt_def b_mark_def on_b_redis_apply)
qed

lemma fair_mark_attempt: "fair (mark_attempt ttl k p)"
  unfolding mark_attempt_def b_mark_def store_defs on_b_redis_def by (intro fair)

lemma honest_on_b_redis: "honest m \<Longrightarrow> honest (on_b_redis m)"
proof (rule honestI)
  fix b fs x b' fs'
  assume m: "honest m" and r: "on_b_redis m (b, fs) = (Inr x, b', fs')"
  obtain s' where w: "m (b_redis b, fs) = (Inr x, s', fs')"
    using r by (cases "m (b_redis b, fs)") (auto simp: on_b_redis_apply)
  from honestD [OF m w] w r show "on_b_redis m (b, []) = (Inr x, b', [])" by (simp add: on_b_redis_apply)
qed

interpretation results: settling_handler parse_result "mark_attempt (1 + int n)" b_ok result_settled same_view
  for n
proof
  have pos: "0 < 1 + int n" by simp
  show "keeps_inv b_ok (mark_attempt (1 + int n) k p)" for k p
    unfolding mark_attempt_def by (rule redis_store.ops_ok(2))
  show "result_settled p b'" if "mark_attempt (1 + int n) k p (b, fs) = (Inr (), b', fs')" for b k p fs b' fs'
  proof -
    have "honest (mark_attempt (1 + int n) k p)"
      unfolding mark_attempt_def b_mark_def by (intro honest_on_b_redis honest_store)
    from honestD [OF this that] mark_settles [OF pos, of p k b] show ?thesis by simp
  qed
  show "same_view b (final (mark_attempt (1 + int n) k p (b, fs)))" if "result_settled p b" for p b k fs
    by (rule mark_settled_same [OF pos that])
  show "same_view b b" for b by (simp add: same_view_def)
  show "same_view b d" if "same_view b c" "same_view c d" for b c d
    using that by (simp add: same_view_def)
  show "result_settled p c" if "result_settled p b" "same_view b c" for p b c
    using that by (simp add: result_settled_def same_view_def Let_def cong: option.case_cong)
qed

section \<open>Properties\<close>

text \<open>A delivered result reaches the user in spite of outages: a well-formed record leaves its
  status and code in the hash of its pair and ends the tracking, as long as fewer calls fail than
  there are delivery attempts.\<close>

lemma result_delivery_settles:
  assumes "0 < ttl" "parse_result val = Some p" "b_ok b" "nfaults fs < maxDeliveryAttempts"
  shows "result_settled p (final (result_deliver ttl maxDeliveryAttempts val (b, fs)))"
proof -
  obtain k where k: "ttl = 1 + int k" using positive_ttl [OF assms(1)] by blast
  have "outcome (mark_attempt ttl j p (s, [])) = Inr ()" for j s
    by (cases "rs_couponCode p") (simp_all add: mark_attempt_def b_mark_def on_b_redis_apply store_defs)
  then have "result_settled p (final (delivery_attempts maxDeliveryAttempts 1 (mark_attempt ttl) p (b, fs)))"
    unfolding k by (intro results.attempts_settle [where ready = "\<lambda>_. True"] fair_mark_attempt assms(3,4)) simp_all
  with assms(2) show ?thesis by (simp add: result_deliver_def deliver_def)
qed

text \<open>At-least-once delivery is harmless on this side too: delivering a settled result again, any
  number of times and under any faults, changes nothing a client can read.\<close>

lemma result_redelivery_invisible:
  assumes "0 < ttl" "parse_result val = Some p" "result_settled p b"
  shows "same_view b (final (result_deliver ttl maxDeliveryAttempts val (b, fs)))"
proof -
  obtain k where k: "ttl = 1 + int k" using positive_ttl [OF assms(1)] by blast
  show ?thesis unfolding result_deliver_def k by (rule results.redelivery [OF assms(2,3)])
qed

text \<open>Witnesses: the result of user 11, once with two outages, once delivered again.\<close>

definition result_of_user :: "int \<Rightarrow> issue_result" where
  "result_of_user u = \<lparr>rs_requestId = ''4d2f'', rs_userId = u, rs_eventId = 7, rs_couponTypeId = 3,
     rs_status = R_SUCCESS, rs_couponCode = Some ''AAAAAAAAAAAA'', rs_processedAt = ''1970-01-01T00:00:06Z''\<rparr>"

definition result_text :: string where
  "result_text = JSON_stringify (result_json (result_of_user 11))"

lemma parse_result_json:
  "(rs_status p = R_SUCCESS \<longrightarrow> rs_couponCode p \<noteq> None) \<Longrightarrow>
   parse_result (Some (JSON_stringify (result_json p))) = Some p"
  using assert_result_json by (simp add: parse_result_def JSON_parse_stringify)

lemma parse_result_text: "parse_result (Some result_text) = Some (result_of_user 11)"
  unfolding result_text_def by (rule parse_result_json) (simp add: result_of_user_def)

lemma result_delivery_settles_witness:
  "result_settled (result_of_user 11) (final (result_deliver 86400 10 (Some result_text) (new_b 0, [FailBefore, NoFault, FailAfter])))"
  by (rule result_delivery_settles [OF _ parse_result_text new_b_ok]) simp_all

theorem result_redelivery_invisible_witness:
  "same_view (final (mark_attempt 86400 1 (result_of_user 11) (new_b 0, [])))
     (final (result_deliver 86400 10 (Some result_text) (final (mark_attempt 86400 1 (result_of_user 11) (new_b 0, [])), [FailAfter])))"
  by (rule result_redelivery_invisible [OF _ parse_result_text mark_settles]) simp_all

end
