(* ===== verification/B_System.thy ===== *)
theory B_System imports B_Cycles B_Results begin

text \<open>
  server-b as a whole: its entry points (a request accepted, a run of the scheduler, a delivered
  result, the passing of time) as the steps of one transition relation, each under any faults, and
  the invariant of every state they can reach from an empty Redis.
\<close>

inductive b_step :: "int \<Rightarrow> bstate \<Rightarrow> bstate \<Rightarrow> bool" for ttl :: int where
  accept_call: "b_step ttl b (final (CouponIssueAcceptService_accept ttl sendTimeoutMs fires rid now u e t (b, fs)))"
| scheduler_tick: "cf_ttl cf = ttl \<Longrightarrow> b_step ttl b (final (PendingIssueScheduler_run cf cy (b, fs)))"
| deliver_result: "b_step ttl b (final (result_deliver ttl maxDeliveryAttempts val (b, fs)))"
| restarts_b: "b_step ttl b (final (b_restart (b, fs)))"
| time_passes: "r_now (b_redis b) \<le> t' \<Longrightarrow> b_step ttl b (b\<lparr>b_redis := (b_redis b)\<lparr>r_now := t'\<rparr>\<rparr>)"

inductive_cases b_stepE: "b_step ttl b b'"

definition b_opened :: "bstate \<Rightarrow> bool" where
  "b_opened b \<longleftrightarrow> b_topic b = [] \<and> r_zsets (b_redis b) PENDING_ZSET = [] \<and>
     (\<forall>u t. r_hashes (b_redis b) (pendingHash u t) = None)"

definition b_reachable :: "int \<Rightarrow> bstate \<Rightarrow> bstate \<Rightarrow> bool" where
  "b_reachable ttl b0 b \<longleftrightarrow> 0 < ttl \<and> b_opened b0 \<and> (b_step ttl)\<^sup>*\<^sup>* b0 b"

section \<open>The invariant of server-b\<close>

definition b_inv :: "bstate \<Rightarrow> bool" where
  "b_inv b \<longleftrightarrow> b_ok b \<and> topic_ok b"

lemma opened_b_inv: "b_opened b \<Longrightarrow> b_inv b"
  by (simp add: b_inv_def b_opened_def b_ok_def pending_ok_def store_ok_def counted_def live_hash_def topic_ok_def)

lemma keeps_topic_redis: "keeps_inv topic_ok (on_b_redis m)"
  by (simp add: keeps_inv_def on_b_redis_apply topic_ok_def)

lemma accept_topic: "keeps_inv topic_ok (CouponIssueAcceptService_accept ttl tmo fires rid now u e t)"
  unfolding CouponIssueAcceptService_accept_def accept_def b_save_def publish_def Let_def
  by (intro keeps keeps_topic_redis keeps_publish_topic)

lemma sweep_topic: "keeps_inv topic_ok (PendingIssueScheduler_sweep cf cy)"
  unfolding PendingIssueScheduler_sweep_def sweep_def scheduler_item_def sweep_item_def republish_def
    b_mark_def b_republish_def b_stale_def inc_counter_def publishForScheduler_def Let_def
  by (intro keeps keeps_topic_redis keeps_publish_topic) (simp_all add: topic_ok_def)

lemma topic_running [simp]: "topic_ok (b\<lparr>b_running := x\<rparr>) = topic_ok b"
  by (simp add: topic_ok_def)

lemma run_topic: "keeps_inv topic_ok (PendingIssueScheduler_run cf cy)"
  by (rule keeps_invI) (simp add: run_cases keeps_invD [OF sweep_topic])

lemma deliver_topic: "keeps_inv topic_ok (result_deliver ttl n val)"
proof -
  have "keeps_inv topic_ok (mark_attempt ttl k p)" for k p
    unfolding mark_attempt_def b_mark_def by (rule keeps_topic_redis)
  then have "keeps_inv topic_ok (delivery_attempts n k (mark_attempt ttl) p)" for k p
    by (induction n arbitrary: k) (auto intro: keeps)
  then show ?thesis unfolding result_deliver_def deliver_def by (intro keeps)
qed

lemma live_hash_later:
  "r_now r \<le> t' \<Longrightarrow> live_hash (r\<lparr>r_now := t'\<rparr>) k = Some h \<Longrightarrow> live_hash r k = Some h"
  by (auto simp: live_hash_def split: option.splits prod.splits if_splits)

lemma pending_ok_later: "r_now r \<le> t' \<Longrightarrow> pending_ok r \<Longrightarrow> pending_ok (r\<lparr>r_now := t'\<rparr>)"
  unfolding pending_ok_def counted_def using live_hash_later by (simp add: store_ok_def) blast

lemma b_step_inv:
  assumes "b_step ttl b b'" "0 < ttl" "b_inv b"
  shows "b_inv b'"
  using assms(1)
proof cases
  case (accept_call tmo fires rid now u e t fs)
  obtain k where k: "ttl = 1 + int k" using positive_ttl [OF assms(2)] by blast
  have "keeps_inv b_ok (CouponIssueAcceptService_accept ttl tmo fires rid now u e t)"
    unfolding CouponIssueAcceptService_accept_def k by (rule accept_service.accept_keeps_ok)
  with assms(3) accept_call accept_topic show ?thesis by (simp add: b_inv_def keeps_inv_def)
next
  case (scheduler_tick cf cy fs)
  with assms(2,3) run_ok run_topic show ?thesis by (simp add: b_inv_def keeps_inv_def)
next
  case (deliver_result n val fs)
  obtain k where k: "ttl = 1 + int k" using positive_ttl [OF assms(2)] by blast
  have "keeps_inv b_ok (result_deliver ttl n val)"
    unfolding result_deliver_def k by (rule results.deliver_keeps)
  with assms(3) deliver_result deliver_topic show ?thesis by (simp add: b_inv_def keeps_inv_def)
next
  case (restarts_b fs)
  obtain x where "final (b_restart (b, fs)) = b\<lparr>b_running := False, b_counters := (\<lambda>_. 0), b_connected := x\<rparr>"
    using b_restart_cases(1) by blast
  with restarts_b assms(3) show ?thesis by (simp add: b_inv_def b_ok_def topic_ok_def)
next
  case (time_passes t')
  with assms(3) show ?thesis by (simp add: b_inv_def b_ok_def topic_ok_def pending_ok_later)
qed

lemma b_reachable_inv:
  assumes "b_reachable ttl b0 b"
  shows "b_inv b"
proof -
  from assms have "(b_step ttl)\<^sup>*\<^sup>* b0 b" "0 < ttl" "b_opened b0" by (simp_all add: b_reachable_def)
  then show ?thesis by (induction rule: rtranclp_induct) (auto intro: opened_b_inv b_step_inv)
qed

lemma b_reachable_step: "b_reachable ttl b0 b \<Longrightarrow> b_step ttl b b' \<Longrightarrow> b_reachable ttl b0 b'"
  by (auto simp: b_reachable_def)

lemma new_b_reachable: "0 < ttl \<Longrightarrow> b_reachable ttl (new_b now) (new_b now)"
  by (simp add: b_reachable_def b_opened_def new_b_def)

end
