(* ===== verification/B_Truth.thy ===== *)
theory B_Truth imports B_System begin

text \<open>
  Where the statuses in the store of server-b come from.  \<open>T st u t\<close> says that status \<open>st\<close> may be told
  of the pair; \<open>PENDING\<close> and \<open>FAILED\<close> always may, as an accept writes the one and the scheduler's give-up
  the other.  Every operation keeps every status true as long as the answers of server-c and the
  result messages are.
\<close>

definition status_ok :: "(string \<Rightarrow> int \<Rightarrow> int \<Rightarrow> bool) \<Rightarrow> redis \<Rightarrow> bool" where
  "status_ok T r \<longleftrightarrow> (\<forall>u t st. hash_field r (pendingHash u t) ''status'' = Some st \<longrightarrow> T st u t)"

definition tellable :: "(string \<Rightarrow> int \<Rightarrow> int \<Rightarrow> bool) \<Rightarrow> bool" where
  "tellable T \<longleftrightarrow> (\<forall>u t. T ''PENDING'' u t \<and> T ''FAILED'' u t)"

lemma status_okD: "status_ok T r \<Longrightarrow> hash_field r (pendingHash u t) ''status'' = Some st \<Longrightarrow> T st u t"
  by (simp add: status_ok_def)

lemma status_ok_held:
  assumes "status_ok T (b_redis b)" "b_held b u t = Some en"
  shows "T (pi_status (en_item en)) u t"
proof -
  from assms(2) obtain h tm where h: "live_hash (b_redis b) (pendingHash u t) = Some (h, tm)"
      "pending_of_hash u t h = Some (en_item en)"
    by (auto simp: b_held_def entry_def split: option.splits)
  then have "hash_field (b_redis b) (pendingHash u t) ''status'' = Some (pi_status (en_item en))"
    by (simp add: hash_field_def pending_of_hashE(2))
  with assms(1) show ?thesis by (rule status_okD)
qed

section \<open>The commands\<close>

lemma foldl_fields:
  "foldl (\<lambda>h (f, v). h(f \<mapsto> v)) h fvs k = Some x \<Longrightarrow> (k, x) \<in> set fvs \<or> h k = Some x"
proof (induction fvs arbitrary: h)
  case (Cons fv fvs)
  obtain f v where fv: "fv = (f, v)" by (cases fv)
  with Cons.IH [of "h(f \<mapsto> v)"] Cons.prems show ?case by (auto split: if_splits)
qed simp

lemma hash_field_put:
  "hash_field (put_fields k fvs r) k' f = Some x \<Longrightarrow>
   (k' = k \<and> (f, x) \<in> set fvs) \<or> hash_field r k' f = Some x"
  using foldl_fields [of _ fvs f x]
  by (auto simp: hash_field_def live_hash_put split: option.splits if_splits prod.splits)

lemma status_ok_put:
  assumes "status_ok T r" "\<And>u t st. k = pendingHash u t \<Longrightarrow> (''status'', st) \<in> set fvs \<Longrightarrow> T st u t"
  shows "status_ok T (put_fields k fvs r)"
  unfolding status_ok_def
proof (intro allI impI)
  fix u t st assume "hash_field (put_fields k fvs r) (pendingHash u t) ''status'' = Some st"
  from hash_field_put [OF this] assms show "T st u t" by (auto simp: status_ok_def)
qed

lemma status_ok_expire: "status_ok T r \<Longrightarrow> status_ok T (snd (do_expire k ttl r))"
proof -
  have "hash_field (snd (do_expire k ttl r)) k' f = Some x \<Longrightarrow> hash_field r k' f = Some x" for k' f x
    by (auto simp: hash_field_def do_expire_def live_hash_def split: option.splits prod.splits if_splits)
  then show "status_ok T r \<Longrightarrow> status_ok T (snd (do_expire k ttl r))" by (auto simp: status_ok_def)
qed

lemma status_ok_zsets [simp]:
  "status_ok T (snd (do_zadd z s m r)) = status_ok T r" "status_ok T (snd (do_zrem z m r)) = status_ok T r"
  by (simp_all add: status_ok_def hash_field_def)

lemma status_ok_hsetnx: "status_ok T r \<Longrightarrow> f \<noteq> ''status'' \<Longrightarrow> status_ok T (snd (do_hsetnx k f v r))"
  by (auto simp: do_hsetnx_def intro: status_ok_put)

lemma status_ok_hincrby: "status_ok T r \<Longrightarrow> f \<noteq> ''status'' \<Longrightarrow> status_ok T (snd (do_hincrby k f d r))"
  by (auto simp: do_hincrby_def intro: status_ok_put split: option.split)

lemmas status_ok_cmds = status_ok_put status_ok_expire status_ok_hsetnx status_ok_hincrby

section \<open>The methods of the store\<close>

lemma status_save: "tellable T \<Longrightarrow> keeps_inv (status_ok T) (savePendingIfAbsent ttl rid u e t now)"
  unfolding store_defs by (intro keeps) (auto simp: tellable_def intro!: status_ok_cmds)

lemma status_republish: "keeps_inv (status_ok T) (recordRepublish ttl u t now)"
  unfolding store_defs by (intro keeps) (auto intro!: status_ok_cmds)

lemma status_mark: "T (pending_wire st) u t \<Longrightarrow> keeps_inv (status_ok T) (markResult ttl u t st code)"
  unfolding store_defs by (intro keeps) (auto intro!: status_ok_cmds)

lemma status_find: "keeps_inv (status_ok T) (findPendingOlderThan cutoff n)"
proof -
  have "keeps_inv (status_ok T) (read_members ms acc)" for ms acc
  proof (induction ms arbitrary: acc)
    case (Cons m ms)
    then show ?case
      unfolding read_members.simps redis_hgetall_def redis_zrem_def
      by (intro keeps_option keeps_bnd keeps_pair keeps_external Cons) simp_all
  qed (simp add: keeps_ret)
  then show ?thesis
    unfolding findPendingOlderThan_def redis_zrangebyscore_def
    by (intro keeps_bnd keeps_external keeps_if keeps_ret) simp_all
qed

section \<open>The operations of server-b\<close>

lemma status_publish: "keeps_inv (\<lambda>b. status_ok T (b_redis b)) (publishWithTimeout fires p tmo)"
  by (rule keeps_invI) (simp add: publish_redis)

lemma status_accept:
  "tellable T \<Longrightarrow> keeps_inv (\<lambda>b. status_ok T (b_redis b)) (CouponIssueAcceptService_accept ttl tmo fires rid now u e t)"
  unfolding CouponIssueAcceptService_accept_def accept_def b_save_def publish_def Let_def
  by (intro keeps keeps_on_b_redis status_save status_publish)

text \<open>What the scheduler is told must be true.\<close>

lemma status_sweep:
  assumes "tellable T"
    and "\<And>u t r. UserCouponClient_findOne (cy_server cy) u t = Inr (Some r) \<Longrightarrow> T (pending_wire (mapStatus (lk_status r))) u t"
  shows "keeps_inv (\<lambda>b. status_ok T (b_redis b)) (PendingIssueScheduler_sweep cf cy)"
  unfolding PendingIssueScheduler_sweep_def sweep_def scheduler_item_def sweep_item_def republish_def
    b_mark_def b_republish_def b_stale_def inc_counter_def publishForScheduler_def Let_def
  by (intro keeps keeps_on_b_redis status_mark status_republish status_find status_publish assms(2))
    (use assms(1) in \<open>simp_all add: tellable_def\<close>)

lemma status_run:
  assumes "tellable T"
    and "\<And>u t r. UserCouponClient_findOne (cy_server cy) u t = Inr (Some r) \<Longrightarrow> T (pending_wire (mapStatus (lk_status r))) u t"
  shows "keeps_inv (\<lambda>b. status_ok T (b_redis b)) (PendingIssueScheduler_run cf cy)"
  by (rule keeps_invI) (simp add: run_cases keeps_invD [OF status_sweep [OF assms]])

lemma status_deliver:
  assumes "\<And>p. parse_result val = Some p \<Longrightarrow> T (pending_wire (result_mapStatus (rs_status p))) (rs_userId p) (rs_couponTypeId p)"
  shows "keeps_inv (\<lambda>b. status_ok T (b_redis b)) (result_deliver ttl n val)"
  unfolding result_deliver_def mark_attempt_def b_mark_def
  by (intro keeps_deliver keeps_on_b_redis status_mark assms)

lemma status_later: "r_now r \<le> t' \<Longrightarrow> status_ok T r \<Longrightarrow> status_ok T (r\<lparr>r_now := t'\<rparr>)"
  unfolding status_ok_def hash_field_def
  by (auto split: option.splits) (metis live_hash_later option.distinct(1) option.inject prod.inject)

lemma status_mono: "status_ok T r \<Longrightarrow> (\<And>st u t. T st u t \<Longrightarrow> T' st u t) \<Longrightarrow> status_ok T' r"
  by (auto simp: status_ok_def)

lemma status_opened: "b_opened b \<Longrightarrow> status_ok T (b_redis b)"
  by (simp add: b_opened_def status_ok_def hash_field_def live_hash_def)

section \<open>The request topic only grows\<close>

definition topic_from :: "(string \<times> string) set \<Rightarrow> bstate \<Rightarrow> bool" where
  "topic_from M b \<longleftrightarrow> M \<subseteq> set (b_topic b)"

lemma grows_redis: "keeps_inv (topic_from M) (on_b_redis m)"
  by (simp add: keeps_inv_def on_b_redis_apply topic_from_def)

lemma grows_publish: "keeps_inv (topic_from M) (publishWithTimeout fires p tmo)"
proof -
  have "keeps_inv (topic_from M) (sendInternal p)"
    unfolding sendInternal_def by (intro keeps) (auto simp: topic_from_def)
  then show ?thesis unfolding publishWithTimeout_def by (intro keeps)
qed

lemma grows_accept: "keeps_inv (topic_from M) (CouponIssueAcceptService_accept ttl tmo fires rid now u e t)"
  unfolding CouponIssueAcceptService_accept_def accept_def b_save_def publish_def Let_def
  by (intro keeps grows_redis grows_publish)

lemma grows_sweep: "keeps_inv (topic_from M) (PendingIssueScheduler_sweep cf cy)"
  unfolding PendingIssueScheduler_sweep_def sweep_def scheduler_item_def sweep_item_def republish_def
    b_mark_def b_republish_def b_stale_def inc_counter_def publishForScheduler_def Let_def
  by (intro keeps grows_redis grows_publish) (simp_all add: topic_from_def)

lemma grows_run: "keeps_inv (topic_from M) (PendingIssueScheduler_run cf cy)"
proof -
  have "topic_from M (b\<lparr>b_running := x\<rparr>) = topic_from M b" for b x by (simp add: topic_from_def)
  then show ?thesis by (intro keeps_invI) (simp add: run_cases keeps_invD [OF grows_sweep])
qed

lemma grows_deliver: "keeps_inv (topic_from M) (result_deliver ttl n val)"
  unfolding result_deliver_def mark_attempt_def b_mark_def by (intro keeps_deliver grows_redis)

end
