(* ===== verification/B_Api.thy ===== *)
theory B_Api imports B_Truth Http begin

text \<open>
  The controller of server-b (\<open>apps/server-b/src/api\<close>): the raw answer, without the envelope, that
  server-a reads.  What the validation pipe makes of the body is an argument.
\<close>

definition toIssueResponse :: "acceptance \<Rightarrow> json" where
  "toIssueResponse result = JObj (
     (case ac_requestId result of None \<Rightarrow> [] | Some r \<Rightarrow> [(''requestId'', JStr r)]) @
     [(''status'', JStr (acceptance_wire (ac_status result)))] @
     (case ac_message result of None \<Rightarrow> [] | Some m \<Rightarrow> [(''message'', JStr m)]))"

text \<open>The body of the request, once it is valid.\<close>

record issue_dto =
  dto_eventId :: int
  dto_couponTypeId :: int

definition CouponIssueController_issue ::
  "int \<Rightarrow> int \<Rightarrow> bool \<Rightarrow> string \<Rightarrow> int \<Rightarrow> header \<Rightarrow> exn + issue_dto \<Rightarrow> (bstate, exn, response) eff" where
  "CouponIssueController_issue ttl sendTimeoutMs fires requestId now user_header body =
     bnd (argument (UserId user_header)) (\<lambda>userId.
     bnd (argument body) (\<lambda>request.
     bnd (CouponIssueAcceptService_accept ttl sendTimeoutMs fires requestId now userId
            (dto_eventId request) (dto_couponTypeId request)) (\<lambda>result.
     ret (ok_response (toIssueResponse result)))))"

lemma wf_toIssueResponse [simp]: "wf_json (toIssueResponse result)"
  by (simp add: toIssueResponse_def split: option.split)

lemma issue_controller_run:
  assumes "UserId user_header = Inr u" "body = Inr request"
  shows "respond names b_mapDomain (CouponIssueController_issue ttl tmo fires rid now user_header body) (b, fs) =
    (let (q, w) = CouponIssueAcceptService_accept ttl tmo fires rid now u (dto_eventId request) (dto_couponTypeId request) (b, fs)
     in (Inr (case q of Inl e \<Rightarrow> filter_catch names b_mapDomain e | Inr a \<Rightarrow> ok_response (toIssueResponse a)), w))"
  using assms
  by (cases "CouponIssueAcceptService_accept ttl tmo fires rid now u (dto_eventId request) (dto_couponTypeId request) (b, fs)";
      cases "outcome (CouponIssueAcceptService_accept ttl tmo fires rid now u (dto_eventId request) (dto_couponTypeId request) (b, fs))")
    (simp_all add: CouponIssueController_issue_def respond_def try_catch_def bnd_def)

lemma keeps_issue_controller:
  assumes "\<And>rid now u e t. keeps_inv I (CouponIssueAcceptService_accept ttl tmo fires rid now u e t)"
  shows "keeps_inv I (respond names b_mapDomain (CouponIssueController_issue ttl tmo fires rid now user_header body))"
  unfolding respond_def CouponIssueController_issue_def by (intro keeps assms)

end
