(* ===== verification/A_Issue.thy ===== *)
theory A_Issue imports Redis Http begin

text \<open>
  server-a: the sold-out cache it reads, the request log it writes, the HTTP client through which it
  reaches server-b, the service and the controller.  The service is written against what it is
  injected with; the locale \<open>issuing\<close> holds what follows from the contracts of the three.
\<close>

section \<open>The request log\<close>

datatype issue_request_status = LOG_ACCEPTED | LOG_DUPLICATE | LOG_SOLD_OUT | LOG_REJECTED

fun issue_request_wire :: "issue_request_status \<Rightarrow> string" where
  "issue_request_wire LOG_ACCEPTED = ''ACCEPTED''"
| "issue_request_wire LOG_DUPLICATE = ''DUPLICATE''"
| "issue_request_wire LOG_SOLD_OUT = ''SOLD_OUT''"
| "issue_request_wire LOG_REJECTED = ''REJECTED''"

record logged_request =
  ir_id :: "int option"
  ir_requestId :: string
  ir_userId :: int
  ir_eventId :: int
  ir_couponTypeId :: int
  ir_status :: issue_request_status
  ir_createdAt :: int

definition IssueRequest_of :: "string \<Rightarrow> int \<Rightarrow> int \<Rightarrow> int \<Rightarrow> issue_request_status \<Rightarrow> int \<Rightarrow> logged_request" where
  "IssueRequest_of uuid userId eventId couponTypeId status now =
     \<lparr>ir_id = None, ir_requestId = uuid, ir_userId = userId, ir_eventId = eventId,
      ir_couponTypeId = couponTypeId, ir_status = status, ir_createdAt = now\<rparr>"

definition IssueRequest_reconstitute ::
  "int \<Rightarrow> string \<Rightarrow> int \<Rightarrow> int \<Rightarrow> int \<Rightarrow> issue_request_status \<Rightarrow> int \<Rightarrow> logged_request" where
  "IssueRequest_reconstitute i requestId userId eventId couponTypeId status createdAt =
     \<lparr>ir_id = Some i, ir_requestId = requestId, ir_userId = userId, ir_eventId = eventId,
      ir_couponTypeId = couponTypeId, ir_status = status, ir_createdAt = createdAt\<rparr>"

text \<open>The columns of the INSERT, and the row with what the database adds.\<close>

record log_values =
  l_requestId :: string
  l_userId :: string
  l_eventId :: string
  l_couponTypeId :: string
  l_status :: issue_request_status

record log_row = log_values +
  l_id :: string
  l_createdAt :: int

record adb =
  a_rows :: "log_row list"
  a_next :: int
  a_now :: int

definition IssueRequestMapper_toDomain :: "log_row \<Rightarrow> logged_request" where
  "IssueRequestMapper_toDomain row = IssueRequest_reconstitute (js_Number (l_id row)) (l_requestId row)
     (js_Number (l_userId row)) (js_Number (l_eventId row)) (js_Number (l_couponTypeId row)) (l_status row)
     (l_createdAt row)"

definition IssueRequestMapper_toInsertValues :: "logged_request \<Rightarrow> log_values" where
  "IssueRequestMapper_toInsertValues request =
     \<lparr>l_requestId = ir_requestId request, l_userId = dec (ir_userId request), l_eventId = dec (ir_eventId request),
      l_couponTypeId = dec (ir_couponTypeId request), l_status = ir_status request\<rparr>"

definition new_log_row :: "log_values \<Rightarrow> adb \<Rightarrow> log_row" where
  "new_log_row v db = log_values.extend v \<lparr>l_id = dec (a_next db), l_createdAt = a_now db\<rparr>"

text \<open>AUTO_INCREMENT: the INSERT answers with the key it has drawn.\<close>

definition sql_insert_request :: "log_values \<Rightarrow> adb \<Rightarrow> string \<times> adb" where
  "sql_insert_request v db =
     (dec (a_next db), db\<lparr>a_rows := a_rows db @ [new_log_row v db], a_next := a_next db + 1\<rparr>)"

definition IssueRequestRepository_save :: "logged_request \<Rightarrow> (adb, exn, logged_request) eff" where
  "IssueRequestRepository_save request =
     bnd (external mysql_down (sql_insert_request (IssueRequestMapper_toInsertValues request))) (\<lambda>key.
     ret (IssueRequest_reconstitute (js_Number key) (ir_requestId request) (ir_userId request)
       (ir_eventId request) (ir_couponTypeId request) (ir_status request) (ir_createdAt request)))"

section \<open>The sold-out cache\<close>

definition a_couponAvailable :: "int \<Rightarrow> int \<Rightarrow> string" where
  "a_couponAvailable eventId couponTypeId = ''coupon:available:'' @ dec eventId @ '':'' @ dec couponTypeId"

definition CouponAvailabilityCache_isSoldOut :: "int \<Rightarrow> int \<Rightarrow> (redis, exn, bool) eff" where
  "CouponAvailabilityCache_isSoldOut eventId couponTypeId = try_catch
     (bnd (redis_exists (a_couponAvailable eventId couponTypeId)) (\<lambda>exists. ret (exists = 1)))
     (\<lambda>e. ret False)"

section \<open>The client of server-b\<close>

text \<open>
  What server-b answers is read as it comes: \<open>status\<close> is whatever value the body has there.
\<close>

record downstream =
  ds_requestId :: json
  ds_status :: json
  ds_message :: json

record timed_result =
  tr_elapsedMs :: int
  tr_result :: downstream

definition json_or_null :: "json option \<Rightarrow> json" where
  "json_or_null v = (case v of None \<Rightarrow> JNull | Some x \<Rightarrow> x)"

definition string_or_null :: "string option \<Rightarrow> json" where
  "string_or_null v = (case v of None \<Rightarrow> JNull | Some s \<Rightarrow> JStr s)"

definition downstream_of :: "acceptance \<Rightarrow> downstream" where
  "downstream_of a = \<lparr>ds_requestId = string_or_null (ac_requestId a),
     ds_status = JStr (acceptance_wire (ac_status a)), ds_message = string_or_null (ac_message a)\<rparr>"

text \<open>\<open>post\<close> is the request to \<open>/internal/v1/coupons/issue\<close>: the value of the header and the body.\<close>

definition client_call ::
  "(string \<Rightarrow> json \<Rightarrow> ('s, exn, json) eff) \<Rightarrow> int \<Rightarrow> int \<Rightarrow> int \<Rightarrow> int \<Rightarrow> ('s, exn, timed_result) eff" where
  "client_call post elapsedMs userId eventId couponTypeId =
     bnd (post (dec userId) (JObj [(''eventId'', JNum eventId), (''couponTypeId'', JNum couponTypeId)])) (\<lambda>body.
     if nullish (jprop ''status'' body)
     then ret \<lparr>tr_elapsedMs = elapsedMs, tr_result = downstream_of (acceptance_internalError ''empty-response'')\<rparr>
     else ret \<lparr>tr_elapsedMs = elapsedMs, tr_result =
       \<lparr>ds_requestId = json_or_null (jprop ''requestId'' body), ds_status = json_or_null (jprop ''status'' body),
        ds_message = json_or_null (jprop ''message'' body)\<rparr>\<rparr>)"

text \<open>\<open>class_name\<close>: \<open>error.constructor.name\<close>.\<close>

definition client_fallback :: "(exn \<Rightarrow> string) \<Rightarrow> exn \<Rightarrow> downstream" where
  "client_fallback class_name e = downstream_of (acceptance_internalError (case e of
      BrokenCircuitError \<Rightarrow> ''circuit-open''
    | ResponseError status \<Rightarrow> ''server-b-status:'' @ dec status
    | _ \<Rightarrow> ''downstream-error:'' @ class_name e))"

text \<open>\<open>policy\<close> is the composition of circuit breaker and retry that cockatiel builds.\<close>

definition HttpCouponIssuingClient_issue ::
  "(exn \<Rightarrow> string) \<Rightarrow> (('s, exn, timed_result) eff \<Rightarrow> ('s, exn, timed_result) eff) \<Rightarrow>
   (string \<Rightarrow> json \<Rightarrow> ('s, exn, json) eff) \<Rightarrow> int \<Rightarrow> int \<Rightarrow> int \<Rightarrow> int \<Rightarrow> ('s, exn, downstream) eff" where
  "HttpCouponIssuingClient_issue class_name policy post elapsedMs userId eventId couponTypeId = try_catch
     (bnd (policy (client_call post elapsedMs userId eventId couponTypeId)) (\<lambda>timed. ret (tr_result timed)))
     (\<lambda>e. ret (client_fallback class_name e))"

section \<open>The service\<close>

record issue_command =
  ic_userId :: int
  ic_eventId :: int
  ic_couponTypeId :: int

record issue_outcome =
  io_issueRequest :: logged_request
  io_downstreamStatus :: json
  io_message :: json

definition isDownstreamUnavailable :: "issue_outcome \<Rightarrow> bool" where
  "isDownstreamUnavailable out \<longleftrightarrow> io_downstreamStatus out = JStr ''INTERNAL_ERROR''"

definition a_mapStatus :: "json \<Rightarrow> exn + issue_request_status" where
  "a_mapStatus status =
     (if status = JStr ''ACCEPTED'' then Inr LOG_ACCEPTED
      else if status = JStr ''DUPLICATE'' then Inr LOG_DUPLICATE
      else if status = JStr ''SOLD_OUT'' then Inr LOG_SOLD_OUT
      else if status = JStr ''INTERNAL_ERROR'' then Inr LOG_REJECTED
      else Inl (Plain_Error (''unknown acceptance status: '' @ show_jprop (Some status))))"

definition save_request ::
  "(logged_request \<Rightarrow> ('s, exn, logged_request) eff) \<Rightarrow> string \<Rightarrow> int \<Rightarrow> issue_command \<Rightarrow> issue_request_status \<Rightarrow>
   ('s, exn, logged_request) eff" where
  "save_request save uuid now command status =
     save (IssueRequest_of uuid (ic_userId command) (ic_eventId command) (ic_couponTypeId command) status now)"

definition IssueRequestService_issue ::
  "(int \<Rightarrow> int \<Rightarrow> ('s, exn, bool) eff) \<Rightarrow> (int \<Rightarrow> int \<Rightarrow> int \<Rightarrow> ('s, exn, downstream) eff) \<Rightarrow>
   (logged_request \<Rightarrow> ('s, exn, logged_request) eff) \<Rightarrow> string \<Rightarrow> int \<Rightarrow> issue_command \<Rightarrow>
   ('s, exn, issue_outcome) eff" where
  "IssueRequestService_issue isSoldOut client save uuid now command =
     bnd (isSoldOut (ic_eventId command) (ic_couponTypeId command)) (\<lambda>soldOut.
     if soldOut
     then bnd (save_request save uuid now command LOG_SOLD_OUT) (\<lambda>request.
       ret \<lparr>io_issueRequest = request, io_downstreamStatus = JStr ''SOLD_OUT'', io_message = JStr ''coupon sold out''\<rparr>)
     else
       bnd (client (ic_userId command) (ic_eventId command) (ic_couponTypeId command)) (\<lambda>result.
       bnd (argument (a_mapStatus (ds_status result))) (\<lambda>status.
       bnd (save_request save uuid now command status) (\<lambda>request.
       ret \<lparr>io_issueRequest = request, io_downstreamStatus = ds_status result, io_message = ds_message result\<rparr>))))"

section \<open>The controller\<close>

definition toIssueCouponView :: "issue_outcome \<Rightarrow> json" where
  "toIssueCouponView out = JObj (
     [(''requestId'', JStr (ir_requestId (io_issueRequest out))), (''status'', io_downstreamStatus out)] @
     (if io_message out = JNull then [] else [(''message'', io_message out)]))"

text \<open>The two fields of the body that are read, after the validation pipe has accepted it.\<close>

record coupon_dto =
  cd_eventId :: int
  cd_couponTypeId :: int

definition IssueRequestController_issue ::
  "(issue_command \<Rightarrow> ('s, exn, issue_outcome) eff) \<Rightarrow> header \<Rightarrow> exn + coupon_dto \<Rightarrow> ('s, exn, response) eff" where
  "IssueRequestController_issue service user_header body =
     bnd (argument (UserId user_header)) (\<lambda>userId.
     bnd (argument body) (\<lambda>request.
     bnd (service \<lparr>ic_userId = userId, ic_eventId = cd_eventId request, ic_couponTypeId = cd_couponTypeId request\<rparr>) (\<lambda>out.
     ret (if isDownstreamUnavailable out
          then \<lparr>rp_status = 503, rp_headers = [(''Retry-After'', ''5'')], rp_body = ApiResponses_success (toIssueCouponView out)\<rparr>
          else \<lparr>rp_status = 200, rp_headers = [], rp_body = ApiResponses_success (toIssueCouponView out)\<rparr>))))"

end
