(* ===== verification/A_Service.thy ===== *)
theory A_Service imports A_Issue begin

text \<open>
  What follows for the service of server-a from the contracts of the three things it is injected
  with: a sold-out check and a client that never throw and leave the log alone, and a repository
  that appends the row it is given.
\<close>

text \<open>The row tells the request.\<close>

definition tells :: "log_row \<Rightarrow> logged_request \<Rightarrow> bool" where
  "tells row request \<longleftrightarrow> l_requestId row = ir_requestId request \<and> l_userId row = dec (ir_userId request) \<and>
     l_eventId row = dec (ir_eventId request) \<and> l_couponTypeId row = dec (ir_couponTypeId request) \<and>
     l_status row = ir_status request"

lemma tells_new_row: "tells (new_log_row (IssueRequestMapper_toInsertValues request) db) request"
  by (simp add: tells_def new_log_row_def IssueRequestMapper_toInsertValues_def log_values.defs)

lemma log_roundtrip:
  "IssueRequestMapper_toDomain (new_log_row (IssueRequestMapper_toInsertValues request) db) =
   request\<lparr>ir_id := Some (a_next db), ir_createdAt := a_now db\<rparr>"
  by (simp add: IssueRequestMapper_toDomain_def IssueRequest_reconstitute_def new_log_row_def
      IssueRequestMapper_toInsertValues_def log_values.defs)

lemma save_cases:
  "(\<exists>x fs'. IssueRequestRepository_save request (db, fs) = (Inr x,
      snd (sql_insert_request (IssueRequestMapper_toInsertValues request) db), fs') \<and>
      ir_requestId x = ir_requestId request \<and> ir_status x = ir_status request) \<or>
   (\<exists>db' fs'. IssueRequestRepository_save request (db, fs) = (Inl mysql_down, db', fs') \<and>
      db' \<in> {db, snd (sql_insert_request (IssueRequestMapper_toInsertValues request) db)})"
  by (cases rule: external_cases [where e = mysql_down and s = db and fs = fs and
        f = "sql_insert_request (IssueRequestMapper_toInsertValues request)"])
    (simp_all add: IssueRequestRepository_save_def bnd_def IssueRequest_reconstitute_def)

section \<open>The contracts\<close>

text \<open>What one call leaves in the log.\<close>

definition logged :: "('s \<Rightarrow> log_row list) \<Rightarrow> issue_command \<Rightarrow> string \<Rightarrow> issue_request_status \<Rightarrow> 's \<Rightarrow> 's \<Rightarrow> bool" where
  "logged log command uuid status s s' \<longleftrightarrow> (\<exists>row. log s' = log s @ [row] \<and> l_requestId row = uuid \<and>
     l_userId row = dec (ic_userId command) \<and> l_eventId row = dec (ic_eventId command) \<and>
     l_couponTypeId row = dec (ic_couponTypeId command) \<and> l_status row = status)"


locale issuing =
  fixes isSoldOut :: "int \<Rightarrow> int \<Rightarrow> ('s, exn, bool) eff"
    and client :: "int \<Rightarrow> int \<Rightarrow> int \<Rightarrow> ('s, exn, downstream) eff"
    and save :: "logged_request \<Rightarrow> ('s, exn, logged_request) eff"
    and log :: "'s \<Rightarrow> log_row list"
  assumes sold_never: "\<exists>b. outcome (isSoldOut e t w) = Inr b"
    and client_never: "\<exists>d. outcome (client u e t w) = Inr d"
    and keeps_log: "keeps_inv (\<lambda>s. log s = x) (isSoldOut e t)" "keeps_inv (\<lambda>s. log s = x) (client u e t)"
    and save_Inr: "save request (s, fs) = (Inr saved, s', fs') \<Longrightarrow>
      ir_requestId saved = ir_requestId request \<and> (\<exists>row. log s' = log s @ [row] \<and> tells row request)"
    and save_Inl: "save request (s, fs) = (Inl failure, s', fs') \<Longrightarrow>
      failure = mysql_down \<and> (log s' = log s \<or> (\<exists>row. log s' = log s @ [row] \<and> tells row request))"
begin

lemma save_request_cases:
  assumes "save_request save uuid now command status (s, fs) = (q, s', fs')"
  shows "(\<exists>x. q = Inr x \<and> ir_requestId x = uuid \<and> logged log command uuid status s s') \<or>
    (q = Inl mysql_down \<and> (log s' = log s \<or> logged log command uuid status s s'))"
proof -
  let ?r = "IssueRequest_of uuid (ic_userId command) (ic_eventId command) (ic_couponTypeId command) status now"
  have w: "save ?r (s, fs) = (q, s', fs')" using assms by (simp add: save_request_def)
  have t: "tells row ?r \<Longrightarrow> log s' = log s @ [row] \<Longrightarrow> logged log command uuid status s s'" for row
    by (auto simp: logged_def tells_def IssueRequest_of_def)
  show ?thesis
  proof (cases q)
    case (Inl e)
    from save_Inl [OF w [unfolded Inl]] t Inl show ?thesis by blast
  next
    case (Inr x)
    from save_Inr [OF w [unfolded Inr]] t Inr show ?thesis by (auto simp: IssueRequest_of_def)
  qed
qed

text \<open>A call ends in one of three ways: an outcome that is logged, a failed INSERT, or a status of
  server-b that is unknown.\<close>

lemma issue_cases:
  assumes "IssueRequestService_issue isSoldOut client save uuid now command (s, fs) = (q, s', fs')"
  obtains (answered) out status where "q = Inr out" "ir_requestId (io_issueRequest out) = uuid"
      "a_mapStatus (io_downstreamStatus out) = Inr status" "logged log command uuid status s s'"
  | (insert_failed) status where "q = Inl mysql_down" "log s' = log s \<or> logged log command uuid status s s'"
  | (unknown_status) status e where "q = Inl e" "a_mapStatus status = Inl e" "log s' = log s"
proof -
  let ?e = "ic_eventId command" and ?t = "ic_couponTypeId command"
  obtain b s1 f1 where sold: "isSoldOut ?e ?t (s, fs) = (Inr b, s1, f1)"
    using sold_never [of ?e ?t "(s, fs)"] by (cases "isSoldOut ?e ?t (s, fs)") auto
  have log1: "log s1 = log s" using keeps_invD [OF keeps_log(1), of s "log s" ?e ?t fs] sold by simp
  have from_log: "logged log command uuid status s s'" if "logged log command uuid status s0 s'" "log s0 = log s" for status s0
    using that by (simp add: logged_def)
  show thesis
  proof (cases b)
    case True
    obtain p s2 f2 where p: "save_request save uuid now command LOG_SOLD_OUT (s1, f1) = (p, s2, f2)"
      by (cases "save_request save uuid now command LOG_SOLD_OUT (s1, f1)")
    from assms True sold p have q: "s2 = s'" "q = (case p of Inl e \<Rightarrow> Inl e | Inr request \<Rightarrow> Inr
        \<lparr>io_issueRequest = request, io_downstreamStatus = JStr ''SOLD_OUT'', io_message = JStr ''coupon sold out''\<rparr>)"
      by (auto simp: IssueRequestService_issue_def bnd_def split: sum.splits)
    from save_request_cases [OF p] q log1 show thesis
      by (auto simp: a_mapStatus_def logged_def intro: answered insert_failed)
  next
    case False
    let ?c = "client (ic_userId command) ?e ?t (s1, f1)"
    obtain d s2 f2 where c: "?c = (Inr d, s2, f2)"
      using client_never [of "ic_userId command" ?e ?t "(s1, f1)"] by (cases ?c) auto
    have log2: "log s2 = log s"
      using keeps_invD [OF keeps_log(2), of s1 "log s" "ic_userId command" ?e ?t f1] c log1 by simp
    show thesis
    proof (cases "a_mapStatus (ds_status d)")
      case (Inl e)
      with assms False sold c have "q = Inl e" "s' = s2"
        by (auto simp: IssueRequestService_issue_def bnd_def)
      with Inl log2 show thesis by (auto intro: unknown_status)
    next
      case (Inr status)
      obtain p s3 f3 where p: "save_request save uuid now command status (s2, f2) = (p, s3, f3)"
        by (cases "save_request save uuid now command status (s2, f2)")
      from assms False sold c Inr p have q: "s3 = s'" "q = (case p of Inl e \<Rightarrow> Inl e | Inr request \<Rightarrow> Inr
          \<lparr>io_issueRequest = request, io_downstreamStatus = ds_status d, io_message = ds_message d\<rparr>)"
        by (auto simp: IssueRequestService_issue_def bnd_def split: sum.splits)
      from save_request_cases [OF p] q log2 Inr show thesis
        by (auto simp: logged_def intro: answered insert_failed)
    qed
  qed
qed

text \<open>A hit of the cache ends the call: the client is not asked.\<close>

lemma issue_sold_out:
  assumes "isSoldOut (ic_eventId command) (ic_couponTypeId command) (s, fs) = (Inr True, s1, f1)"
  shows "IssueRequestService_issue isSoldOut client save uuid now command (s, fs) =
    bnd (save_request save uuid now command LOG_SOLD_OUT) (\<lambda>request. ret
      \<lparr>io_issueRequest = request, io_downstreamStatus = JStr ''SOLD_OUT'', io_message = JStr ''coupon sold out''\<rparr>) (s1, f1)"
  using assms by (simp add: IssueRequestService_issue_def bnd_def)

end

section \<open>What the client answers\<close>

lemma client_never_throws: "\<exists>d. outcome (HttpCouponIssuingClient_issue class_name policy post ms u e t w) = Inr d"
  unfolding HttpCouponIssuingClient_issue_def
  by (cases w; cases "bnd (policy (client_call post ms u e t)) (\<lambda>timed. ret (tr_result timed)) w";
      cases "outcome (bnd (policy (client_call post ms u e t)) (\<lambda>timed. ret (tr_result timed)) w)")
    (auto simp: try_catch_def)

lemma soldOut_nil:
  "CouponAvailabilityCache_isSoldOut e t (r, []) = (Inr (live_string r (a_couponAvailable e t) \<noteq> None), r, [])"
  by (simp add: CouponAvailabilityCache_isSoldOut_def redis_exists_def try_catch_def)

lemma soldOut_cases:
  obtains b fs' where "CouponAvailabilityCache_isSoldOut e t (r, fs) = (Inr b, r, fs')"
    "b \<Longrightarrow> live_string r (a_couponAvailable e t) \<noteq> None"
  by (cases fs; cases "hd fs"; cases "live_string r (a_couponAvailable e t)";
      simp add: CouponAvailabilityCache_isSoldOut_def redis_exists_def try_catch_def bnd_def; blast)

text \<open>
  What cockatiel documents of \<open>wrap(circuitBreaker, retry)\<close> with one retry: an open circuit rejects
  without calling; a closed one calls, and calls once more if the first call throws.
\<close>

definition breaker_and_retry :: "(('s, exn, timed_result) eff \<Rightarrow> ('s, exn, timed_result) eff) \<Rightarrow> bool" where
  "breaker_and_retry policy \<longleftrightarrow> (\<forall>m s fs. policy m (s, fs) \<in>
     {(Inl BrokenCircuitError, s, fs), try_catch m (\<lambda>e. m) (s, fs)})"

lemma keeps_policy:
  assumes "breaker_and_retry policy" "keeps_inv I m"
  shows "keeps_inv I (policy m)"
proof (rule keeps_invI)
  fix s fs assume "I s"
  moreover have "keeps_inv I (try_catch m (\<lambda>e. m))" by (intro keeps assms(2))
  moreover from assms(1) have "policy m (s, fs) \<in> {(Inl BrokenCircuitError, s, fs), try_catch m (\<lambda>e. m) (s, fs)}"
    by (simp add: breaker_and_retry_def)
  ultimately show "I (final (policy m (s, fs)))" by (auto dest: keeps_invD)
qed

lemma keeps_client:
  assumes "breaker_and_retry policy" "\<And>user body. keeps_inv I (post user body)"
  shows "keeps_inv I (HttpCouponIssuingClient_issue class_name policy post ms u e t)"
  unfolding HttpCouponIssuingClient_issue_def client_call_def
  by (intro keeps keeps_policy [OF assms(1)] assms(2))

end
