(* ===== verification/System.thy ===== *)
theory System imports C_Truth C_Api B_Api A_Service begin

text \<open>
  The three services together.  The wires are the ones of the deployment: server-a reads the sold-out
  entries server-c writes and calls server-b over HTTP, the request topic leads from server-b to
  server-c, the result topic back, and the scheduler of server-b calls server-c over HTTP.  One
  message or call is one step, under any faults; topics are replayed in any order and any number of
  times.  Redis is one instance; the keys of server-b and of server-c are disjoint, so each keeps its
  own part.
\<close>

section \<open>Wiring\<close>

record sys =
  s_log :: adb
  s_b :: bstate
  s_c :: cstate

definition on_b :: "(bstate, exn, 'a) eff \<Rightarrow> (sys, exn, 'a) eff" where
  "on_b = zoom s_b (\<lambda>b s. s\<lparr>s_b := b\<rparr>)"

definition on_log :: "(adb, exn, 'a) eff \<Rightarrow> (sys, exn, 'a) eff" where
  "on_log = zoom s_log (\<lambda>d s. s\<lparr>s_log := d\<rparr>)"

definition on_sold_out_cache :: "(redis, exn, 'a) eff \<Rightarrow> (sys, exn, 'a) eff" where
  "on_sold_out_cache = zoom (\<lambda>s. c_redis (s_c s)) (\<lambda>r s. s\<lparr>s_c := (s_c s)\<lparr>c_redis := r\<rparr>\<rparr>)"

text \<open>The surroundings of one issue request: identifiers, clocks, timers and the library parameters.\<close>

record surroundings =
  sr_names :: "int \<Rightarrow> string option"
  sr_validate :: "json \<Rightarrow> exn + issue_dto"
  sr_policy :: "(sys, exn, timed_result) eff \<Rightarrow> (sys, exn, timed_result) eff"
  sr_class :: "exn \<Rightarrow> string"
  sr_elapsed :: int
  sr_uuid :: string
  sr_now :: int
  sr_b_uuid :: "bstate \<Rightarrow> string"
  sr_b_now :: "bstate \<Rightarrow> int"
  sr_b_fires :: bool
  sr_b_timeout :: int

definition post_issue :: "int \<Rightarrow> surroundings \<Rightarrow> string \<Rightarrow> json \<Rightarrow> (sys, exn, json) eff" where
  "post_issue ttl sr user body = bnd (gets s_b) (\<lambda>b. over_http (on_b
     (respond (sr_names sr) b_mapDomain (CouponIssueController_issue ttl (sr_b_timeout sr) (sr_b_fires sr)
        (sr_b_uuid sr b) (sr_b_now sr b) (One_Header user) (sr_validate sr body)))))"

definition a_isSoldOut :: "int \<Rightarrow> int \<Rightarrow> (sys, exn, bool) eff" where
  "a_isSoldOut e t = on_sold_out_cache (CouponAvailabilityCache_isSoldOut e t)"

definition a_client :: "int \<Rightarrow> surroundings \<Rightarrow> int \<Rightarrow> int \<Rightarrow> int \<Rightarrow> (sys, exn, downstream) eff" where
  "a_client ttl sr = HttpCouponIssuingClient_issue (sr_class sr) (sr_policy sr) (post_issue ttl sr) (sr_elapsed sr)"

definition a_save :: "logged_request \<Rightarrow> (sys, exn, logged_request) eff" where
  "a_save request = on_log (IssueRequestRepository_save request)"

definition a_issue :: "int \<Rightarrow> surroundings \<Rightarrow> issue_command \<Rightarrow> (sys, exn, issue_outcome) eff" where
  "a_issue ttl sr = IssueRequestService_issue a_isSoldOut (a_client ttl sr) a_save (sr_uuid sr) (sr_now sr)"

definition a_endpoint :: "int \<Rightarrow> surroundings \<Rightarrow> header \<Rightarrow> exn + coupon_dto \<Rightarrow> (sys, exn, response) eff" where
  "a_endpoint ttl sr user_header body =
     respond (sr_names sr) a_mapDomain (IssueRequestController_issue (a_issue ttl sr) user_header body)"

text \<open>
  What the scheduler of server-b gets from server-c: the answer of the internal endpoint, the 404 of an
  unknown route, or nothing (\<open>lost\<close>).
\<close>

definition c_lookup ::
  "(int \<Rightarrow> string option) \<Rightarrow> cstate \<Rightarrow> (string \<Rightarrow> bool) \<Rightarrow> (string \<Rightarrow> fault list) \<Rightarrow> string \<Rightarrow> http_reply" where
  "c_lookup names c lost fss path =
     (if lost path then Http_No_Response
      else case internal_params path of
        None \<Rightarrow> reply_of (Inr (filter_catch names c_mapDomain
          (HttpException 404 (Body_Object (One_Message (''Cannot GET '' @ path))) ''Not Found'')))
      | Some (user_param, type_param) \<Rightarrow> reply_of (outcome
          (respond names c_mapDomain (UserCouponInternalController_findOne user_param type_param) (c_db c, fss path))))"

section \<open>Steps\<close>

inductive sys_step :: "(string \<Rightarrow> string) \<Rightarrow> int \<Rightarrow> sys \<Rightarrow> sys \<Rightarrow> bool" for ck :: "string \<Rightarrow> string" and ttl :: int where
  issue_call: "breaker_and_retry (sr_policy sr) \<Longrightarrow>
    sys_step ck ttl s (final (a_endpoint ttl sr user_header body (s, fs)))"
| scheduler_tick: "cf_ttl cf = ttl \<Longrightarrow> cy_server cy = c_lookup names (s_c s) lost fss \<Longrightarrow>
    sys_step ck ttl s (s\<lparr>s_b := final (PendingIssueScheduler_run cf cy (s_b s, fs))\<rparr>)"
| deliver_request: "(k, v) \<in> set (b_topic (s_b s)) \<Longrightarrow> \<forall>i. valid_rnd (rnd i) \<Longrightarrow>
    sys_step ck ttl s (s\<lparr>s_c := final (request_deliver ck sold_out_ttl n clock rnd (Some v) (s_c s, fs))\<rparr>)"
| deliver_result: "(k, v) \<in> set (c_topic (s_c s)) \<Longrightarrow>
    sys_step ck ttl s (s\<lparr>s_b := final (result_deliver ttl n (Some v) (s_b s, fs))\<rparr>)"
| redeem_call: "sys_step ck ttl s (s\<lparr>s_c := final (on_db
    (respond names c_mapDomain (RedeemCouponController_redeem ck now code user_header)) (s_c s, fs))\<rparr>)"
| poll_tick: "sys_step ck ttl s (s\<lparr>s_c := final (poll batchSize now (s_c s, fs))\<rparr>)"
| refresh_tick: "sys_step ck ttl s (s\<lparr>s_c := final (refreshActiveEvents event_ttl (s_c s, fs))\<rparr>)"
| event_call: "sys_step ck ttl s (s\<lparr>s_c := final
    (respond names c_mapDomain (EventQueryController_findOne event_ttl event_param) (s_c s, fs))\<rparr>)"
| restart_b: "sys_step ck ttl s (s\<lparr>s_b := final (b_restart (s_b s, fs))\<rparr>)"
| restart_c: "sys_step ck ttl s (s\<lparr>s_c := final (c_restart (s_c s, fs))\<rparr>)"
| time_passes: "r_now (b_redis (s_b s)) \<le> t' \<Longrightarrow> sys_step ck ttl s
    (s\<lparr>s_b := (s_b s)\<lparr>b_redis := (b_redis (s_b s))\<lparr>r_now := t'\<rparr>\<rparr>,
       s_c := (s_c s)\<lparr>c_db := (c_db (s_c s))\<lparr>d_now := t\<rparr>, c_redis := (c_redis (s_c s))\<lparr>r_now := t'\<rparr>\<rparr>\<rparr>)"

definition sys_start :: "sys \<Rightarrow> bool" where
  "sys_start s \<longleftrightarrow> b_opened (s_b s) \<and> fresh_c (s_c s)"

definition sys_reachable :: "(string \<Rightarrow> string) \<Rightarrow> int \<Rightarrow> sys \<Rightarrow> sys \<Rightarrow> bool" where
  "sys_reachable ck ttl s0 s \<longleftrightarrow> 0 < ttl \<and> sys_start s0 \<and> (sys_step ck ttl)\<^sup>*\<^sup>* s0 s"

section \<open>The invariant\<close>

text \<open>The two final answers of server-b that must rest on a result of server-c.\<close>

definition tells_true :: "cdb \<Rightarrow> string \<Rightarrow> int \<Rightarrow> int \<Rightarrow> bool" where
  "tells_true d st u t \<longleftrightarrow>
     (st = ''SUCCESS'' \<longrightarrow> (\<exists>r \<in> set (d_user_coupons d). same_user_type (dec u) (dec t) r \<and> u_status r \<in> {UC_SUCCESS, UC_USED})) \<and>
     (st = ''SOLD_OUT'' \<longrightarrow> (\<exists>r \<in> set (d_user_coupons d). same_user_type (dec u) (dec t) r \<and> u_status r = UC_SOLD_OUT))"

definition requested :: "bstate \<Rightarrow> cdb \<Rightarrow> bool" where
  "requested b d \<longleftrightarrow> (\<forall>r \<in> set (d_user_coupons d). \<exists>(k, v) \<in> set (b_topic b). \<exists>p.
     parse_request (Some v) = Some p \<and> k = dec (rq_userId p) \<and> asked_by p r)"

definition sys_inv :: "(string \<Rightarrow> string) \<Rightarrow> sys \<Rightarrow> bool" where
  "sys_inv ck s \<longleftrightarrow> truthful ck (s_c s) \<and> b_inv (s_b s) \<and> requested (s_b s) (c_db (s_c s)) \<and>
     status_ok (tells_true (c_db (s_c s))) (b_redis (s_b s))"

lemma tellable_tells_true: "tellable (tells_true d)"
  by (simp add: tellable_def tells_true_def)

lemma tells_true_evolves:
  assumes "evolves P d d'" "tells_true d st u t"
  shows "tells_true d' st u t"
proof -
  have "\<exists>r' \<in> set (d_user_coupons d'). same_user_type (dec u) (dec t) r' \<and>
      (u_status r \<in> {UC_SUCCESS, UC_USED} \<longrightarrow> u_status r' \<in> {UC_SUCCESS, UC_USED}) \<and>
      (u_status r = UC_SOLD_OUT \<longrightarrow> u_status r' = UC_SOLD_OUT)"
    if r: "r \<in> set (d_user_coupons d)" "same_user_type (dec u) (dec t) r" for r
  proof -
    from evolvesD(1) [OF assms(1) r(1)] obtain r' where "r' \<in> set (d_user_coupons d')" "became r r'" by blast
    with r(2) show ?thesis by (intro bexI [of _ r']) (auto simp: became_def same_user_type_def)
  qed
  with assms(2) show ?thesis unfolding tells_true_def by blast
qed

lemma requested_evolves:
  assumes "evolves (\<lambda>p. parse_request (Some v) = Some p) d d'" "(k, v) \<in> set (b_topic b)" "topic_ok b" "requested b d"
  shows "requested b d'"
  unfolding requested_def
proof
  fix r' assume "r' \<in> set (d_user_coupons d')"
  with assms(1) show "\<exists>(k, v) \<in> set (b_topic b). \<exists>p. parse_request (Some v) = Some p \<and> k = dec (rq_userId p) \<and> asked_by p r'"
  proof (cases rule: evolves_new)
    case (old r)
    with assms(4) obtain k v p where "(k, v) \<in> set (b_topic b)" "parse_request (Some v) = Some p"
        "k = dec (rq_userId p)" "asked_by p r"
      by (auto simp: requested_def)
    with asked_by_became [OF _ old(2)] show ?thesis by blast
  next
    case (asked p)
    from assms(2,3) obtain q where "good_request q" "k = dec (rq_userId q)" "v = JSON_stringify (request_json q)"
      by (auto simp: topic_ok_def)
    then have "parse_request (Some v) = Some q" by (simp add: good_request_def parse_request_json)
    with asked assms(2) \<open>k = dec (rq_userId q)\<close> show ?thesis by auto
  qed
qed

lemma requested_none:
  assumes "evolves (\<lambda>p. False) d d'" "requested b d"
  shows "requested b d'"
  unfolding requested_def
proof
  fix r' assume "r' \<in> set (d_user_coupons d')"
  with assms(1) show "\<exists>(k, v) \<in> set (b_topic b). \<exists>p. parse_request (Some v) = Some p \<and> k = dec (rq_userId p) \<and> asked_by p r'"
  proof (cases rule: evolves_new)
    case (old r)
    with assms(2) obtain k v p where "(k, v) \<in> set (b_topic b)" "parse_request (Some v) = Some p"
        "k = dec (rq_userId p)" "asked_by p r"
      by (auto simp: requested_def)
    with asked_by_became [OF _ old(2)] show ?thesis by blast
  qed simp
qed

section \<open>Preservation\<close>

definition b_part :: "cdb \<Rightarrow> bstate \<Rightarrow> bool" where
  "b_part d b \<longleftrightarrow> b_inv b \<and> requested b d \<and> status_ok (tells_true d) (b_redis b)"

lemma sys_inv_parts: "sys_inv ck s \<longleftrightarrow> truthful ck (s_c s) \<and> b_part (c_db (s_c s)) (s_b s)"
  by (auto simp: sys_inv_def b_part_def)

lemma b_part_step:
  assumes "b_part d b" "b_inv b'" "topic_from (set (b_topic b)) b'" "status_ok (tells_true d) (b_redis b')"
  shows "b_part d b'"
  using assms unfolding b_part_def requested_def topic_from_def by blast

lemma topic_from_self: "topic_from (set (b_topic b)) b"
  by (simp add: topic_from_def)

lemma accept_part:
  assumes "0 < ttl"
  shows "keeps_inv (b_part d) (CouponIssueAcceptService_accept ttl tmo fires rid now u e t)"
proof (rule keeps_invI)
  fix b fs assume b: "b_part d b"
  show "b_part d (final (CouponIssueAcceptService_accept ttl tmo fires rid now u e t (b, fs)))"
  proof (rule b_part_step [OF b])
    show "b_inv (final (CouponIssueAcceptService_accept ttl tmo fires rid now u e t (b, fs)))"
      by (rule b_step_inv [OF b_step.accept_call assms]) (use b in \<open>simp add: b_part_def\<close>)
  qed (use b in \<open>auto simp: b_part_def intro: keeps_invD [OF grows_accept] topic_from_self
      keeps_invD [OF status_accept [OF tellable_tells_true]]\<close>)
qed

lemma on_b_apply: "on_b m (s, fs) = (outcome (m (s_b s, fs)), s\<lparr>s_b := final (m (s_b s, fs))\<rparr>, snd (snd (m (s_b s, fs))))"
  by (simp add: on_b_def zoom_def split: prod.split)

lemma keeps_on_b: "(\<And>d. keeps_inv (b_part d) m) \<Longrightarrow> keeps_inv (sys_inv ck) (on_b m)"
  by (simp add: keeps_inv_def on_b_apply sys_inv_parts)

lemma on_cache_apply: "on_sold_out_cache m (s, fs) = (outcome (m (c_redis (s_c s), fs)),
   s\<lparr>s_c := (s_c s)\<lparr>c_redis := final (m (c_redis (s_c s), fs))\<rparr>\<rparr>, snd (snd (m (c_redis (s_c s), fs))))"
  by (simp add: on_sold_out_cache_def zoom_def split: prod.split)

lemma a_isSoldOut_run:
  obtains b fs' where "a_isSoldOut e t (s, fs) = (Inr b, s, fs')"
    "b \<Longrightarrow> live_string (c_redis (s_c s)) (a_couponAvailable e t) \<noteq> None"
  by (rule soldOut_cases [of e t "c_redis (s_c s)" fs]) (simp add: a_isSoldOut_def on_cache_apply)

lemma keeps_isSoldOut: "keeps_inv I (a_isSoldOut e t)"
proof (rule keeps_invI)
  fix s fs assume "I s"
  then show "I (final (a_isSoldOut e t (s, fs)))"
    by (cases rule: a_isSoldOut_run [of e t s fs]) simp
qed

lemma keeps_on_log: "(\<And>s d. I s \<Longrightarrow> I (s\<lparr>s_log := d\<rparr>)) \<Longrightarrow> keeps_inv I (on_log m)"
  by (simp add: keeps_inv_def on_log_def zoom_def split: prod.split)

lemma sys_inv_log [simp]: "sys_inv ck (s\<lparr>s_log := d\<rparr>) = sys_inv ck s"
  by (simp add: sys_inv_def)

lemma a_endpoint_inv:
  assumes "0 < ttl" "breaker_and_retry (sr_policy sr)"
  shows "keeps_inv (sys_inv ck) (a_endpoint ttl sr user_header body)"
proof -
  have "keeps_inv (sys_inv ck) (post_issue ttl sr user x)" for user x
    unfolding post_issue_def by (intro keeps keeps_on_b keeps_issue_controller accept_part assms(1))
  then have "keeps_inv (sys_inv ck) (a_client ttl sr u e t)" for u e t
    unfolding a_client_def by (intro keeps_client assms(2))
  moreover have "keeps_inv (sys_inv ck) (a_save request)" for request
    unfolding a_save_def by (rule keeps_on_log) simp
  ultimately show ?thesis
    unfolding a_endpoint_def respond_def IssueRequestController_issue_def a_issue_def IssueRequestService_issue_def save_request_def
    by (intro keeps keeps_isSoldOut)
qed

section \<open>server-a keeps the contracts of its service\<close>

text \<open>A policy that is not the documented one is replaced, so that the contract holds for all.\<close>

definition documented :: "((sys, exn, timed_result) eff \<Rightarrow> (sys, exn, timed_result) eff) \<Rightarrow>
    (sys, exn, timed_result) eff \<Rightarrow> (sys, exn, timed_result) eff" where
  "documented policy = (if breaker_and_retry policy then policy else (\<lambda>m. try_catch m (\<lambda>e. m)))"

lemma documented_ok: "breaker_and_retry (documented policy)"
  by (simp add: documented_def breaker_and_retry_def)

lemma documented_same: "breaker_and_retry (sr_policy sr) \<Longrightarrow> sr\<lparr>sr_policy := documented (sr_policy sr)\<rparr> = sr"
  by (cases sr) (simp add: documented_def)

definition log_of :: "sys \<Rightarrow> log_row list" where
  "log_of s = a_rows (s_log s)"

lemma keeps_post_log: "keeps_inv (\<lambda>s. log_of s = x) (post_issue ttl sr user body)"
  unfolding post_issue_def by (intro keeps) (simp add: keeps_inv_def on_b_apply log_of_def)

lemma a_save_run: "a_save request (s, fs) = (outcome (IssueRequestRepository_save request (s_log s, fs)),
   s\<lparr>s_log := final (IssueRequestRepository_save request (s_log s, fs))\<rparr>,
   snd (snd (IssueRequestRepository_save request (s_log s, fs))))"
  by (simp add: a_save_def on_log_def zoom_def split: prod.split)

interpretation issue_service: issuing a_isSoldOut "a_client ttl (sr\<lparr>sr_policy := documented (sr_policy sr)\<rparr>)" a_save log_of
  for ttl sr
proof
  fix request s fs saved failure s' fs' e t w u x
  show "\<exists>b. outcome (a_isSoldOut e t w) = Inr b"
    by (cases w) (metis a_isSoldOut_run fst_conv)
  show "\<exists>d. outcome (a_client ttl (sr\<lparr>sr_policy := documented (sr_policy sr)\<rparr>) u e t w) = Inr d"
    unfolding a_client_def by (rule client_never_throws)
  show "keeps_inv (\<lambda>s. log_of s = x) (a_isSoldOut e t)" by (rule keeps_isSoldOut)
  show "keeps_inv (\<lambda>s. log_of s = x) (a_client ttl (sr\<lparr>sr_policy := documented (sr_policy sr)\<rparr>) u e t)"
    unfolding a_client_def by (intro keeps_client keeps_post_log) (simp add: documented_ok)
  let ?v = "IssueRequestMapper_toInsertValues request"
  have new: "a_rows (snd (sql_insert_request ?v db)) = a_rows db @ [new_log_row ?v db]" for db
    by (simp add: sql_insert_request_def)
  show "ir_requestId saved = ir_requestId request \<and> (\<exists>row. log_of s' = log_of s @ [row] \<and> tells row request)"
    if "a_save request (s, fs) = (Inr saved, s', fs')"
    using save_cases [of request "s_log s" fs] that tells_new_row by (auto simp: a_save_run log_of_def new)
  show "failure = mysql_down \<and> (log_of s' = log_of s \<or> (\<exists>row. log_of s' = log_of s @ [row] \<and> tells row request))"
    if "a_save request (s, fs) = (Inl failure, s', fs')"
    using save_cases [of request "s_log s" fs] that tells_new_row by (auto simp: a_save_run log_of_def new)
qed

section \<open>The look-up of server-b\<close>

lemma slash_notin_dec [simp]: "CHR ''/'' \<notin> set (dec n)"
proof -
  have "\<not> is_digit CHR ''/''" by (simp add: is_digit_def)
  then show ?thesis using list_all_nat_dec by (auto simp: dec_def list_all_iff)
qed

lemma internal_params_path: "internal_params (lookup_path u t) = Some (dec u, dec t)"
  by (simp add: internal_params_def lookup_path_def split_on_append split_on_none)

definition found_row :: "int \<Rightarrow> int \<Rightarrow> cdb \<Rightarrow> user_coupon_row option" where
  "found_row u t d = find (same_user_type (dec u) (dec t)) (d_user_coupons d)"

lemma findOne_answers:
  "UserCouponClient_findOne (c_lookup names c lost fss) u t =
    (if lost (lookup_path u t) then Inl (Connection_Error ''http'')
     else if fss (lookup_path u t) = [] \<or> hd (fss (lookup_path u t)) = NoFault
     then Inr (map_option (\<lambda>row. \<lparr>lk_status = Some (user_coupon_wire (u_status row)), lk_code = Some (u_code row)\<rparr>)
            (found_row u t (c_db c)))
     else Inl (ResponseError 500))"
proof (cases "lost (lookup_path u t)")
  case True
  then show ?thesis by (simp add: UserCouponClient_findOne_def c_lookup_def axios_result_def)
next
  case False
  let ?row = "found_row u t (c_db c)"
  have ok: "axios_result (reply_of (Inr (ok_response (ApiResponses_success (toUserCouponInternalView x))))) =
      Inr (ApiResponses_success (toUserCouponInternalView x))" for x
    by (simp add: reply_of_Inr ok_response_def axios_result_def)
  have fail: "axios_result (reply_of (Inr (failure_response (mapped st (ErrorResponses_of code m))))) = Inl (ResponseError st)"
    if "300 \<le> st" for st code m
    using that by (simp add: reply_of_Inr axios_result_def) (simp add: failure_response_def mapped_def)
  have data: "envelope_data (ApiResponses_success (toUserCouponInternalView (UserCouponMapper_toDomain row))) =
      Some \<lparr>lk_status = Some (user_coupon_wire (u_status row)), lk_code = Some (u_code row)\<rparr>" for row
    by (simp add: envelope_data_def ApiResponses_success_def toUserCouponInternalView_def jprop_JObj json_text_def
        UserCouponMapper_toDomain_def)
  show ?thesis
    using False
    by (cases "fss (lookup_path u t)"; cases "hd (fss (lookup_path u t))"; cases ?row)
      (simp_all add: UserCouponClient_findOne_def c_lookup_def internal_params_path internal_answer found_row_def
        ok fail data internalError_def)
qed

lemma lookup_true:
  assumes "UserCouponClient_findOne (c_lookup names c lost fss) u t = Inr (Some r)"
  shows "tells_true (c_db c) (pending_wire (mapStatus (lk_status r))) u t"
proof -
  from assms obtain row where row: "found_row u t (c_db c) = Some row" "lk_status r = Some (user_coupon_wire (u_status row))"
    by (auto simp: findOne_answers split: if_splits)
  then have "row \<in> set (d_user_coupons (c_db c))" "same_user_type (dec u) (dec t) row"
    by (auto simp: found_row_def find_Some_iff)
  then show ?thesis
    unfolding row(2) by (cases "u_status row") (auto simp: tells_true_def mapStatus_def)
qed

lemma result_true:
  assumes "truthful ck c" "(k, v) \<in> set (c_topic c)" "parse_result (Some v) = Some p"
  shows "tells_true (c_db c) (pending_wire (result_mapStatus (rs_status p))) (rs_userId p) (rs_couponTypeId p)"
proof -
  from assms(1,2) obtain o' where "o' \<in> set (d_outbox (c_db c))" "v = o_payload o'"
    by (auto simp: truthful_def topic_told_def message_of_def)
  with assms(1) obtain row where row: "row \<in> set (d_user_coupons (c_db c))" "announces o' row"
    by (auto simp: truthful_def told_def)
  then obtain q where q: "v = JSON_stringify (result_json q)" "dec (rs_userId q) = u_userId row"
      "dec (rs_couponTypeId q) = u_couponTypeId row" "rs_status q = result_status_of (u_status row)"
    using \<open>v = o_payload o'\<close> by (auto simp: announces_def)
  have "p = q"
    using assms(3) by (auto simp: q(1) parse_result_def JSON_parse_stringify split: sum.splits)
  moreover have "same_user_type (dec (rs_userId q)) (dec (rs_couponTypeId q)) row"
    using q(2,3) by (simp add: same_user_type_def)
  ultimately show ?thesis
    using row(1) q(4) by (cases "u_status row") (auto simp: tells_true_def)
qed

section \<open>Every reachable state\<close>

lemma sys_inv_c:
  assumes "sys_inv ck s" "moves ck P (s_c s) c'" "requested (s_b s) (c_db c')"
  shows "sys_inv ck (s\<lparr>s_c := c'\<rparr>)"
proof -
  from assms(2) have ev: "evolves P (c_db (s_c s)) (c_db c')" by (simp add: moves_def)
  from assms(1) have "status_ok (tells_true (c_db c')) (b_redis (s_b s))"
    by (auto simp: sys_inv_def elim: status_mono intro: tells_true_evolves [OF ev])
  with assms show ?thesis by (simp add: sys_inv_def moves_def)
qed

lemma sys_inv_quiet:
  assumes "sys_inv ck s" "moves ck (\<lambda>p. False) (s_c s) c'"
  shows "sys_inv ck (s\<lparr>s_c := c'\<rparr>)"
  using assms by (intro sys_inv_c [OF assms]) (auto simp: moves_def sys_inv_def intro: requested_none)

lemma sys_inv_b:
  assumes "sys_inv ck s" "b_inv b'" "topic_from (set (b_topic (s_b s))) b'"
    and "status_ok (tells_true (c_db (s_c s))) (b_redis b')"
  shows "sys_inv ck (s\<lparr>s_b := b'\<rparr>)"
  using assms b_part_step [OF _ assms(2-4)] by (simp add: sys_inv_parts)

lemma redeem_endpoint_moves:
  assumes "truthful ck c"
  shows "moves ck P c (final (on_db (respond names c_mapDomain (RedeemCouponController_redeem ck now code user_header)) (c, fs)))"
proof -
  have "final (on_db (respond names c_mapDomain (RedeemCouponController_redeem ck now code user_header)) (c, fs)) = c \<or>
    (\<exists>command. final (on_db (respond names c_mapDomain (RedeemCouponController_redeem ck now code user_header)) (c, fs)) =
       final (on_db (redeem ck now command) (c, fs)))"
  proof (cases "UserId user_header")
    case u: (Inr u)
    show ?thesis
    proof (cases "RedeemCommand_new (Some code) u")
      case (Inr command)
      then show ?thesis
        by (intro disjI2 exI [of _ command]) (simp add: on_db_apply redeem_answer [OF u Inr])
    qed (simp add: on_db_apply RedeemCouponController_redeem_def u)
  qed (simp add: on_db_apply RedeemCouponController_redeem_def)
  with redeem_moves [OF assms] moves_refl [OF assms] show ?thesis by metis
qed

lemma event_endpoint_moves:
  assumes "truthful ck c"
  shows "moves ck P c (final (respond names c_mapDomain (EventQueryController_findOne ttl event_param) (c, fs)))"
proof -
  have "final (respond names c_mapDomain (EventQueryController_findOne ttl event_param) (c, fs)) = c \<or>
    (\<exists>e. final (respond names c_mapDomain (EventQueryController_findOne ttl event_param) (c, fs)) =
       final (EventQueryService_findById ttl e (c, fs)))"
  proof (cases "ParseLongPipe_transform (Some ''eventId'') (Some event_param)")
    case (Inr e)
    then show ?thesis
      by (intro disjI2 exI [of _ e]; cases "EventQueryService_findById ttl e (c, fs)";
          cases "outcome (EventQueryService_findById ttl e (c, fs))")
        (simp_all add: EventQueryController_findOne_def respond_final bnd_def)
  qed (simp add: EventQueryController_findOne_def)
  moreover have "moves ck P c (final (EventQueryService_findById ttl e (c, fs)))" for e
    by (rule read_moves [OF assms reads_same_db(2) reads_same_flags(2)])
  ultimately show ?thesis using moves_refl [OF assms] by metis
qed

lemma sys_step_inv:
  assumes "sys_step ck ttl s s'" "0 < ttl" "sys_inv ck s"
  shows "sys_inv ck s'"
proof -
  from assms(3) have tr: "truthful ck (s_c s)" and bi: "b_inv (s_b s)" and rq: "requested (s_b s) (c_db (s_c s))"
    and st: "status_ok (tells_true (c_db (s_c s))) (b_redis (s_b s))"
    by (simp_all add: sys_inv_def)
  note top = topic_from_self [of "s_b s"]
  from assms(1) show ?thesis
  proof cases
    case (issue_call sr user_header body fs)
    with assms(3) show ?thesis by (auto intro: keeps_invD [OF a_endpoint_inv [OF assms(2)]])
  next
    case (scheduler_tick cf cy names lost fss fs)
    show ?thesis
      unfolding scheduler_tick(1)
      by (intro sys_inv_b [OF assms(3)] b_step_inv [OF b_step.scheduler_tick assms(2) bi] scheduler_tick(2)
          keeps_invD [OF grows_run] top keeps_invD [OF status_run] tellable_tells_true st)
        (simp add: scheduler_tick(3) lookup_true)
  next
    case (deliver_request k v rnd sold_out_ttl n clock fs)
    have moves: "moves ck (\<lambda>p. parse_request (Some v) = Some p) (s_c s)
        (final (request_deliver ck sold_out_ttl n clock rnd (Some v) (s_c s, fs)))"
      using deliver_request(3) by (intro deliver_moves [OF tr]) simp
    then have "evolves (\<lambda>p. parse_request (Some v) = Some p) (c_db (s_c s))
        (c_db (final (request_deliver ck sold_out_ttl n clock rnd (Some v) (s_c s, fs))))"
      by (simp add: moves_def)
    moreover note deliver_request(2)
    moreover have "topic_ok (s_b s)" using bi by (simp add: b_inv_def)
    ultimately have "requested (s_b s) (c_db (final (request_deliver ck sold_out_ttl n clock rnd (Some v) (s_c s, fs))))"
      using rq by (rule requested_evolves)
    then show ?thesis
      unfolding deliver_request(1) by (rule sys_inv_c [OF assms(3) moves])
  next
    case (deliver_result k v n fs)
    show ?thesis
      unfolding deliver_result(1)
      by (intro sys_inv_b [OF assms(3)] b_step_inv [OF b_step.deliver_result assms(2) bi]
          keeps_invD [OF grows_deliver] top keeps_invD [OF status_deliver] st result_true [OF tr deliver_result(2)])
  next
    case redeem_call
    show ?thesis unfolding redeem_call by (intro sys_inv_quiet [OF assms(3)] redeem_endpoint_moves [OF tr])
  next
    case poll_tick
    show ?thesis unfolding poll_tick by (intro sys_inv_quiet [OF assms(3)] poll_moves [OF tr])
  next
    case refresh_tick
    show ?thesis
      unfolding refresh_tick
      by (intro sys_inv_quiet [OF assms(3)] read_moves [OF tr reads_same_db(1) reads_same_flags(1)])
  next
    case event_call
    show ?thesis unfolding event_call by (intro sys_inv_quiet [OF assms(3)] event_endpoint_moves [OF tr])
  next
    case (restart_b fs)
    obtain x where x: "final (b_restart (s_b s, fs)) = (s_b s)\<lparr>b_running := False, b_counters := (\<lambda>_. 0), b_connected := x\<rparr>"
      using b_restart_cases(1) by blast
    show ?thesis
      unfolding restart_b
      by (intro sys_inv_b [OF assms(3)] b_step_inv [OF b_step.restarts_b assms(2) bi]) (simp_all add: x topic_from_def st)
  next
    case (restart_c fs)
    show ?thesis unfolding restart_c by (intro sys_inv_quiet [OF assms(3)] restart_moves [OF tr])
  next
    case (time_passes t' t)
    let ?s = "s\<lparr>s_c := (s_c s)\<lparr>c_db := (c_db (s_c s))\<lparr>d_now := t\<rparr>, c_redis := (c_redis (s_c s))\<lparr>r_now := t'\<rparr>\<rparr>\<rparr>"
    have "sys_inv ck ?s" by (intro sys_inv_quiet [OF assms(3)] clock_moves_true [OF tr])
    then have "sys_inv ck (?s\<lparr>s_b := (s_b ?s)\<lparr>b_redis := (b_redis (s_b ?s))\<lparr>r_now := t'\<rparr>\<rparr>\<rparr>)"
    proof (rule sys_inv_b)
      show "b_inv ((s_b ?s)\<lparr>b_redis := (b_redis (s_b ?s))\<lparr>r_now := t'\<rparr>\<rparr>)"
        using b_step_inv [OF b_step.time_passes assms(2) bi] time_passes(2) by simp
      show "status_ok (tells_true (c_db (s_c ?s))) (b_redis ((s_b ?s)\<lparr>b_redis := (b_redis (s_b ?s))\<lparr>r_now := t'\<rparr>\<rparr>))"
        using status_later [OF time_passes(2) st]
        by (auto elim: status_mono simp: tells_true_def)
    qed (simp add: topic_from_def)
    then show ?thesis unfolding time_passes(1) by (cases s) simp
  qed
qed

lemma sys_start_inv: "sys_start s \<Longrightarrow> sys_inv ck s"
  by (simp add: sys_start_def sys_inv_def fresh_truthful opened_b_inv status_opened)
    (simp add: fresh_c_def opened_def requested_def)

lemma sys_reachable_inv:
  assumes "sys_reachable ck ttl s0 s"
  shows "sys_inv ck s"
proof -
  from assms have "(sys_step ck ttl)\<^sup>*\<^sup>* s0 s" "0 < ttl" "sys_start s0" by (simp_all add: sys_reachable_def)
  then show ?thesis by (induction rule: rtranclp_induct) (auto intro: sys_start_inv sys_step_inv)
qed

end
