(* ===== verification/B_Traffic.thy ===== *)
theory B_Traffic imports System begin

text \<open>
  server-b at work on several things at once.  Its accept service, its consumer and its scheduler
  share one Redis, and between any two commands of one the others send theirs; server-c goes on
  working meanwhile.  The methods of the store are cut into their commands.  A worker is one call of
  the accept service, one attempt of the consumer, or one run of the scheduler; several instances of
  server-b are simply more workers.  Every command can fail, before or after its effect.
\<close>

section \<open>The methods as sequences of commands\<close>

datatype redis_command =
    Hset string "(string \<times> string) list"
  | Hincrby string string int
  | Expire string int
  | Zadd string int string
  | Zrem string string

fun send :: "redis_command \<Rightarrow> (redis, exn, unit) eff" where
  "send (Hset k fvs) = redis_hset k fvs"
| "send (Hincrby k f d) = bnd (redis_hincrby k f d) (\<lambda>_. ret ())"
| "send (Expire k ttl) = bnd (redis_expire k ttl) (\<lambda>_. ret ())"
| "send (Zadd z s m) = redis_zadd z s m"
| "send (Zrem z m) = redis_zrem z m"

definition send_all :: "redis_command list \<Rightarrow> (redis, exn, unit) eff" where
  "send_all cs = foreach cs send"

text \<open>What follows a successful \<open>HSETNX\<close>.\<close>

definition save_commands :: "int \<Rightarrow> string \<Rightarrow> int \<Rightarrow> int \<Rightarrow> int \<Rightarrow> int \<Rightarrow> redis_command list" where
  "save_commands ttlSeconds requestId userId eventId couponTypeId createdAtMs =
     [Hset (pendingHash userId couponTypeId)
        [(''requestId'', requestId), (''userId'', dec userId), (''eventId'', dec eventId),
         (''couponTypeId'', dec couponTypeId), (''status'', pending_wire PS_PENDING),
         (''createdAt'', dec createdAtMs), (''publishAttempts'', ''1''),
         (''lastPublishedAt'', dec createdAtMs)],
      Expire (pendingHash userId couponTypeId) ttlSeconds,
      Zadd PENDING_ZSET createdAtMs (pendingZsetMember userId couponTypeId)]"

definition republish_commands :: "int \<Rightarrow> int \<Rightarrow> int \<Rightarrow> int \<Rightarrow> redis_command list" where
  "republish_commands ttlSeconds userId couponTypeId publishedAtMs =
     [Hincrby (pendingHash userId couponTypeId) ''publishAttempts'' 1,
      Hset (pendingHash userId couponTypeId) [(''lastPublishedAt'', dec publishedAtMs)],
      Expire (pendingHash userId couponTypeId) ttlSeconds,
      Zadd PENDING_ZSET publishedAtMs (pendingZsetMember userId couponTypeId)]"

definition mark_commands :: "int \<Rightarrow> int \<Rightarrow> int \<Rightarrow> issue_pending_status \<Rightarrow> string option \<Rightarrow> redis_command list" where
  "mark_commands ttlSeconds userId couponTypeId status code =
     Hset (pendingHash userId couponTypeId) [(''status'', pending_wire status)] #
     (case code of None \<Rightarrow> [] | Some c \<Rightarrow> [Hset (pendingHash userId couponTypeId) [(''code'', c)]]) @
     [Expire (pendingHash userId couponTypeId) ttlSeconds,
      Zrem PENDING_ZSET (pendingZsetMember userId couponTypeId)]"

text \<open>Of a member that is read: the command that removes an orphan, or the item that is kept.\<close>

definition orphan_commands :: "string \<Rightarrow> hash_value option \<Rightarrow> redis_command list" where
  "orphan_commands member found = (case found of None \<Rightarrow> [Zrem PENDING_ZSET member] | Some entries \<Rightarrow> [])"

definition kept_items :: "int \<Rightarrow> int \<Rightarrow> hash_value option \<Rightarrow> pending_issue list" where
  "kept_items userId couponTypeId found = (case found of
      None \<Rightarrow> []
    | Some entries \<Rightarrow> (case pending_of_hash userId couponTypeId entries of None \<Rightarrow> [] | Some p \<Rightarrow> [p]))"

text \<open>What the scheduler does with an answer of server-c, first in Redis and then elsewhere.\<close>

definition answer_commands ::
  "int \<Rightarrow> int \<Rightarrow> int \<Rightarrow> pending_issue \<Rightarrow> lookup_result option \<Rightarrow> redis_command list" where
  "answer_commands ttlSeconds maxPublishAttempts now pending answer =
     (let u = pi_userId pending; t = pi_couponTypeId pending in case answer of
        Some r \<Rightarrow> mark_commands ttlSeconds u t (mapStatus (lk_status r)) (lk_code r)
      | None \<Rightarrow>
          if pi_publishAttempts pending < maxPublishAttempts then republish_commands ttlSeconds u t now
          else mark_commands ttlSeconds u t PS_FAILED None)"

definition afterwards ::
  "(issue_request \<Rightarrow> ('s, exn, unit) eff) \<Rightarrow> (metric \<Rightarrow> ('s, exn, unit) eff) \<Rightarrow> int \<Rightarrow> pending_issue \<Rightarrow>
   lookup_result option \<Rightarrow> ('s, exn, unit) eff" where
  "afterwards pub inc maxPublishAttempts pending answer = (case answer of
      Some r \<Rightarrow> ret ()
    | None \<Rightarrow>
        if pi_publishAttempts pending < maxPublishAttempts
        then bnd (inc REPUBLISH_COUNTER) (\<lambda>_. try_catch (pub
          \<lparr>rq_requestId = pi_requestId pending, rq_userId = pi_userId pending, rq_eventId = pi_eventId pending,
           rq_couponTypeId = pi_couponTypeId pending, rq_requestedAt = toInstantString (pi_createdAt pending)\<rparr>)
          (\<lambda>e. ret ()))
        else inc GIVE_UP_COUNTER)"

text \<open>Sent without anything in between, the commands are the methods, whatever fails.\<close>

lemma bnd_ret_right [simp]: "bnd m ret = m"
  by (rule ext) (simp add: bnd_def ret_def split: prod.split sum.split)

lemma send_all_simps [simp]: "send_all [] = ret ()" "send_all (c # cs) = bnd (send c) (\<lambda>_. send_all cs)"
  by (simp_all add: send_all_def)

lemma markResult_commands: "markResult ttl u t st code = send_all (mark_commands ttl u t st code)"
  by (cases code) (simp_all add: markResult_def mark_commands_def Let_def bnd_assoc)

lemma savePendingIfAbsent_commands:
  "savePendingIfAbsent ttl rid u e t now = bnd (redis_hsetnx (pendingHash u t) ''userId'' (dec u)) (\<lambda>firstField.
     if firstField = 0 then ret False
     else bnd (send_all (save_commands ttl rid u e t now)) (\<lambda>_. ret True))"
  unfolding savePendingIfAbsent_def save_commands_def send_all_simps send.simps Let_def bnd_assoc bnd_ret by (rule refl)

lemma recordRepublish_commands:
  "bnd (recordRepublish ttl u t now) (\<lambda>_. k) = bnd (send_all (republish_commands ttl u t now)) (\<lambda>_. k)"
  by (simp add: recordRepublish_def republish_commands_def Let_def bnd_assoc)

lemma read_members_commands:
  "read_members (m # ms) found = (case member_ids m of
      None \<Rightarrow> read_members ms found
    | Some (u, t) \<Rightarrow> bnd (redis_hgetall (pendingHash u t)) (\<lambda>h.
        bnd (send_all (orphan_commands m h)) (\<lambda>_. read_members ms (found @ kept_items u t h))))"
  by (auto simp: orphan_commands_def kept_items_def intro!: arg_cong2 [where f = bnd] split: option.split)

lemma sweep_item_commands:
  "sweep_item (markResult ttl) (recordRepublish ttl) pub inc lookup clock mx p = try_catch
     (case lookup (pi_userId p) (pi_couponTypeId p) of
        Inl e \<Rightarrow> throw e
      | Inr answer \<Rightarrow>
          bnd (send_all (answer_commands ttl mx (clock (pi_userId p) (pi_couponTypeId p)) p answer)) (\<lambda>_.
          afterwards pub inc mx p answer)) (\<lambda>e. ret ())"
  unfolding sweep_item_def republish_def recordRepublish_commands markResult_commands Let_def
  by (simp add: answer_commands_def afterwards_def Let_def split: sum.split option.split)

section \<open>Workers\<close>

text \<open>
  \<open>Sending cs next bad\<close>: the commands \<open>cs\<close> are still to be sent; the worker goes on as \<open>next\<close>, or as \<open>bad\<close>
  when one fails.
\<close>

datatype worker =
    Resting
  | Reading "string list" "pending_issue list"
  | Working "pending_issue list"
  | Sending "redis_command list" worker worker

text \<open>
  An \<open>HSETNX\<close> that finds the field or fails before its effect changes nothing and is no step; one whose
  answer is lost (\<open>answer_lost\<close>) leaves its effect to nobody.  \<open>tf_saved\<close> records every pair for which an \<open>HSETNX\<close> has taken effect.\<close>

record traffic =
  tf_c :: cstate
  tf_redis :: redis
  tf_worker :: "nat \<Rightarrow> worker"
  tf_saved :: "(int \<times> int) list"

definition put_worker :: "nat \<Rightarrow> worker \<Rightarrow> traffic \<Rightarrow> traffic" where
  "put_worker i w s = s\<lparr>tf_worker := (tf_worker s)(i := w)\<rparr>"

text \<open>What server-c does meanwhile: any of its entry points, on any message.\<close>

inductive c_move :: "(string \<Rightarrow> string) \<Rightarrow> cstate \<Rightarrow> cstate \<Rightarrow> bool" for ck :: "string \<Rightarrow> string" where
  c_delivers: "\<forall>i. valid_rnd (rnd i) \<Longrightarrow> c_move ck c (final (request_deliver ck sold_out_ttl n clock rnd val (c, fs)))"
| c_redeems: "c_move ck c (final (on_db (redeem ck now command) (c, fs)))"
| c_polls: "c_move ck c (final (poll batchSize now (c, fs)))"
| c_refreshes: "c_move ck c (final (refreshActiveEvents event_ttl (c, fs)))"
| c_queries: "c_move ck c (final (EventQueryService_findById event_ttl eventId (c, fs)))"
| c_restarts: "c_move ck c (final (c_restart (c, fs)))"
| c_clock: "c_move ck c (c\<lparr>c_db := (c_db c)\<lparr>d_now := t\<rparr>, c_redis := (c_redis c)\<lparr>r_now := t'\<rparr>\<rparr>)"

inductive traffic_step :: "(string \<Rightarrow> string) \<Rightarrow> int \<Rightarrow> int \<Rightarrow> traffic \<Rightarrow> traffic \<Rightarrow> bool"
  for ck :: "string \<Rightarrow> string" and ttl :: int and mx :: int where
  accepts: "tf_worker s i = Resting \<Longrightarrow> do_hsetnx (pendingHash u t) ''userId'' (dec u) (tf_redis s) = (1, r) \<Longrightarrow>
    traffic_step ck ttl mx s (put_worker i (Sending (save_commands ttl rid u e t now) Resting Resting)
      (s\<lparr>tf_redis := r, tf_saved := tf_saved s @ [(u, t)]\<rparr>))"
| answer_lost: "do_hsetnx (pendingHash u t) ''userId'' (dec u) (tf_redis s) = (1, r) \<Longrightarrow>
    traffic_step ck ttl mx s (s\<lparr>tf_redis := r, tf_saved := tf_saved s @ [(u, t)]\<rparr>)"
| consumes: "tf_worker s i = Resting \<Longrightarrow> (k, v) \<in> set (c_topic (tf_c s)) \<Longrightarrow> parse_result (Some v) = Some p \<Longrightarrow>
    traffic_step ck ttl mx s (put_worker i (Sending (mark_commands ttl (rs_userId p) (rs_couponTypeId p)
      (result_mapStatus (rs_status p)) (rs_couponCode p)) Resting Resting) s)"
| sweeps: "tf_worker s i = Resting \<Longrightarrow>
    traffic_step ck ttl mx s (put_worker i (Reading (zrange (r_zsets (tf_redis s) PENDING_ZSET) 0 cutoff n) []) s)"
| skips: "tf_worker s i = Reading (m # ms) found \<Longrightarrow> member_ids m = None \<Longrightarrow>
    traffic_step ck ttl mx s (put_worker i (Reading ms found) s)"
| reads: "tf_worker s i = Reading (m # ms) found \<Longrightarrow> member_ids m = Some (u, t) \<Longrightarrow>
    map_option fst (live_hash (tf_redis s) (pendingHash u t)) = h \<Longrightarrow>
    traffic_step ck ttl mx s (put_worker i (Sending (orphan_commands m h) (Reading ms (found @ kept_items u t h)) Resting) s)"
| has_read: "tf_worker s i = Reading [] found \<Longrightarrow> traffic_step ck ttl mx s (put_worker i (Working found) s)"
| asks: "tf_worker s i = Working (p # ps) \<Longrightarrow>
    UserCouponClient_findOne (c_lookup names (tf_c s) lost fss) (pi_userId p) (pi_couponTypeId p) = Inr answer \<Longrightarrow>
    traffic_step ck ttl mx s (put_worker i (Sending (answer_commands ttl mx now p answer) (Working ps) (Working ps)) s)"
| asks_in_vain: "tf_worker s i = Working (p # ps) \<Longrightarrow> traffic_step ck ttl mx s (put_worker i (Working ps) s)"
| has_worked: "tf_worker s i = Working [] \<Longrightarrow> traffic_step ck ttl mx s (put_worker i Resting s)"
| sends: "tf_worker s i = Sending (c # cs) nxt bad \<Longrightarrow> send c (tf_redis s, fs) = (Inr (), r, fs') \<Longrightarrow>
    traffic_step ck ttl mx s (put_worker i (Sending cs nxt bad) (s\<lparr>tf_redis := r\<rparr>))"
| fails: "tf_worker s i = Sending (c # cs) nxt bad \<Longrightarrow> send c (tf_redis s, fs) = (Inl failure, r, fs') \<Longrightarrow>
    traffic_step ck ttl mx s (put_worker i bad (s\<lparr>tf_redis := r\<rparr>))"
| has_sent: "tf_worker s i = Sending [] nxt bad \<Longrightarrow> traffic_step ck ttl mx s (put_worker i nxt s)"
| dies: "traffic_step ck ttl mx s (put_worker i Resting s)"
| c_works: "c_move ck (tf_c s) c \<Longrightarrow> traffic_step ck ttl mx s (s\<lparr>tf_c := c\<rparr>)"
| time_passes: "r_now (tf_redis s) \<le> t' \<Longrightarrow>
    traffic_step ck ttl mx s (s\<lparr>tf_redis := (tf_redis s)\<lparr>r_now := t'\<rparr>\<rparr>)"

definition traffic_start :: "traffic \<Rightarrow> bool" where
  "traffic_start s \<longleftrightarrow> fresh_c (tf_c s) \<and> (\<forall>k. r_hashes (tf_redis s) k = None) \<and> r_zsets (tf_redis s) PENDING_ZSET = [] \<and>
     (\<forall>i. tf_worker s i = Resting) \<and> tf_saved s = []"

definition traffic_reachable :: "(string \<Rightarrow> string) \<Rightarrow> int \<Rightarrow> int \<Rightarrow> traffic \<Rightarrow> traffic \<Rightarrow> bool" where
  "traffic_reachable ck ttl mx s0 s \<longleftrightarrow> 0 < ttl \<and> traffic_start s0 \<and> (traffic_step ck ttl mx)\<^sup>*\<^sup>* s0 s"

lemma put_worker_simps [simp]:
  "tf_c (put_worker i w s) = tf_c s" "tf_redis (put_worker i w s) = tf_redis s" "tf_saved (put_worker i w s) = tf_saved s"
  "tf_worker (put_worker i w s) j = (if j = i then w else tf_worker s j)"
  by (simp_all add: put_worker_def)

section \<open>What a command does\<close>

fun apply_command :: "redis_command \<Rightarrow> redis \<Rightarrow> redis" where
  "apply_command (Hset k fvs) r = put_fields k fvs r"
| "apply_command (Hincrby k f d) r = snd (do_hincrby k f d r)"
| "apply_command (Expire k ttl) r = snd (do_expire k ttl r)"
| "apply_command (Zadd z s m) r = snd (do_zadd z s m r)"
| "apply_command (Zrem z m) r = snd (do_zrem z m r)"

lemma external_state:
  assumes "external e f (s, fs) = (q, s', fs')"
  shows "s' = s \<or> s' = snd (f s)"
  by (rule external_cases [where e = e and f = f and s = s and fs = fs]) (use assms in auto)

lemma send_state:
  assumes "send c (r, fs) = (q, r', fs')"
  shows "r' = r \<or> r' = apply_command c r"
  using assms
  by (cases c) (auto simp: redis_hset_def redis_hincrby_def redis_expire_def redis_zadd_def redis_zrem_def
      external_try_def bnd_def split: prod.splits sum.splits dest!: external_state)

text \<open>A command that is going to be sent: it writes a true status, and its expiry is that of the store.\<close>

fun command_ok :: "(string \<Rightarrow> int \<Rightarrow> int \<Rightarrow> bool) \<Rightarrow> int \<Rightarrow> redis_command \<Rightarrow> bool" where
  "command_ok T ttl (Hset k fvs) \<longleftrightarrow> (\<forall>u t st. k = pendingHash u t \<longrightarrow> (''status'', st) \<in> set fvs \<longrightarrow> T st u t)"
| "command_ok T ttl (Hincrby k f d) \<longleftrightarrow> f \<noteq> ''status''"
| "command_ok T ttl (Expire k ttl') \<longleftrightarrow> ttl' = ttl"
| "command_ok T ttl _ \<longleftrightarrow> True"

fun worker_ok :: "(string \<Rightarrow> int \<Rightarrow> int \<Rightarrow> bool) \<Rightarrow> int \<Rightarrow> worker \<Rightarrow> bool" where
  "worker_ok T ttl (Sending cs nxt bad) \<longleftrightarrow> list_all (command_ok T ttl) cs \<and> worker_ok T ttl nxt \<and> worker_ok T ttl bad"
| "worker_ok T ttl _ \<longleftrightarrow> True"

lemma command_ok_mono: "command_ok T ttl c \<Longrightarrow> (\<And>st u t. T st u t \<Longrightarrow> T' st u t) \<Longrightarrow> command_ok T' ttl c"
  by (cases c) auto

lemma worker_ok_mono:
  assumes "worker_ok T ttl w" "\<And>st u t. T st u t \<Longrightarrow> T' st u t"
  shows "worker_ok T' ttl w"
  using assms(1) by (induction w) (auto simp: list_all_iff intro: command_ok_mono [OF _ assms(2)])

lemma mark_commands_ok: "T (pending_wire st) u t \<Longrightarrow> list_all (command_ok T ttl) (mark_commands ttl u t st code)"
  by (auto simp: mark_commands_def split: option.split)

lemma other_commands_ok:
  "tellable T \<Longrightarrow> list_all (command_ok T ttl) (save_commands ttl rid u e t now)"
  "list_all (command_ok T ttl) (republish_commands ttl u t now)" "list_all (command_ok T ttl) (orphan_commands m h)"
  by (auto simp: save_commands_def republish_commands_def orphan_commands_def tellable_def split: option.split)

lemma answer_commands_ok:
  assumes "tellable T" "\<And>r. answer = Some r \<Longrightarrow> T (pending_wire (mapStatus (lk_status r))) (pi_userId p) (pi_couponTypeId p)"
  shows "list_all (command_ok T ttl) (answer_commands ttl mx now p answer)"
  using assms by (auto simp: answer_commands_def Let_def tellable_def other_commands_ok intro!: mark_commands_ok split: option.split)

lemma status_ok_command: "command_ok T ttl c \<Longrightarrow> status_ok T r \<Longrightarrow> status_ok T (apply_command c r)"
  by (cases c) (auto intro!: status_ok_cmds)

lemma r_now_command [simp]: "r_now (apply_command c r) = r_now r"
  by (cases c) (auto simp: do_hincrby_def split: option.split)

end
