(* ===== verification/Journey.thy ===== *)
theory Journey imports System begin

text \<open>
  One request on its way through the three services when nothing fails: accepted by server-b on behalf
  of server-a, processed by server-c, its result published and taken over by server-b.
\<close>

section \<open>server-a calls server-b\<close>

lemma over_http_nil:
  "endpoint (s, []) = (Inr rsp, s', fs') \<Longrightarrow> wf_json (rp_body rsp) \<Longrightarrow> rp_status rsp = 200 \<Longrightarrow>
   over_http endpoint (s, []) = (Inr (rp_body rsp), s', fs')"
  by (simp add: over_http_def Let_def reply_of_Inr axios_result_def)

text \<open>The library parameters of a call that reaches server-b: the circuit is closed, the body is valid.\<close>

definition gets_through :: "surroundings \<Rightarrow> sys \<Rightarrow> int \<Rightarrow> int \<Rightarrow> bool" where
  "gets_through sr s e t \<longleftrightarrow> (\<forall>m fs. sr_policy sr m (s, fs) = try_catch m (\<lambda>e. m) (s, fs)) \<and>
     sr_validate sr (JObj [(''eventId'', JNum e), (''couponTypeId'', JNum t)]) =
       Inr \<lparr>dto_eventId = e, dto_couponTypeId = t\<rparr> \<and> \<not> sr_b_fires sr \<and> \<not> blank (sr_b_uuid sr (s_b s))"

definition sent_request :: "surroundings \<Rightarrow> sys \<Rightarrow> int \<Rightarrow> int \<Rightarrow> int \<Rightarrow> issue_request" where
  "sent_request sr s u e t = \<lparr>rq_requestId = sr_b_uuid sr (s_b s), rq_userId = u, rq_eventId = e,
     rq_couponTypeId = t, rq_requestedAt = toInstantString (sr_b_now sr (s_b s))\<rparr>"

lemma post_nil:
  assumes "0 < ttl" "gets_through sr s e t" "\<not> b_taken (s_b s) u t" "0 < u" "0 < e" "0 < t"
  obtains b' where "post_issue ttl sr (dec u) (JObj [(''eventId'', JNum e), (''couponTypeId'', JNum t)]) (s, []) =
      (Inr (toIssueResponse (acceptance_accepted (sr_b_uuid sr (s_b s)))), s\<lparr>s_b := b'\<rparr>, [])"
    "CouponIssueAcceptService_accept ttl (sr_b_timeout sr) False (sr_b_uuid sr (s_b s)) (sr_b_now sr (s_b s)) u e t
      (s_b s, []) = (Inr (acceptance_accepted (sr_b_uuid sr (s_b s))), b', [])"
    "b_topic b' = b_topic (s_b s) @ [(dec u, JSON_stringify (request_json (sent_request sr s u e t)))]"
proof -
  let ?rid = "sr_b_uuid sr (s_b s)" and ?now = "sr_b_now sr (s_b s)"
  have g: "sr_validate sr (JObj [(''eventId'', JNum e), (''couponTypeId'', JNum t)]) =
      Inr \<lparr>dto_eventId = e, dto_couponTypeId = t\<rparr>" "\<not> sr_b_fires sr" "\<not> blank ?rid"
    using assms(2) by (simp_all add: gets_through_def)
  obtain b' where b': "CouponIssueAcceptService_accept ttl (sr_b_timeout sr) False ?rid ?now u e t (s_b s, []) =
      (Inr (acceptance_accepted ?rid), b', [])"
    "b_topic b' = b_topic (s_b s) @ [(dec u, JSON_stringify (request_json (sent_request sr s u e t)))]"
    using accept_nil [OF assms(1,3) g(3) assms(4-6), of "sr_b_timeout sr" ?now] by (auto simp: sent_request_def)
  have "over_http (on_b (respond (sr_names sr) b_mapDomain (CouponIssueController_issue ttl (sr_b_timeout sr)
      (sr_b_fires sr) ?rid ?now (One_Header (dec u)) (sr_validate sr (JObj [(''eventId'', JNum e), (''couponTypeId'', JNum t)])))))
      (s, []) = (Inr (rp_body (ok_response (toIssueResponse (acceptance_accepted ?rid)))), s\<lparr>s_b := b'\<rparr>, [])"
    by (rule over_http_nil) (simp_all add: on_b_apply issue_controller_run [OF UserId_dec] g b'(1) ok_response_def)
  with b' that show ?thesis by (simp add: post_issue_def bnd_def ok_response_def)
qed

lemma client_nil:
  assumes "0 < ttl" "gets_through sr s e t" "\<not> b_taken (s_b s) u t" "0 < u" "0 < e" "0 < t"
  obtains b' where "a_client ttl sr u e t (s, []) =
      (Inr \<lparr>ds_requestId = JStr (sr_b_uuid sr (s_b s)), ds_status = JStr ''ACCEPTED'', ds_message = JNull\<rparr>, s\<lparr>s_b := b'\<rparr>, [])"
    "CouponIssueAcceptService_accept ttl (sr_b_timeout sr) False (sr_b_uuid sr (s_b s)) (sr_b_now sr (s_b s)) u e t
      (s_b s, []) = (Inr (acceptance_accepted (sr_b_uuid sr (s_b s))), b', [])"
    "b_topic b' = b_topic (s_b s) @ [(dec u, JSON_stringify (request_json (sent_request sr s u e t)))]"
proof -
  obtain b' where b': "post_issue ttl sr (dec u) (JObj [(''eventId'', JNum e), (''couponTypeId'', JNum t)]) (s, []) =
      (Inr (toIssueResponse (acceptance_accepted (sr_b_uuid sr (s_b s)))), s\<lparr>s_b := b'\<rparr>, [])"
    "CouponIssueAcceptService_accept ttl (sr_b_timeout sr) False (sr_b_uuid sr (s_b s)) (sr_b_now sr (s_b s)) u e t
      (s_b s, []) = (Inr (acceptance_accepted (sr_b_uuid sr (s_b s))), b', [])"
    "b_topic b' = b_topic (s_b s) @ [(dec u, JSON_stringify (request_json (sent_request sr s u e t)))]"
    by (rule post_nil [OF assms])
  have "sr_policy sr m (s, []) = try_catch m (\<lambda>e. m) (s, [])" for m
    using assms(2) by (simp add: gets_through_def)
  with b' that show ?thesis
    by (simp add: a_client_def HttpCouponIssuingClient_issue_def client_call_def bnd_def try_catch_def
        toIssueResponse_def acceptance_accepted_def jprop_JObj nullish_def json_or_null_def)
qed

text \<open>The answer of server-a, its log and what server-b has done.\<close>

lemma endpoint_nil:
  assumes "0 < ttl" "gets_through sr s e t" "\<not> b_taken (s_b s) u t" "0 < u" "0 < e" "0 < t"
    and "live_string (c_redis (s_c s)) (a_couponAvailable e t) = None"
  obtains b' where "a_endpoint ttl sr (One_Header (dec u)) (Inr \<lparr>cd_eventId = e, cd_couponTypeId = t\<rparr>) (s, []) =
      (Inr \<lparr>rp_status = 200, rp_headers = [], rp_body = ApiResponses_success
         (JObj [(''requestId'', JStr (sr_uuid sr)), (''status'', JStr ''ACCEPTED'')])\<rparr>,
       s\<lparr>s_b := b', s_log := snd (sql_insert_request (IssueRequestMapper_toInsertValues
         (IssueRequest_of (sr_uuid sr) u e t LOG_ACCEPTED (sr_now sr))) (s_log s))\<rparr>, [])"
    "CouponIssueAcceptService_accept ttl (sr_b_timeout sr) False (sr_b_uuid sr (s_b s)) (sr_b_now sr (s_b s)) u e t
      (s_b s, []) = (Inr (acceptance_accepted (sr_b_uuid sr (s_b s))), b', [])"
    "b_topic b' = b_topic (s_b s) @ [(dec u, JSON_stringify (request_json (sent_request sr s u e t)))]"
proof -
  obtain b' where b': "a_client ttl sr u e t (s, []) =
      (Inr \<lparr>ds_requestId = JStr (sr_b_uuid sr (s_b s)), ds_status = JStr ''ACCEPTED'', ds_message = JNull\<rparr>, s\<lparr>s_b := b'\<rparr>, [])"
    "CouponIssueAcceptService_accept ttl (sr_b_timeout sr) False (sr_b_uuid sr (s_b s)) (sr_b_now sr (s_b s)) u e t
      (s_b s, []) = (Inr (acceptance_accepted (sr_b_uuid sr (s_b s))), b', [])"
    "b_topic b' = b_topic (s_b s) @ [(dec u, JSON_stringify (request_json (sent_request sr s u e t)))]"
    by (rule client_nil [OF assms(1-6)])
  have "a_isSoldOut e t (s, []) = (Inr False, s, [])"
    by (simp add: a_isSoldOut_def on_cache_apply soldOut_nil assms(7))
  with b' that show ?thesis
    by (simp add: a_endpoint_def respond_def try_catch_def bnd_def IssueRequestController_issue_def UserId_dec a_issue_def
        IssueRequestService_issue_def a_mapStatus_def save_request_def a_save_def on_log_def zoom_def
        IssueRequestRepository_save_def sql_insert_request_def isDownstreamUnavailable_def toIssueCouponView_def
        IssueRequest_reconstitute_def IssueRequest_of_def)
qed

section \<open>server-c processes and publishes\<close>

lemma deliver_nil:
  assumes "parse val = Some p" "0 < n" "h 1 p (s, []) = (Inr (), s', [])"
  shows "deliver n parse h val (s, []) = (Inr (), s', [])"
  using assms by (cases n) (simp_all add: deliver_def try_catch_def)

lemma process_polling: "keeps_inv (\<lambda>c. c_polling c = x) (process ck ttl now rnd request)"
proof -
  have "keeps_inv (\<lambda>c. c_polling c = x) (on_db m)" for m :: "(cdb, exn, 'c) eff"
    by (simp add: keeps_inv_def on_db_apply)
  moreover have "keeps_inv (\<lambda>c. c_polling c = x) (on_db m)" for m :: "(cdb, exn, bool) eff"
    by (simp add: keeps_inv_def on_db_apply)
  moreover have "keeps_inv (\<lambda>c. c_polling c = x) (on_db m)" for m :: "(cdb, exn, inventory option) eff"
    by (simp add: keeps_inv_def on_db_apply)
  moreover have "keeps_inv (\<lambda>c. c_polling c = x) (on_redis m)" for m :: "(redis, exn, unit) eff"
    by (simp add: keeps_inv_def on_redis_apply)
  ultimately show ?thesis
    unfolding process_def markSoldOutIfDepleted_def
    by (intro keeps_bnd keeps_try keeps_ret keeps_option keeps_if) (auto intro: keeps_ret keeps_throw split: exn.split)
qed

text \<open>server-c can serve the request: an active event, stock, no row of the user, no collision.\<close>

definition serves :: "(string \<Rightarrow> string) \<Rightarrow> int \<Rightarrow> string \<Rightarrow> issue_request \<Rightarrow> cdb \<Rightarrow> bool" where
  "serves ck now code p d \<longleftrightarrow> inventory_keys_ok d \<and> \<not> has_row (rq_userId p) (rq_couponTypeId p) d \<and>
     \<not> code_taken ck code d \<and> known_type (rq_couponTypeId p) d \<and>
     (case find (\<lambda>row. e_eventId row = dec (rq_eventId p)) (d_events d) of
        None \<Rightarrow> False | Some ev \<Rightarrow> e_startedAt ev \<le> now \<and> now \<le> e_endedAt ev) \<and>
     (case select_inventory (rq_eventId p) (rq_couponTypeId p) d of None \<Rightarrow> False | Some row \<Rightarrow> 0 < i_availableCount row)"

lemma process_nil:
  assumes "serves ck now (CouponCode_generate rnd) p (c_db c)"
  obtains c' row o' where "process ck ttl now rnd p (c, []) = (Inr (), c', [])"
    "d_user_coupons (c_db c') = d_user_coupons (c_db c) @ [row]" "same_user_type (dec (rq_userId p)) (dec (rq_couponTypeId p)) row"
    "u_status row = UC_SUCCESS" "u_code row = CouponCode_generate rnd"
    "d_outbox (c_db c') = d_outbox (c_db c) @ [o']" "o_status o' = OB_PENDING"
    "JSON_parse (o_payload o') = Some (result_json (toResultPayload p R_SUCCESS (Some (CouponCode_generate rnd)) now))"
    "c_topic c' = c_topic c" "c_polling c' = c_polling c"
proof -
  from assms obtain ev stock where "find (\<lambda>row. e_eventId row = dec (rq_eventId p)) (d_events (c_db c)) = Some ev"
      "e_startedAt ev \<le> now" "now \<le> e_endedAt ev" "select_inventory (rq_eventId p) (rq_couponTypeId p) (c_db c) = Some stock"
      "0 < i_availableCount stock"
    by (auto simp: serves_def split: option.splits)
  with assms issue_effect [of c p ck rnd ev now stock ttl]
  have eff: "outcome (process ck ttl now rnd p (c, [])) = Inr ()"
    "d_user_coupons (c_db (final (process ck ttl now rnd p (c, [])))) = d_user_coupons (c_db c) @
      [with_key (dec (d_next_user_coupon (c_db c))) (UserCouponMapper_toInsertValues (UserCoupon_issue (CouponCode_generate rnd)
         (rq_userId p) (rq_eventId p) (rq_couponTypeId p) UC_SUCCESS now))]"
    "\<exists>o'. d_outbox (c_db (final (process ck ttl now rnd p (c, [])))) = d_outbox (c_db c) @ [o'] \<and> o_status o' = OB_PENDING \<and>
      JSON_parse (o_payload o') = Some (result_json (toResultPayload p R_SUCCESS (Some (CouponCode_generate rnd)) now))"
    by (auto simp: serves_def)
  have "snd (snd (process ck ttl now rnd p (c, []))) = []" by (rule fair_nil [OF fair_process])
  with eff(1) obtain c' where c': "process ck ttl now rnd p (c, []) = (Inr (), c', [])"
    by (cases "process ck ttl now rnd p (c, [])") auto
  have "c_topic c' = c_topic c" "c_polling c' = c_polling c"
    using process_topic [of ck ttl now rnd p c "[]"] keeps_invD [OF process_polling, of c "c_polling c" ck ttl now rnd p "[]"]
    by (simp_all add: c')
  with eff(2,3) that [OF c'] show ?thesis by (auto simp: c' same_user_type_def)
qed

lemma poll_one:
  assumes "\<not> c_polling c" "d_outbox (c_db c) = rows @ [o']" "o_status o' = OB_PENDING"
    and "filter (\<lambda>row. o_status row = OB_PENDING) rows = []" "0 < n"
  shows "c_topic (final (poll n now (c, []))) = c_topic c @ [message_of o']"
proof -
  have "select_pending n (c_db c) = [o']"
    using assms(2-5) by (cases n) (simp_all add: select_pending_def)
  then show ?thesis by (simp add: poll_nil(2) [OF assms(1)])
qed

lemma poll_user_coupons: "d_user_coupons (c_db (final (poll n now (c, fs)))) = d_user_coupons (c_db c)"
proof -
  have "keeps_inv (\<lambda>c'. d_user_coupons (c_db c') = d_user_coupons (c_db c)) (poll n now)"
  proof -
    have pub: "keeps_inv (\<lambda>c'. d_user_coupons (c_db c') = d_user_coupons (c_db c)) (IssueResultPublisher_publish k v)" for k v
      unfolding IssueResultPublisher_publish_def
      by (intro keeps_bnd keeps_gets keeps_if keeps_external keeps_modify keeps_ret) simp_all
    have each: "keeps_inv (\<lambda>c'. d_user_coupons (c_db c') = d_user_coupons (c_db c)) (publish_each evs ids)" for evs ids
      by (induction evs arbitrary: ids) (auto intro!: keeps_bnd keeps_try keeps_ret pub)
    show ?thesis
      unfolding poll_def publishPending_def findPending_def markPublished_def
      by (intro keeps_bnd keeps_gets keeps_if keeps_ret keeps_modify keeps_try each
          keeps_on_db [where I = "\<lambda>d. d_user_coupons d = d_user_coupons (c_db c)"] keeps_external) simp_all
  qed
  then show ?thesis by (rule keeps_invD) simp
qed

section \<open>server-b takes the result over\<close>

lemma result_nil:
  assumes "0 < ttl" "0 < n" "b_held b u t = Some en"
    and "JSON_parse v = Some (result_json p)" "rs_status p = R_SUCCESS" "rs_couponCode p = Some code"
    and "rs_userId p = u" "rs_couponTypeId p = t"
  shows "b_held (final (result_deliver ttl n (Some v) (b, []))) u t =
      Some (en\<lparr>en_item := (en_item en)\<lparr>pi_status := ''SUCCESS''\<rparr>, en_score := None\<rparr>)"
    "hash_field (b_redis (final (result_deliver ttl n (Some v) (b, [])))) (pendingHash u t) ''code'' = Some code"
proof -
  obtain k where k: "ttl = 1 + int k" using positive_ttl [OF assms(1)] by blast
  have parse: "parse_result (Some v) = Some p"
    using assms(4-6) assert_result_json [of p] by (simp add: parse_result_def)
  let ?m = "mark_attempt ttl 1 p (b, [])"
  have m: "outcome ?m = Inr ()" "b_held (final ?m) u t =
      Some (en\<lparr>en_item := (en_item en)\<lparr>pi_status := ''SUCCESS''\<rparr>, en_score := None\<rparr>)"
    using redis_store.mark_sets [OF assms(3), of k PS_SUCCESS "Some code"] assms(5-8)
    by (simp_all add: mark_attempt_def k)
  moreover have "snd (snd ?m) = []" by (rule fair_nil [OF fair_mark_attempt])
  ultimately have w: "?m = (Inr (), final ?m, [])" by (cases ?m) simp
  have d: "final (result_deliver ttl n (Some v) (b, [])) = final ?m"
    using deliver_nil [where parse = parse_result and h = "mark_attempt ttl" and val = "Some v" and p = p and n = n
        and s = b and s' = "final ?m"] parse assms(2) w
    by (simp add: result_deliver_def)
  show "b_held (final (result_deliver ttl n (Some v) (b, []))) u t =
      Some (en\<lparr>en_item := (en_item en)\<lparr>pi_status := ''SUCCESS''\<rparr>, en_score := None\<rparr>)"
    unfolding d by (rule m(2))
  show "hash_field (b_redis (final (result_deliver ttl n (Some v) (b, [])))) (pendingHash u t) ''code'' = Some code"
    unfolding d using mark_settles [OF assms(1), of p 1 b] assms(6-8) by (simp add: result_settled_def Let_def)
qed

section \<open>The whole way\<close>

text \<open>The four steps, each on the state the one before has left.\<close>

definition after_issue :: "int \<Rightarrow> surroundings \<Rightarrow> int \<Rightarrow> int \<Rightarrow> int \<Rightarrow> sys \<Rightarrow> sys" where
  "after_issue ttl sr u e t s =
     final (a_endpoint ttl sr (One_Header (dec u)) (Inr \<lparr>cd_eventId = e, cd_couponTypeId = t\<rparr>) (s, []))"

definition after_process ::
  "(string \<Rightarrow> string) \<Rightarrow> int \<Rightarrow> nat \<Rightarrow> (nat \<Rightarrow> int) \<Rightarrow> (nat \<Rightarrow> nat \<Rightarrow> nat) \<Rightarrow> sys \<Rightarrow> sys" where
  "after_process ck sold_out_ttl n clock rnd s = s\<lparr>s_c := final (request_deliver ck sold_out_ttl n clock rnd
     (Some (snd (last (b_topic (s_b s))))) (s_c s, []))\<rparr>"

definition after_poll :: "nat \<Rightarrow> int \<Rightarrow> sys \<Rightarrow> sys" where
  "after_poll batchSize now s = s\<lparr>s_c := final (poll batchSize now (s_c s, []))\<rparr>"

definition after_result :: "int \<Rightarrow> nat \<Rightarrow> sys \<Rightarrow> sys" where
  "after_result ttl n s = s\<lparr>s_b := final (result_deliver ttl n (Some (snd (last (c_topic (s_c s))))) (s_b s, []))\<rparr>"

lemma after_issue_facts:
  assumes "0 < ttl" "gets_through sr s e t" "\<not> b_taken (s_b s) u t" "0 < u" "0 < e" "0 < t"
    and "live_string (c_redis (s_c s)) (a_couponAvailable e t) = None"
  shows "s_c (after_issue ttl sr u e t s) = s_c s"
    "b_topic (s_b (after_issue ttl sr u e t s)) =
      b_topic (s_b s) @ [(dec u, JSON_stringify (request_json (sent_request sr s u e t)))]"
    "\<exists>en. b_held (s_b (after_issue ttl sr u e t s)) u t = Some en"
proof -
  obtain k where k: "ttl = 1 + int k" using positive_ttl [OF assms(1)] by blast
  obtain b' where b': "s_b (after_issue ttl sr u e t s) = b'" "s_c (after_issue ttl sr u e t s) = s_c s"
    "CouponIssueAcceptService_accept ttl (sr_b_timeout sr) False (sr_b_uuid sr (s_b s)) (sr_b_now sr (s_b s)) u e t
      (s_b s, []) = (Inr (acceptance_accepted (sr_b_uuid sr (s_b s))), b', [])"
    "b_topic b' = b_topic (s_b s) @ [(dec u, JSON_stringify (request_json (sent_request sr s u e t)))]"
    by (rule endpoint_nil [OF assms]) (simp add: after_issue_def)
  then show "s_c (after_issue ttl sr u e t s) = s_c s"
    "b_topic (s_b (after_issue ttl sr u e t s)) =
      b_topic (s_b s) @ [(dec u, JSON_stringify (request_json (sent_request sr s u e t)))]" by simp_all
  from accept_service.accept_accepted [OF b'(3) [unfolded CouponIssueAcceptService_accept_def k]] b'(1)
  show "\<exists>en. b_held (s_b (after_issue ttl sr u e t s)) u t = Some en" by blast
qed

lemma journey:
  fixes ck :: "string \<Rightarrow> string" and sr :: surroundings and s :: sys and u e t :: int
    and clock :: "nat \<Rightarrow> int" and rnd :: "nat \<Rightarrow> nat \<Rightarrow> nat" and n m batchSize :: nat
    and ttl sold_out_ttl now :: int
  defines "code \<equiv> CouponCode_generate (rnd 1)"
    and "s' \<equiv> after_result ttl m (after_poll batchSize now (after_process ck sold_out_ttl n clock rnd (after_issue ttl sr u e t s)))"
  assumes "0 < ttl" "gets_through sr s e t" "\<not> b_taken (s_b s) u t" "0 < u" "0 < e" "0 < t"
    and "live_string (c_redis (s_c s)) (a_couponAvailable e t) = None"
    and "serves ck (clock 1) code (sent_request sr s u e t) (c_db (s_c s))" "\<not> c_polling (s_c s)"
      "filter (\<lambda>row. o_status row = OB_PENDING) (d_outbox (c_db (s_c s))) = []"
    and "0 < n" "0 < batchSize" "0 < m"
  shows "(\<exists>row \<in> set (d_user_coupons (c_db (s_c s'))). same_user_type (dec u) (dec t) row \<and> u_status row = UC_SUCCESS \<and> u_code row = code) \<and>
    (\<exists>en. b_held (s_b s') u t = Some en \<and> pi_status (en_item en) = ''SUCCESS'' \<and> en_score en = None) \<and>
    hash_field (b_redis (s_b s')) (pendingHash u t) ''code'' = Some code \<and> c_topic (s_c s') \<noteq> []"
proof -
  let ?s1 = "after_issue ttl sr u e t s"
  let ?s2 = "after_process ck sold_out_ttl n clock rnd ?s1"
  let ?s3 = "after_poll batchSize now ?s2"
  let ?p = "sent_request sr s u e t"
  note issue = after_issue_facts [OF assms(3-9)]
  have p: "rq_userId ?p = u" "rq_eventId ?p = e" "rq_couponTypeId ?p = t" "\<not> blank (rq_requestId ?p)"
    using assms(4) by (simp_all add: sent_request_def gets_through_def)
  have parse: "parse_request (Some (snd (last (b_topic (s_b ?s1))))) = Some ?p"
    using p assms(6-8) by (simp add: issue(2) parse_request_json)
  obtain c' row o' where c': "process ck sold_out_ttl (clock 1) (rnd 1) ?p (s_c s, []) = (Inr (), c', [])"
    "d_user_coupons (c_db c') = d_user_coupons (c_db (s_c s)) @ [row]" "same_user_type (dec u) (dec t) row"
    "u_status row = UC_SUCCESS" "u_code row = code"
    "d_outbox (c_db c') = d_outbox (c_db (s_c s)) @ [o']" "o_status o' = OB_PENDING"
    "JSON_parse (o_payload o') = Some (result_json (toResultPayload ?p R_SUCCESS (Some code) (clock 1)))"
    "c_topic c' = c_topic (s_c s)" "c_polling c' = c_polling (s_c s)"
    using process_nil [OF assms(10) [unfolded code_def], of sold_out_ttl] p unfolding code_def by auto
  have s2: "s_c ?s2 = c'" "s_b ?s2 = s_b ?s1"
    using deliver_nil [where parse = parse_request and h = "process_attempt ck sold_out_ttl clock rnd" and p = ?p
        and val = "Some (snd (last (b_topic (s_b ?s1))))" and n = n and s = "s_c s" and s' = c'] parse assms(13) c'(1)
    by (simp_all add: after_process_def request_deliver_def process_attempt_def issue(1))
  have poll: "c_topic (final (poll batchSize now (c', []))) = c_topic c' @ [message_of o']"
    using c' assms(11,12,14) by (intro poll_one [where rows = "d_outbox (c_db (s_c s))"]) simp_all
  have s3: "s_b ?s3 = s_b ?s1" "snd (last (c_topic (s_c ?s3))) = o_payload o'"
    "d_user_coupons (c_db (s_c ?s3)) = d_user_coupons (c_db c')"
    by (simp_all add: after_poll_def s2 poll poll_user_coupons message_of_def)
  from issue(3) obtain en where en: "b_held (s_b ?s1) u t = Some en" by blast
  have "rs_status (toResultPayload ?p R_SUCCESS (Some code) (clock 1)) = R_SUCCESS"
      "rs_couponCode (toResultPayload ?p R_SUCCESS (Some code) (clock 1)) = Some code"
      "rs_userId (toResultPayload ?p R_SUCCESS (Some code) (clock 1)) = u"
      "rs_couponTypeId (toResultPayload ?p R_SUCCESS (Some code) (clock 1)) = t"
    by (simp_all add: toResultPayload_def p)
  note res = result_nil [OF assms(3,15) en c'(8) this]
  have s': "s_b s' = final (result_deliver ttl m (Some (o_payload o')) (s_b ?s1, []))" "s_c s' = s_c ?s3"
    by (simp_all add: s'_def after_result_def s3)
  have "c_topic (s_c ?s3) \<noteq> []" by (simp add: after_poll_def s2 poll)
  then show ?thesis
    using res c'(2-5) s3(3) by (auto simp: s')
qed

text \<open>Each step is a step of the system.\<close>

lemma journey_steps:
  assumes "breaker_and_retry (sr_policy sr)" "\<forall>i. valid_rnd (rnd i)" "b_topic (s_b (after_issue ttl sr u e t s)) \<noteq> []"
    and "c_topic (s_c (after_result ttl m (after_poll batchSize now (after_process ck sold_out_ttl n clock rnd
      (after_issue ttl sr u e t s))))) \<noteq> []"
  shows "(sys_step ck ttl)\<^sup>*\<^sup>* s (after_result ttl m (after_poll batchSize now
    (after_process ck sold_out_ttl n clock rnd (after_issue ttl sr u e t s))))"
proof -
  let ?s1 = "after_issue ttl sr u e t s"
  let ?s2 = "after_process ck sold_out_ttl n clock rnd ?s1"
  let ?s3 = "after_poll batchSize now ?s2"
  have "sys_step ck ttl s ?s1"
    unfolding after_issue_def by (rule sys_step.issue_call [OF assms(1)])
  moreover have "sys_step ck ttl ?s1 ?s2"
    unfolding after_process_def
    by (rule sys_step.deliver_request [where k = "fst (last (b_topic (s_b ?s1)))"]) (simp_all add: assms(2,3))
  moreover have "sys_step ck ttl ?s2 ?s3" unfolding after_poll_def by (rule sys_step.poll_tick)
  moreover have "sys_step ck ttl ?s3 (after_result ttl m ?s3)"
    unfolding after_result_def
    by (rule sys_step.deliver_result [where k = "fst (last (c_topic (s_c ?s3)))"])
      (use assms(4) in \<open>simp add: after_result_def\<close>)
  ultimately show ?thesis by (meson converse_rtranclp_into_rtranclp rtranclp.rtrancl_refl)
qed

section \<open>A lost answer\<close>

lemma accept_taken_nil:
  assumes "b_taken b u t"
  shows "CouponIssueAcceptService_accept ttl tmo fires rid now u e t (b, []) = (Inr (acceptance_duplicate rid), b, [])"
  using assms
  by (simp add: CouponIssueAcceptService_accept_def accept_def bnd_def b_save_def on_b_redis_apply savePendingIfAbsent_def
      Let_def redis_hsetnx_def do_hsetnx_def b_taken_def reserved_def)

lemma over_http_lost:
  "over_http endpoint (s, FailAfter # fs) = (Inl (Connection_Error ''http''), final (endpoint (s, fs)), snd (snd (endpoint (s, fs))))"
  by (simp add: over_http_def Let_def split: prod.split)

lemma lost_answer:
  assumes "0 < ttl" "gets_through sr s e t" "\<not> b_taken (s_b s) u t" "0 < u" "0 < e" "0 < t"
    and "live_string (c_redis (s_c s)) (a_couponAvailable e t) = None"
    and valid: "\<And>b. sr_b_uuid sr b = sr_b_uuid sr (s_b s)"
  obtains b' where "a_endpoint ttl sr (One_Header (dec u)) (Inr \<lparr>cd_eventId = e, cd_couponTypeId = t\<rparr>) (s, [NoFault, FailAfter]) =
      (Inr \<lparr>rp_status = 200, rp_headers = [], rp_body = ApiResponses_success (JObj [(''requestId'', JStr (sr_uuid sr)),
         (''status'', JStr ''DUPLICATE''), (''message'', JStr ''already requested for this coupon type'')])\<rparr>,
       s\<lparr>s_b := b', s_log := snd (sql_insert_request (IssueRequestMapper_toInsertValues
         (IssueRequest_of (sr_uuid sr) u e t LOG_DUPLICATE (sr_now sr))) (s_log s))\<rparr>, [])"
    "b_held b' u t = Some \<lparr>en_item = fresh_item (sr_b_uuid sr (s_b s)) u e t (sr_b_now sr (s_b s)), en_score = Some (sr_b_now sr (s_b s))\<rparr>"
    "b_topic b' = b_topic (s_b s) @ [(dec u, JSON_stringify (request_json (sent_request sr s u e t)))]"
proof -
  let ?body = "JObj [(''eventId'', JNum e), (''couponTypeId'', JNum t)]"
  let ?rid = "sr_b_uuid sr (s_b s)" and ?now = "sr_b_now sr (s_b s)"
  let ?call = "client_call (post_issue ttl sr) (sr_elapsed sr) u e t"
  obtain k where k: "ttl = 1 + int k" using positive_ttl [OF assms(1)] by blast
  have g: "sr_validate sr ?body = Inr \<lparr>dto_eventId = e, dto_couponTypeId = t\<rparr>" "\<not> sr_b_fires sr"
    "\<And>m fs. sr_policy sr m (s, fs) = try_catch m (\<lambda>e. m) (s, fs)"
    using assms(2) by (simp_all add: gets_through_def)
  obtain b' where b': "CouponIssueAcceptService_accept ttl (sr_b_timeout sr) False ?rid ?now u e t (s_b s, []) =
      (Inr (acceptance_accepted ?rid), b', [])"
    "b_topic b' = b_topic (s_b s) @ [(dec u, JSON_stringify (request_json (sent_request sr s u e t)))]"
    by (rule post_nil [OF assms(1-6)])
  from accept_service.accept_accepted [OF b'(1) [unfolded CouponIssueAcceptService_accept_def k]]
  have held: "b_taken b' u t" "b_held b' u t = Some \<lparr>en_item = fresh_item ?rid u e t ?now, en_score = Some ?now\<rparr>" by simp_all
  have first: "post_issue ttl sr (dec u) ?body (s, [FailAfter]) = (Inl (Connection_Error ''http''), s\<lparr>s_b := b'\<rparr>, [])"
    by (simp add: post_issue_def bnd_def over_http_lost on_b_apply issue_controller_run [OF UserId_dec] g b'(1))
  have "over_http (on_b (respond (sr_names sr) b_mapDomain (CouponIssueController_issue ttl (sr_b_timeout sr)
      (sr_b_fires sr) (sr_b_uuid sr b') (sr_b_now sr b') (One_Header (dec u)) (sr_validate sr ?body))))
      (s\<lparr>s_b := b'\<rparr>, []) = (Inr (rp_body (ok_response (toIssueResponse (acceptance_duplicate (sr_b_uuid sr b'))))), s\<lparr>s_b := b'\<rparr>, [])"
    by (rule over_http_nil) (simp_all add: on_b_apply issue_controller_run [OF UserId_dec] g accept_taken_nil [OF held(1)] ok_response_def)
  then have second: "post_issue ttl sr (dec u) ?body (s\<lparr>s_b := b'\<rparr>, []) =
      (Inr (toIssueResponse (acceptance_duplicate ?rid)), s\<lparr>s_b := b'\<rparr>, [])"
    using valid [of b'] by (simp add: post_issue_def bnd_def ok_response_def)
  have client: "a_client ttl sr u e t (s, [FailAfter]) =
      (Inr \<lparr>ds_requestId = JStr ?rid, ds_status = JStr ''DUPLICATE'', ds_message = JStr ''already requested for this coupon type''\<rparr>,
       s\<lparr>s_b := b'\<rparr>, [])"
    using first second
    by (simp add: a_client_def HttpCouponIssuingClient_issue_def client_call_def bnd_def try_catch_def g(3)
        toIssueResponse_def acceptance_duplicate_def jprop_JObj nullish_def json_or_null_def)
  have "a_isSoldOut e t (s, [NoFault, FailAfter]) = (Inr False, s, [FailAfter])"
    by (simp add: a_isSoldOut_def on_cache_apply CouponAvailabilityCache_isSoldOut_def redis_exists_def try_catch_def
        bnd_def assms(7))
  with client held(2) b'(2) that [of b'] show ?thesis
    by (simp add: a_endpoint_def respond_def try_catch_def bnd_def IssueRequestController_issue_def UserId_dec a_issue_def
        IssueRequestService_issue_def a_mapStatus_def save_request_def a_save_def on_log_def zoom_def
        IssueRequestRepository_save_def sql_insert_request_def isDownstreamUnavailable_def toIssueCouponView_def
        IssueRequest_reconstitute_def IssueRequest_of_def)
qed

end
