(* ===== verification/Dto.thy ===== *)
theory Dto imports A_Issue B_Api begin

text \<open>
  The request bodies of server-a (\<open>issue-coupon-request.dto.ts\<close>) and server-b (\<open>issue-request.dto.ts\<close>).
  The decorators of a field are its rules.  What a rule says of a value is class-validator's affair:
  \<open>check\<close> is a parameter, and \<open>documented_rules\<close> states what the documentation promises of the rules used
  here (of \<open>IsISO8601\<close> and \<open>MaxLength\<close> nothing is needed; the order of a field's messages
  is the library's).  \<open>message\<close> gives the text of a violated rule.
\<close>

section \<open>The rules\<close>

datatype rule =
  IsNotEmpty | IsString | MaxLength nat | IsInt | IsPositive | IsISO8601 | IsOptional | IsBoolean

type_synonym field_rules = "string \<times> rule list"

definition IssueCouponRequestDto :: "field_rules list" where
  "IssueCouponRequestDto =
     [(''country'', [IsNotEmpty, IsString, MaxLength 8]),
      (''eventId'', [IsNotEmpty, IsInt, IsPositive]),
      (''couponTypeId'', [IsNotEmpty, IsInt, IsPositive]),
      (''issuedAt'', [IsNotEmpty, IsISO8601]),
      (''expireAt'', [IsNotEmpty, IsISO8601]),
      (''channel'', [IsNotEmpty, IsString, MaxLength 32]),
      (''deviceId'', [IsOptional, IsString, MaxLength 64]),
      (''clientVersion'', [IsOptional, IsString, MaxLength 32]),
      (''language'', [IsOptional, IsString, MaxLength 8]),
      (''marketingConsent'', [IsOptional, IsBoolean])]"

definition IssueRequestDto :: "field_rules list" where
  "IssueRequestDto =
     [(''eventId'', [IsNotEmpty, IsInt, IsPositive]),
      (''couponTypeId'', [IsNotEmpty, IsInt, IsPositive])]"

section \<open>Validation\<close>

definition documented_rules :: "(rule \<Rightarrow> json option \<Rightarrow> bool) \<Rightarrow> bool" where
  "documented_rules check \<longleftrightarrow>
     (\<forall>v. check IsNotEmpty v \<longleftrightarrow> v \<notin> {None, Some JNull, Some (JStr [])}) \<and>
     (\<forall>v. check IsString v \<longleftrightarrow> (\<exists>s. v = Some (JStr s))) \<and>
     (\<forall>v. check IsInt v \<longleftrightarrow> (\<exists>n. v = Some (JNum n))) \<and>
     (\<forall>v. check IsPositive v \<longleftrightarrow> (\<exists>n. v = Some (JNum n) \<and> 0 < n)) \<and>
     (\<forall>v. check IsBoolean v \<longleftrightarrow> (\<exists>b. v = Some (JBool b)))"

text \<open>\<open>IsOptional\<close> is no rule of its own: it exempts a missing or null field from the others.\<close>

definition violated :: "(rule \<Rightarrow> json option \<Rightarrow> bool) \<Rightarrow> json \<Rightarrow> field_rules \<Rightarrow> rule list" where
  "violated check body f = (case f of (name, rules) \<Rightarrow>
     let v = jprop name body in
     if IsOptional \<in> set rules \<and> (v = None \<or> v = Some JNull) then []
     else filter (\<lambda>r. r \<noteq> IsOptional \<and> \<not> check r v) rules)"

definition field_report ::
  "(rule \<Rightarrow> json option \<Rightarrow> bool) \<Rightarrow> (string \<Rightarrow> rule \<Rightarrow> string) \<Rightarrow> json \<Rightarrow> field_rules \<Rightarrow> validation_error list" where
  "field_report check message body f =
     (if violated check body f = [] then []
      else [Validation_Error (fst f) (Some (map (\<lambda>r. (fst f, message (fst f) r)) (violated check body f))) []])"

definition validate ::
  "(rule \<Rightarrow> json option \<Rightarrow> bool) \<Rightarrow> (string \<Rightarrow> rule \<Rightarrow> string) \<Rightarrow> field_rules list \<Rightarrow> json \<Rightarrow> validation_error list" where
  "validate check message rules body = concat (map (field_report check message body) rules)"

text \<open>
  The validation pipe of the two services; \<open>the_number\<close> reads a field that has passed as a number.
\<close>

definition the_number :: "string \<Rightarrow> json \<Rightarrow> int" where
  "the_number name body = (case jprop name body of Some (JNum n) \<Rightarrow> n | _ \<Rightarrow> 0)"

definition a_pipe ::
  "(rule \<Rightarrow> json option \<Rightarrow> bool) \<Rightarrow> (string \<Rightarrow> rule \<Rightarrow> string) \<Rightarrow> json \<Rightarrow> exn + coupon_dto" where
  "a_pipe check message body = (case validate check message IssueCouponRequestDto body of
      [] \<Rightarrow> Inr \<lparr>cd_eventId = the_number ''eventId'' body, cd_couponTypeId = the_number ''couponTypeId'' body\<rparr>
    | errors \<Rightarrow> Inl (validation_exception errors))"

definition b_pipe ::
  "(rule \<Rightarrow> json option \<Rightarrow> bool) \<Rightarrow> (string \<Rightarrow> rule \<Rightarrow> string) \<Rightarrow> json \<Rightarrow> exn + issue_dto" where
  "b_pipe check message body = (case validate check message IssueRequestDto body of
      [] \<Rightarrow> Inr \<lparr>dto_eventId = the_number ''eventId'' body, dto_couponTypeId = the_number ''couponTypeId'' body\<rparr>
    | errors \<Rightarrow> Inl (validation_exception errors))"

section \<open>Laws\<close>

lemma validate_nil: "validate check message rules body = [] \<longleftrightarrow> (\<forall>f \<in> set rules. violated check body f = [])"
  by (induction rules) (simp_all add: validate_def field_report_def)

lemma violated_nil:
  "violated check body (name, rules) = [] \<longleftrightarrow>
     (IsOptional \<in> set rules \<and> (jprop name body = None \<or> jprop name body = Some JNull)) \<or>
     (\<forall>r \<in> set rules. r = IsOptional \<or> check r (jprop name body))"
  by (auto simp: violated_def Let_def filter_empty_conv)

lemma flatten_report:
  "flattenValidationErrors (field_report check message body f) '''' =
     map (\<lambda>r. (fst f, message (fst f) r)) (violated check body f)"
  by (simp add: flattenValidationErrors_def field_report_def comp_def)

lemma flatten_validate:
  "flattenValidationErrors (validate check message rules body) '''' =
     concat (map (\<lambda>f. map (\<lambda>r. (fst f, message (fst f) r)) (violated check body f)) rules)"
proof (induction rules)
  case Nil
  then show ?case by (simp add: validate_def flattenValidationErrors_def)
next
  case (Cons f rules)
  then show ?case
    using flatten_report [of check message body f] by (simp add: validate_def flattenValidationErrors_def)
qed

lemma reported:
  "set (flattenValidationErrors (validate check message rules body) '''') =
     {(name, message name r) | name r. \<exists>rs. (name, rs) \<in> set rules \<and> r \<in> set (violated check body (name, rs))}"
proof -
  have "set (concat (map (\<lambda>f. map (\<lambda>r. (fst f, message (fst f) r)) (v f)) rules)) =
      {(name, message name r) | name r. \<exists>rs. (name, rs) \<in> set rules \<and> r \<in> set (v (name, rs))}"
    for v :: "field_rules \<Rightarrow> rule list"
    by (induction rules) (simp, clarsimp, blast)
  from this [of "violated check body"] show ?thesis by (simp only: flatten_validate)
qed

lemma number_field:
  assumes "documented_rules check" "violated check body (name, [IsNotEmpty, IsInt, IsPositive]) = []"
  shows "jprop name body = Some (JNum (the_number name body)) \<and> 0 < the_number name body"
  using assms by (auto simp: violated_nil documented_rules_def the_number_def)

lemma positive_number:
  "documented_rules check \<Longrightarrow> jprop name body = Some (JNum n) \<Longrightarrow> 0 < n \<Longrightarrow>
   violated check body (name, [IsNotEmpty, IsInt, IsPositive]) = []"
  by (simp add: violated_nil documented_rules_def)

lemma pipe_numbers:
  assumes "documented_rules check" "a_pipe check message body = Inr request"
  shows "0 < cd_eventId request" "0 < cd_couponTypeId request"
    "b_pipe check message' (JObj [(''eventId'', JNum (cd_eventId request)), (''couponTypeId'', JNum (cd_couponTypeId request))]) =
       Inr \<lparr>dto_eventId = cd_eventId request, dto_couponTypeId = cd_couponTypeId request\<rparr>"
proof -
  from assms(2) have none: "\<forall>f \<in> set IssueCouponRequestDto. violated check body f = []"
    and r: "request = \<lparr>cd_eventId = the_number ''eventId'' body, cd_couponTypeId = the_number ''couponTypeId'' body\<rparr>"
    by (auto simp: a_pipe_def validate_nil [of check message IssueCouponRequestDto body, symmetric] split: list.splits)
  from none have "violated check body (''eventId'', [IsNotEmpty, IsInt, IsPositive]) = []"
      "violated check body (''couponTypeId'', [IsNotEmpty, IsInt, IsPositive]) = []"
    by (simp_all add: IssueCouponRequestDto_def)
  from this [THEN number_field [OF assms(1)]] r
  show pos: "0 < cd_eventId request" "0 < cd_couponTypeId request" by simp_all
  let ?b = "JObj [(''eventId'', JNum (cd_eventId request)), (''couponTypeId'', JNum (cd_couponTypeId request))]"
  have j: "jprop ''eventId'' ?b = Some (JNum (cd_eventId request))" "jprop ''couponTypeId'' ?b = Some (JNum (cd_couponTypeId request))"
    by (simp_all add: jprop_def)
  have "validate check message' IssueRequestDto ?b = []"
    unfolding validate_nil using positive_number [OF assms(1) j(1) pos(1)] positive_number [OF assms(1) j(2) pos(2)]
    by (simp add: IssueRequestDto_def)
  then show "b_pipe check message' ?b = Inr \<lparr>dto_eventId = cd_eventId request, dto_couponTypeId = cd_couponTypeId request\<rparr>"
    by (simp add: b_pipe_def the_number_def j)
qed

text \<open>A validator for concrete bodies.\<close>

fun plain_check :: "rule \<Rightarrow> json option \<Rightarrow> bool" where
  "plain_check IsNotEmpty v = (v \<notin> {None, Some JNull, Some (JStr [])})"
| "plain_check IsString v = (case v of Some (JStr s) \<Rightarrow> True | _ \<Rightarrow> False)"
| "plain_check (MaxLength n) v = (case v of Some (JStr s) \<Rightarrow> length s \<le> n | _ \<Rightarrow> False)"
| "plain_check IsInt v = (case v of Some (JNum n) \<Rightarrow> True | _ \<Rightarrow> False)"
| "plain_check IsPositive v = (case v of Some (JNum n) \<Rightarrow> 0 < n | _ \<Rightarrow> False)"
| "plain_check IsISO8601 v = (case v of Some (JStr s) \<Rightarrow> True | _ \<Rightarrow> False)"
| "plain_check IsOptional v = True"
| "plain_check IsBoolean v = (case v of Some (JBool b) \<Rightarrow> True | _ \<Rightarrow> False)"

lemma plain_check_documented: "documented_rules plain_check"
  by (auto simp: documented_rules_def split: option.splits json.splits)

definition plain_message :: "string \<Rightarrow> rule \<Rightarrow> string" where
  "plain_message name r = name @ '' is invalid''"

text \<open>A request of 2026 for coupon type 11 of event 7, and one without a country and with a negative id.\<close>

definition good_body :: json where
  "good_body = JObj [(''country'', JStr ''KR''), (''eventId'', JNum 7), (''couponTypeId'', JNum 11),
     (''issuedAt'', JStr ''2026-01-01''), (''expireAt'', JStr ''2026-02-01''), (''channel'', JStr ''APP'')]"

definition bad_body :: json where
  "bad_body = JObj [(''eventId'', JNum (- 7)), (''couponTypeId'', JNum 11),
     (''issuedAt'', JStr ''2026-01-01''), (''expireAt'', JStr ''2026-02-01''), (''channel'', JStr ''APP'')]"

lemmas bodies = good_body_def bad_body_def IssueCouponRequestDto_def IssueRequestDto_def validate_def
  field_report_def violated_def jprop_def the_number_def

lemma good_body_accepted:
  "a_pipe plain_check plain_message good_body = Inr \<lparr>cd_eventId = 7, cd_couponTypeId = 11\<rparr>"
  by (simp add: a_pipe_def bodies)

section \<open>What the services exchange\<close>

text \<open>C28. What server-a forwards, server-b accepts: when a body has passed the validation of server-a,
  both ids are positive, and whatever server-b does (\<open>serve\<close>) with the body that the client of server-b
  posts for them, it does it with exactly these ids: its own validation never refuses the call.\<close>

theorem forwarded_body_is_valid:
  assumes "documented_rules check" "a_pipe check message body = Inr request"
  shows "0 < cd_eventId request \<and> 0 < cd_couponTypeId request \<and>
    client_call (\<lambda>header posted. serve header (b_pipe check message' posted)) ms u (cd_eventId request) (cd_couponTypeId request) =
    client_call (\<lambda>header posted. serve header
      (Inr \<lparr>dto_eventId = cd_eventId request, dto_couponTypeId = cd_couponTypeId request\<rparr>)) ms u (cd_eventId request) (cd_couponTypeId request)"
  using pipe_numbers(1,2) [OF assms] pipe_numbers(3) [OF assms, of message'] by (simp add: client_call_def)

definition echo :: "string \<Rightarrow> exn + issue_dto \<Rightarrow> (unit, exn, json) eff" where
  "echo header body = bnd (argument body) (\<lambda>d. ret (JObj [(''status'', JStr header)]))"

lemma forwarded_body_is_valid_witness:
  "a_pipe plain_check plain_message good_body = Inr \<lparr>cd_eventId = 7, cd_couponTypeId = 11\<rparr> \<and>
   client_call (\<lambda>header posted. echo header (b_pipe plain_check plain_message posted)) 3 1 7 11 =
   client_call (\<lambda>header posted. echo header (Inr \<lparr>dto_eventId = 7, dto_couponTypeId = 11\<rparr>)) 3 1 7 11"
  using good_body_accepted
    forwarded_body_is_valid [OF plain_check_documented good_body_accepted, of echo plain_message 3 1]
  unfolding coupon_dto.simps by (rule conjI [OF _ conjunct2 [OF conjunct2]])

text \<open>C36. A body that breaks a rule is refused before anything happens: the answer of server-a is 400
  \<open>VALIDATION_FAILED\<close> with one entry, the field and the text, for each violated rule of a field and no
  other, and the service is not called: the state and the pending faults are those of before.\<close>

theorem invalid_body_is_refused:
  assumes "UserId user_header = Inr u" "f \<in> set IssueCouponRequestDto" "violated check body f \<noteq> []"
  shows "\<exists>errors. set errors = {(name, message name r) | name r. \<exists>rules.
        (name, rules) \<in> set IssueCouponRequestDto \<and> r \<in> set (violated check body (name, rules))} \<and>
    respond names a_mapDomain (IssueRequestController_issue service user_header (a_pipe check message body)) w =
      (Inr (failure_response (mapped 400
        (ErrorResponses_withFields ''VALIDATION_FAILED'' ''request body validation failed'' errors))), w)"
proof -
  let ?errors = "flattenValidationErrors (validate check message IssueCouponRequestDto body) ''''"
  from assms(2,3) have "validate check message IssueCouponRequestDto body \<noteq> []" by (auto simp: validate_nil)
  then have pipe: "a_pipe check message body = Inl (ValidationFailedError ?errors)"
    by (auto simp: a_pipe_def validation_exception_def split: list.splits)
  have "set ?errors = {(name, message name r) | name r. \<exists>rules.
        (name, rules) \<in> set IssueCouponRequestDto \<and> r \<in> set (violated check body (name, rules))}"
    by (rule reported)
  moreover have "respond names a_mapDomain (IssueRequestController_issue service user_header (a_pipe check message body)) w =
      (Inr (failure_response (mapped 400
        (ErrorResponses_withFields ''VALIDATION_FAILED'' ''request body validation failed'' ?errors))), w)"
    using assms(1) pipe
    by (cases w) (simp add: respond_def IssueRequestController_issue_def try_catch_def bnd_def filter_catch_def
        a_mapDomain_def or_else_def ret_def throw_def)
  ultimately show ?thesis by blast
qed

lemma invalid_body_is_refused_witness:
  "\<exists>errors. (''country'', ''country is invalid'') \<in> set errors \<and>
     respond (\<lambda>n. None) a_mapDomain (IssueRequestController_issue (\<lambda>c. throw MalformedBodyError) (One_Header (dec 9))
       (a_pipe plain_check plain_message bad_body)) ((), []) =
     (Inr (failure_response (mapped 400
       (ErrorResponses_withFields ''VALIDATION_FAILED'' ''request body validation failed'' errors))), (), [])"
proof -
  let ?f = "(''country'', [IsNotEmpty, IsString, MaxLength 8])"
  have f: "?f \<in> set IssueCouponRequestDto" by (simp add: IssueCouponRequestDto_def)
  have v: "violated plain_check bad_body ?f = [IsNotEmpty, IsString, MaxLength 8]" by (simp add: bodies)
  have mem: "(''country'', ''country is invalid'') \<in> {(name, plain_message name r) | name r. \<exists>rules.
      (name, rules) \<in> set IssueCouponRequestDto \<and> r \<in> set (violated plain_check bad_body (name, rules))}"
    using f v by (fastforce simp: plain_message_def)
  have "violated plain_check bad_body ?f \<noteq> []" by (simp add: v)
  from invalid_body_is_refused [OF UserId_dec [of 9] f this, of plain_message "\<lambda>n. None" "\<lambda>c. throw MalformedBodyError" "((), [])"]
  show ?thesis using mem by (elim exE conjE) (rule exI, rule conjI, erule ssubst, assumption, assumption)
qed

end
