(* ===== verification/Example.thy ===== *)
theory Example imports Journey Dto begin

text \<open>
  A concrete system, the input of the witnesses of the root theory: an empty server-a and server-b, a
  server-c with one event, one coupon type and five coupons, and library parameters that behave.
\<close>

text \<open>The validation pipe of server-b, and a policy with a closed circuit.\<close>

definition demo_validate :: "json \<Rightarrow> exn + issue_dto" where
  "demo_validate = b_pipe plain_check plain_message"

lemma demo_validates:
  "demo_validate (JObj [(''eventId'', JNum 7), (''couponTypeId'', JNum 3)]) = Inr \<lparr>dto_eventId = 7, dto_couponTypeId = 3\<rparr>"
  by (simp add: demo_validate_def b_pipe_def bodies)

definition retry_once :: "(sys, exn, timed_result) eff \<Rightarrow> (sys, exn, timed_result) eff" where
  "retry_once m = try_catch m (\<lambda>e. m)"

definition demo_sr :: surroundings where
  "demo_sr = \<lparr>sr_names = (\<lambda>_. None), sr_validate = demo_validate, sr_policy = retry_once,
     sr_class = (\<lambda>_. ''Error''), sr_elapsed = 12, sr_uuid = ''a1'', sr_now = 950, sr_b_uuid = (\<lambda>_. ''4d2f''),
     sr_b_now = (\<lambda>_. 1000), sr_b_fires = False, sr_b_timeout = 3000\<rparr>"

text \<open>The same with an open circuit.\<close>

definition broken_sr :: surroundings where
  "broken_sr = demo_sr\<lparr>sr_policy := (\<lambda>m (s, fs). (Inl BrokenCircuitError, s, fs))\<rparr>"

definition demo :: sys where
  "demo = \<lparr>s_log = \<lparr>a_rows = [], a_next = 1, a_now = 900\<rparr>, s_b = new_b 1000, s_c = shop 5\<rparr>"

lemma demo_parts [simp]: "s_b demo = new_b 1000" "s_c demo = shop 5" "a_rows (s_log demo) = []"
  by (simp_all add: demo_def)

lemma demo_sr_parts [simp]: "sr_b_uuid demo_sr = (\<lambda>_. ''4d2f'')" "sr_uuid demo_sr = ''a1''" "sr_b_now demo_sr = (\<lambda>_. 1000)"
  by (simp_all add: demo_sr_def)

lemma demo_policy: "breaker_and_retry (sr_policy demo_sr)" "breaker_and_retry (sr_policy broken_sr)"
  by (simp_all add: breaker_and_retry_def demo_sr_def broken_sr_def retry_once_def)

lemma demo_gets_through: "gets_through demo_sr demo 7 3"
  by (simp add: gets_through_def demo_sr_def retry_once_def demo_validates blank_def is_space_def)

lemma new_b_free: "\<not> b_taken (new_b now) u t"
  by (simp add: b_taken_def reserved_def new_b_def live_hash_def hash_field_def)

lemma shop_cache_empty: "live_string (c_redis (shop n)) k = None"
  by (simp add: shop_def empty_redis_def live_string_def)

lemma demo_serves: "serves id 6000 (CouponCode_generate (\<lambda>_. 0)) (sent_request demo_sr demo 11 7 3) (c_db (shop 5))"
  by (simp add: serves_def sent_request_def inventory_keys_ok_def has_row_def code_taken_def known_type_def
      select_inventory_def shop_def shop_db_def shop_event_def shop_stock_def)

lemma demo_quiet: "\<not> c_polling (shop n)" "d_outbox (c_db (shop n)) = []"
  by (simp_all add: shop_def shop_db_def)

lemma demo_start: "sys_start demo"
  by (simp add: sys_start_def fresh_c_def b_opened_def new_b_def opened_def flagged_def shop_def shop_db_def empty_redis_def
      shop_stock_def db_ok_defs)

text \<open>User 11 asks for the coupon; the state after the whole way.\<close>

definition demo_end :: sys where
  "demo_end = after_result 86400 10 (after_poll 100 6500 (after_process id 86400 10 (\<lambda>_. 6000) (\<lambda>_ _. 0)
     (after_issue 86400 demo_sr 11 7 3 demo)))"

lemma demo_facts:
  "(\<exists>row \<in> set (d_user_coupons (c_db (s_c demo_end))). same_user_type (dec 11) (dec 3) row \<and> u_status row = UC_SUCCESS \<and>
     u_code row = CouponCode_generate (\<lambda>_. 0)) \<and>
   (\<exists>en. b_held (s_b demo_end) 11 3 = Some en \<and> pi_status (en_item en) = ''SUCCESS'' \<and> en_score en = None) \<and>
   hash_field (b_redis (s_b demo_end)) (pendingHash 11 3) ''code'' = Some (CouponCode_generate (\<lambda>_. 0)) \<and>
   c_topic (s_c demo_end) \<noteq> []"
  unfolding demo_end_def
  by (rule journey [where s = demo and sr = demo_sr and rnd = "\<lambda>_ _. 0" and clock = "\<lambda>_. 6000" and ck = id])
    (simp_all add: demo_gets_through new_b_free shop_cache_empty demo_serves demo_quiet)

lemma demo_reachable: "sys_reachable id 86400 demo demo_end"
proof -
  have "b_topic (s_b (after_issue 86400 demo_sr 11 7 3 demo)) \<noteq> []"
    using after_issue_facts [where s = demo and sr = demo_sr and ttl = 86400 and u = 11 and e = 7 and t = 3]
    by (simp add: demo_gets_through new_b_free shop_cache_empty)
  then show ?thesis
    using demo_facts demo_start unfolding sys_reachable_def demo_end_def by (auto intro: journey_steps demo_policy simp: valid_rnd_def ALPHABET_def)
qed

text \<open>The same system without stock: the first request finds nothing and the cache is told.\<close>

definition empty_demo :: sys where
  "empty_demo = demo\<lparr>s_c := shop 0\<rparr>"

definition sold_out_demo :: sys where
  "sold_out_demo = after_process id 86400 10 (\<lambda>_. 6000) (\<lambda>_ _. 0) (after_issue 86400 demo_sr 11 7 3 empty_demo)"

lemma empty_demo_parts [simp]: "s_b empty_demo = new_b 1000" "s_c empty_demo = shop 0"
  by (simp_all add: empty_demo_def)

lemma empty_demo_start: "sys_start empty_demo"
  by (simp add: sys_start_def fresh_c_def b_opened_def new_b_def opened_def flagged_def shop_def shop_db_def empty_redis_def
      shop_stock_def db_ok_defs)

lemma empty_demo_gets_through: "gets_through demo_sr empty_demo 7 3"
  by (simp add: gets_through_def demo_sr_def retry_once_def demo_validates blank_def is_space_def)

lemma process_without_stock:
  assumes "rq_eventId p = 7" "rq_couponTypeId p = 3"
  shows "outcome (process id 86400 6000 (\<lambda>_. 0) p (shop 0, [])) = Inr ()"
    "live_string (c_redis (final (process id 86400 6000 (\<lambda>_. 0) p (shop 0, [])))) (couponAvailable_key 7 3) = Some ''1''"
  using assms
  by (simp_all add: process_def on_db_apply on_redis_apply runIssueTransaction_def transaction_def bnd_def
      try_catch_def issue_body_nil issue_spec_def record_result_def user_coupon_insert_nil
      has_row_def code_taken_def known_type_def select_inventory_def shop_def shop_db_def
      shop_event_def shop_stock_def markSoldOutIfDepleted_def
      inventory_findByEventIdAndCouponTypeId_def CouponTypeInventoryMapper_toDomain_def
      isDepleted_def markSoldOut_def redis_set_ex_def announce_def sql_insert_outbox_def result_row_def
      add_row_def bump_def)

lemma sold_out_demo_facts:
  "sys_reachable id 86400 empty_demo sold_out_demo"
  "live_string (c_redis (s_c sold_out_demo)) (a_couponAvailable 7 3) = Some ''1''"
proof -
  let ?s = "after_issue 86400 demo_sr 11 7 3 empty_demo"
  let ?p = "sent_request demo_sr empty_demo 11 7 3"
  have issue: "s_c ?s = shop 0" "b_topic (s_b ?s) = [(dec 11, JSON_stringify (request_json ?p))]"
    using after_issue_facts [where s = empty_demo and sr = demo_sr and ttl = 86400 and u = 11 and e = 7 and t = 3]
    by (simp_all add: empty_demo_gets_through new_b_free shop_cache_empty) (simp add: new_b_def)
  have step: "sys_step id 86400 empty_demo ?s"
    unfolding after_issue_def by (rule sys_step.issue_call [OF demo_policy(1)])
  have "sys_step id 86400 ?s sold_out_demo"
    unfolding sold_out_demo_def after_process_def
    by (rule sys_step.deliver_request [where k = "dec 11"]) (simp_all add: issue valid_rnd_def ALPHABET_def)
  with step empty_demo_start show "sys_reachable id 86400 empty_demo sold_out_demo"
    by (auto simp: sys_reachable_def intro: converse_rtranclp_into_rtranclp)
  let ?run = "process id 86400 6000 (\<lambda>_. 0) ?p (shop 0, [])"
  have p: "rq_eventId ?p = 7" "rq_couponTypeId ?p = 3" by (simp_all add: sent_request_def)
  have "snd (snd ?run) = []" by (rule fair_nil [OF fair_process])
  with process_without_stock(1) [OF p] have run: "?run = (Inr (), final ?run, [])" by (cases ?run) auto
  have parse: "parse_request (Some (JSON_stringify (request_json ?p))) = Some ?p"
    by (simp add: parse_request_json sent_request_def blank_def is_space_def)
  have "s_c sold_out_demo = final ?run"
    using deliver_nil [where parse = parse_request and h = "process_attempt id 86400 (\<lambda>_. 6000) (\<lambda>_ _. 0)" and p = ?p
        and val = "Some (JSON_stringify (request_json ?p))" and n = 10 and s = "shop 0" and s' = "final ?run"] parse run
    by (simp add: sold_out_demo_def after_process_def request_deliver_def process_attempt_def issue)
  with process_without_stock(2) [OF p] show "live_string (c_redis (s_c sold_out_demo)) (a_couponAvailable 7 3) = Some ''1''"
    by (simp add: a_couponAvailable_def couponAvailable_key_def)
qed

end
