(* ===== verification/B_Interleaved.thy ===== *)
theory B_Interleaved imports B_Traffic Example begin

text \<open>
  What survives the interleaving of the commands of server-b, and what does not: the statuses stay true
  and a pair is accepted once per lifetime, but a give-up of the scheduler can overwrite a result that
  arrives while it waits for the answer of server-c.
\<close>

section \<open>server-c meanwhile\<close>

lemma moves_weaken: "moves ck P c c' \<Longrightarrow> moves ck (\<lambda>p. True) c c'"
  by (auto simp: moves_def elim: evolves_mono)

lemma c_move_moves:
  assumes "truthful ck c" "c_move ck c c'"
  shows "moves ck (\<lambda>p. True) c c'"
  using assms(2)
proof cases
  case (c_delivers rnd sold_out_ttl n clock val fs)
  then show ?thesis using deliver_moves [OF assms(1), of rnd val sold_out_ttl n clock fs] by (auto intro: moves_weaken)
next
  case c_redeems
  then show ?thesis using redeem_moves [OF assms(1)] by simp
next
  case c_polls
  then show ?thesis using poll_moves [OF assms(1)] by simp
next
  case c_refreshes
  then show ?thesis using read_moves [OF assms(1) reads_same_db(1) reads_same_flags(1)] by simp
next
  case c_queries
  then show ?thesis using read_moves [OF assms(1) reads_same_db(2) reads_same_flags(2)] by simp
next
  case c_restarts
  then show ?thesis using restart_moves [OF assms(1)] by simp
next
  case c_clock
  then show ?thesis using clock_moves_true [OF assms(1)] by simp
qed

section \<open>Reservations\<close>

text \<open>Nothing expires before \<open>d\<close>, and a reserved pair is one on whose hash \<open>HSETNX\<close> fails.\<close>

definition durable :: "int \<Rightarrow> redis \<Rightarrow> bool" where
  "durable d r \<longleftrightarrow> (\<forall>k h e. live_hash r k = Some (h, Some e) \<longrightarrow> d \<le> e)"

lemma durableD: "durable d r \<Longrightarrow> live_hash r k = Some (h, Some e) \<Longrightarrow> d \<le> e"
  by (simp add: durable_def)

lemma durable_put: "durable d r \<Longrightarrow> durable d (put_fields k fvs r)"
  by (auto simp: durable_def live_hash_put split: option.splits prod.splits if_splits)

lemma durable_expire: "durable d r \<Longrightarrow> 0 < ttl \<Longrightarrow> d \<le> r_now r + 1000 * ttl \<Longrightarrow> durable d (snd (do_expire k ttl r))"
  by (auto simp: durable_def live_hash_expire split: if_splits)

lemma durable_command:
  assumes "durable d r" "0 < ttl" "command_ok T ttl c" "d \<le> r_now r + 1000 * ttl"
  shows "durable d (apply_command c r)"
proof (cases c)
  case (Hincrby k f x)
  with assms(1) show ?thesis by (auto simp: do_hincrby_def intro: durable_put split: option.split)
next
  case (Expire k x)
  with assms show ?thesis by (simp add: durable_expire)
qed (use assms(1) in \<open>simp_all add: durable_put\<close>, simp_all add: durable_def)

lemma live_hash_still:
  "durable d r \<Longrightarrow> r_now r \<le> t' \<Longrightarrow> t' < d \<Longrightarrow> live_hash (r\<lparr>r_now := t'\<rparr>) k = live_hash r k"
  using durableD [of d r k] by (auto simp: live_hash_def split: option.splits prod.splits)

lemma foldl_fields_keep: "\<exists>x. h k = Some x \<Longrightarrow> \<exists>x. foldl (\<lambda>h (f, v). h(f \<mapsto> v)) h fvs k = Some x"
proof (induction fvs arbitrary: h)
  case (Cons fv fvs)
  obtain f v where "fv = (f, v)" by (cases fv)
  with Cons.IH [of "h(f \<mapsto> v)"] Cons.prems show ?case by (auto split: if_splits)
qed simp

lemma reserved_put: "reserved r u t \<Longrightarrow> reserved (put_fields k fvs r) u t"
  by (auto simp: reserved_def hash_field_def live_hash_put foldl_fields_keep split: option.splits prod.splits)

lemma reserved_expire: "reserved r u t \<Longrightarrow> 0 < ttl \<Longrightarrow> reserved (snd (do_expire k ttl r)) u t"
  by (auto simp: reserved_def hash_field_def live_hash_expire split: option.splits prod.splits)

lemma reserved_command: "reserved r u t \<Longrightarrow> 0 < ttl \<Longrightarrow> command_ok T ttl c \<Longrightarrow> reserved (apply_command c r) u t"
proof (cases c)
  case (Hincrby k f x)
  assume "reserved r u t"
  with Hincrby show ?thesis by (auto simp: do_hincrby_def intro: reserved_put split: option.split)
qed (simp_all add: reserved_put reserved_expire, simp_all add: reserved_def hash_field_def)

lemma hsetnx_reserves:
  assumes "do_hsetnx (pendingHash u t) ''userId'' v r = (1, r')"
  shows "r' = put_fields (pendingHash u t) [(''userId'', v)] r" "\<not> reserved r u t" "reserved r' u t"
proof -
  from assms have f: "hash_field r (pendingHash u t) ''userId'' = None"
    and r': "r' = put_fields (pendingHash u t) [(''userId'', v)] r"
    by (auto simp: do_hsetnx_def split: if_splits)
  then show "r' = put_fields (pendingHash u t) [(''userId'', v)] r" "\<not> reserved r u t" "reserved r' u t"
    by (auto simp: reserved_def hash_field_def live_hash_put split: option.split)
qed

section \<open>The invariant\<close>

text \<open>\<open>now0\<close>: when Redis was empty.\<close>

definition accepted_once :: "int \<Rightarrow> int \<Rightarrow> redis \<Rightarrow> (int \<times> int) list \<Rightarrow> bool" where
  "accepted_once now0 ttl r saved \<longleftrightarrow> now0 \<le> r_now r \<and> (r_now r < now0 + 1000 * ttl \<longrightarrow>
     durable (now0 + 1000 * ttl) r \<and> (\<forall>(u, t) \<in> set saved. reserved r u t) \<and> distinct saved)"

definition traffic_inv :: "(string \<Rightarrow> string) \<Rightarrow> int \<Rightarrow> int \<Rightarrow> traffic \<Rightarrow> bool" where
  "traffic_inv ck ttl now0 s \<longleftrightarrow> truthful ck (tf_c s) \<and> status_ok (tells_true (c_db (tf_c s))) (tf_redis s) \<and>
     (\<forall>i. worker_ok (tells_true (c_db (tf_c s))) ttl (tf_worker s i)) \<and>
     accepted_once now0 ttl (tf_redis s) (tf_saved s)"

lemma traffic_invD:
  assumes "traffic_inv ck ttl now0 s"
  shows "truthful ck (tf_c s)" "status_ok (tells_true (c_db (tf_c s))) (tf_redis s)"
    "worker_ok (tells_true (c_db (tf_c s))) ttl (tf_worker s i)" "accepted_once now0 ttl (tf_redis s) (tf_saved s)"
  using assms by (simp_all add: traffic_inv_def)

lemma traffic_inv_worker:
  assumes "traffic_inv ck ttl now0 s" "worker_ok (tells_true (c_db (tf_c s))) ttl w"
  shows "traffic_inv ck ttl now0 (put_worker i w s)"
  using assms by (simp add: traffic_inv_def)

lemma once_command:
  assumes "accepted_once now0 ttl r saved" "0 < ttl" "command_ok T ttl c"
  shows "accepted_once now0 ttl (apply_command c r) saved"
proof -
  have "now0 + 1000 * ttl \<le> r_now r + 1000 * ttl" using assms(1) by (simp add: accepted_once_def)
  then show ?thesis
    using assms durable_command [OF _ assms(2,3)] reserved_command [OF _ assms(2,3)] by (auto simp: accepted_once_def)
qed

lemma once_accept:
  assumes "accepted_once now0 ttl r saved" "do_hsetnx (pendingHash u t) ''userId'' v r = (1, r')"
  shows "accepted_once now0 ttl r' (saved @ [(u, t)])"
  using assms(1) hsetnx_reserves [OF assms(2)] reserved_put durable_put
  by (auto simp: accepted_once_def)

lemma once_later:
  assumes "accepted_once now0 ttl r saved" "r_now r \<le> t'"
  shows "accepted_once now0 ttl (r\<lparr>r_now := t'\<rparr>) saved"
  using assms live_hash_still [of "now0 + 1000 * ttl" r t']
  by (auto simp: accepted_once_def durable_def reserved_def hash_field_def)

lemma traffic_inv_command:
  assumes "traffic_inv ck ttl now0 s" "0 < ttl" "command_ok (tells_true (c_db (tf_c s))) ttl c"
    and "r = tf_redis s \<or> r = apply_command c (tf_redis s)"
  shows "traffic_inv ck ttl now0 (s\<lparr>tf_redis := r\<rparr>)"
  using assms(1,4) once_command [OF traffic_invD(4) [OF assms(1)] assms(2,3)]
    status_ok_command [OF assms(3) traffic_invD(2) [OF assms(1)]]
  by (auto simp: traffic_inv_def)

lemma traffic_inv_accept:
  assumes "traffic_inv ck ttl now0 s" "do_hsetnx (pendingHash u t) ''userId'' (dec u) (tf_redis s) = (1, r)"
  shows "traffic_inv ck ttl now0 (s\<lparr>tf_redis := r, tf_saved := tf_saved s @ [(u, t)]\<rparr>)"
proof -
  have "status_ok (tells_true (c_db (tf_c s))) r"
    unfolding hsetnx_reserves(1) [OF assms(2)] by (rule status_ok_put [OF traffic_invD(2) [OF assms(1)]]) auto
  then show ?thesis
    using assms(1) once_accept [OF traffic_invD(4) [OF assms(1)] assms(2)] by (simp add: traffic_inv_def)
qed

lemma traffic_inv_c:
  assumes "traffic_inv ck ttl now0 s" "moves ck P (tf_c s) c"
  shows "traffic_inv ck ttl now0 (s\<lparr>tf_c := c\<rparr>)"
proof -
  have ev: "evolves P (c_db (tf_c s)) (c_db c)" using assms(2) by (simp add: moves_def)
  have "worker_ok (tells_true (c_db c)) ttl (tf_worker s i)" for i
    by (rule worker_ok_mono [OF traffic_invD(3) [OF assms(1)]]) (rule tells_true_evolves [OF ev])
  moreover have "status_ok (tells_true (c_db c)) (tf_redis s)"
    by (rule status_mono [OF traffic_invD(2) [OF assms(1)]]) (rule tells_true_evolves [OF ev])
  ultimately show ?thesis using assms by (simp add: traffic_inv_def moves_def)
qed

lemma traffic_inv_step:
  assumes "traffic_step ck ttl mx s s'" "0 < ttl" "traffic_inv ck ttl now0 s"
  shows "traffic_inv ck ttl now0 s'"
proof -
  note w = traffic_invD(3) [OF assms(3)]
  note put = traffic_inv_worker [OF assms(3)]
  from assms(1) show ?thesis
  proof cases
    case (accepts i u t r rid e now)
    show ?thesis
      unfolding accepts(1)
      by (rule traffic_inv_worker [OF traffic_inv_accept [OF assms(3) accepts(3)]])
        (simp add: other_commands_ok tellable_tells_true)
  next
    case (answer_lost u t r)
    then show ?thesis using traffic_inv_accept [OF assms(3)] by simp
  next
    case (consumes i k v p)
    show ?thesis
      unfolding consumes(1)
      by (rule put) (simp add: mark_commands_ok [where T = "tells_true (c_db (tf_c s))"]
          result_true [OF traffic_invD(1) [OF assms(3)] consumes(3,4)])
  next
    case (sweeps i cutoff n)
    then show ?thesis using put by simp
  next
    case (skips i m ms found)
    then show ?thesis using put by simp
  next
    case (reads i m ms found u t h)
    show ?thesis unfolding reads(1) by (rule put) (simp add: other_commands_ok)
  next
    case (has_read i found)
    then show ?thesis using put by simp
  next
    case (asks i p ps names lost fss answer now)
    have "list_all (command_ok (tells_true (c_db (tf_c s))) ttl) (answer_commands ttl mx now p answer)"
      by (rule answer_commands_ok [OF tellable_tells_true]) (use asks(3) lookup_true in blast)
    then show ?thesis unfolding asks(1) by (intro put) simp
  next
    case (asks_in_vain i p ps)
    then show ?thesis using put by simp
  next
    case (has_worked i)
    then show ?thesis using put by simp
  next
    case (sends i c cs nxt bad fs r fs')
    with w [of i] have ok: "command_ok (tells_true (c_db (tf_c s))) ttl c"
        "worker_ok (tells_true (c_db (tf_c s))) ttl (Sending cs nxt bad)" by simp_all
    show ?thesis
      unfolding sends(1)
      by (rule traffic_inv_worker [OF traffic_inv_command [OF assms(3,2) ok(1) send_state [OF sends(3)]]]) (use ok(2) in simp)
  next
    case (fails i c cs nxt bad fs failure r fs')
    with w [of i] have ok: "command_ok (tells_true (c_db (tf_c s))) ttl c"
        "worker_ok (tells_true (c_db (tf_c s))) ttl bad" by simp_all
    show ?thesis
      unfolding fails(1)
      by (rule traffic_inv_worker [OF traffic_inv_command [OF assms(3,2) ok(1) send_state [OF fails(3)]]]) (use ok(2) in simp)
  next
    case (has_sent i nxt bad)
    then show ?thesis using put w [of i] by simp
  next
    case (dies i)
    then show ?thesis using put by simp
  next
    case (c_works c)
    then show ?thesis using traffic_inv_c [OF assms(3) c_move_moves [OF traffic_invD(1) [OF assms(3)]]] by simp
  next
    case (time_passes t')
    then show ?thesis
      using assms(3) once_later [OF traffic_invD(4) [OF assms(3)]] status_later by (simp add: traffic_inv_def)
  qed
qed

lemma traffic_start_inv: "traffic_start s \<Longrightarrow> traffic_inv ck ttl (r_now (tf_redis s)) s"
  by (simp add: traffic_start_def traffic_inv_def fresh_truthful status_ok_def accepted_once_def durable_def
      hash_field_def live_hash_def)

lemma traffic_reachable_inv:
  assumes "traffic_reachable ck ttl mx s0 s"
  shows "traffic_inv ck ttl (r_now (tf_redis s0)) s"
proof -
  from assms have "(traffic_step ck ttl mx)\<^sup>*\<^sup>* s0 s" "0 < ttl" "traffic_start s0" by (simp_all add: traffic_reachable_def)
  then show ?thesis by (induction rule: rtranclp_induct) (auto intro: traffic_start_inv traffic_inv_step)
qed

section \<open>A worker left alone\<close>

lemma put_worker_twice [simp]: "put_worker i w (put_worker i w' s) = put_worker i w s"
  "(put_worker i w s)\<lparr>tf_redis := r\<rparr> = put_worker i w (s\<lparr>tf_redis := r\<rparr>)"
  "(put_worker i w s)\<lparr>tf_c := c\<rparr> = put_worker i w (s\<lparr>tf_c := c\<rparr>)"
  by (simp_all add: put_worker_def)

lemma saved_redis: "s\<lparr>tf_saved := x, tf_redis := y\<rparr> = s\<lparr>tf_redis := y, tf_saved := x\<rparr>"
  by (cases s) simp

lemma put_worker_same: "tf_worker s j = w \<Longrightarrow> put_worker j w s = s"
  by (cases s) (auto simp: put_worker_def)

fun counts :: "redis_command \<Rightarrow> bool" where
  "counts (Hincrby k f d) \<longleftrightarrow> True"
| "counts _ \<longleftrightarrow> False"

definition apply_all :: "redis_command list \<Rightarrow> redis \<Rightarrow> redis" where
  "apply_all cs r = foldl (\<lambda>r c. apply_command c r) r cs"

lemma apply_all_simps [simp]: "apply_all [] r = r" "apply_all (c # cs) r = apply_all cs (apply_command c r)"
  by (simp_all add: apply_all_def)

lemma send_nil: "\<not> counts c \<Longrightarrow> send c (r, []) = (Inr (), apply_command c r, [])"
  by (cases c) (simp_all add: redis_hset_def redis_expire_def redis_zadd_def redis_zrem_def do_zadd_def do_zrem_def)

lemma send_all_nil:
  "list_all (\<lambda>c. \<not> counts c) cs \<Longrightarrow> send_all cs (r, []) = (Inr (), apply_all cs r, [])"
  by (induction cs arbitrary: r) (simp_all add: bnd_def send_nil)

lemma sends_all:
  assumes "list_all (\<lambda>c. \<not> counts c) cs"
  shows "(traffic_step ck ttl mx)\<^sup>*\<^sup>* (put_worker i (Sending cs nxt bad) s)
    (put_worker i nxt (s\<lparr>tf_redis := apply_all cs (tf_redis s)\<rparr>))"
  using assms
proof (induction cs arbitrary: s)
  case Nil
  have "traffic_step ck ttl mx (put_worker i (Sending [] nxt bad) s) (put_worker i nxt (put_worker i (Sending [] nxt bad) s))"
    by (rule traffic_step.has_sent) simp
  then show ?case by simp
next
  case (Cons c cs)
  let ?s = "put_worker i (Sending (c # cs) nxt bad) s" and ?r = "apply_command c (tf_redis s)"
  have "traffic_step ck ttl mx ?s (put_worker i (Sending cs nxt bad) (?s\<lparr>tf_redis := ?r\<rparr>))"
  proof (rule traffic_step.sends)
    show "send c (tf_redis ?s, []) = (Inr (), ?r, [])" using send_nil [of c "tf_redis s"] Cons.prems by simp
  qed simp
  moreover have "(traffic_step ck ttl mx)\<^sup>*\<^sup>* (put_worker i (Sending cs nxt bad) (s\<lparr>tf_redis := ?r\<rparr>))
      (put_worker i nxt (s\<lparr>tf_redis := apply_all (c # cs) (tf_redis s)\<rparr>))"
    using Cons.IH [of "s\<lparr>tf_redis := ?r\<rparr>"] Cons.prems by simp
  ultimately show ?case by (simp add: converse_rtranclp_into_rtranclp)
qed

lemma mark_all:
  assumes "0 < ttl"
  shows "hash_field (apply_all (mark_commands ttl u t st code) r) (pendingHash u t) ''status'' = Some (pending_wire st)"
    "hash_field (apply_all (mark_commands ttl u t st code) r) (pendingHash u t) ''code'' =
      (case code of None \<Rightarrow> hash_field r (pendingHash u t) ''code'' | Some c \<Rightarrow> Some c)"
    "zscore (apply_all (mark_commands ttl u t st code) r) PENDING_ZSET (pendingZsetMember u t) = None"
    "list_all (\<lambda>c. \<not> counts c) (mark_commands ttl u t st code)"
  using assms
  by (auto simp: mark_commands_def hash_field_def live_hash_put live_hash_expire split: option.split)

lemma mark_entry:
  assumes "0 < ttl" "entry r u t = Some en"
  shows "entry (apply_all (mark_commands ttl u t st code) r) u t =
    Some (en\<lparr>en_item := (en_item en)\<lparr>pi_status := pending_wire st\<rparr>, en_score := None\<rparr>)"
  using mark_nil(2) [OF assms, of st code] send_all_nil [OF mark_all(4) [OF assms(1)], of u t st code r]
  by (simp add: markResult_commands)

lemma c_moves_run: "(c_move ck)\<^sup>*\<^sup>* (tf_c s) c' \<Longrightarrow> (traffic_step ck ttl mx)\<^sup>*\<^sup>* s (s\<lparr>tf_c := c'\<rparr>)"
proof (induction rule: rtranclp_induct)
  case base
  then show ?case by (cases s) simp
next
  case (step y z)
  have "traffic_step ck ttl mx (s\<lparr>tf_c := y\<rparr>) (s\<lparr>tf_c := y\<rparr>\<lparr>tf_c := z\<rparr>)"
    by (rule traffic_step.c_works) (simp add: step.hyps(2))
  with step.IH show ?case by (simp add: rtranclp.rtrancl_into_rtrancl)
qed

text \<open>The order of events that loses a result.\<close>

lemma overwriting_run:
  assumes "tf_worker s i = Working (p # ps)" "mx \<le> pi_publishAttempts p"
    and "found_row (pi_userId p) (pi_couponTypeId p) (c_db (tf_c s)) = None"
    and "(c_move ck)\<^sup>*\<^sup>* (tf_c s) c'" "(k, v) \<in> set (c_topic c')" "parse_result (Some v) = Some q"
    and "rs_userId q = pi_userId p" "rs_couponTypeId q = pi_couponTypeId p"
    and "tf_worker s j = Resting"
  shows "(traffic_step ck ttl mx)\<^sup>*\<^sup>* s (put_worker i (Working ps) (s\<lparr>tf_c := c',
    tf_redis := apply_all (mark_commands ttl (pi_userId p) (pi_couponTypeId p) PS_FAILED None)
      (apply_all (mark_commands ttl (pi_userId p) (pi_couponTypeId p) (result_mapStatus (rs_status q)) (rs_couponCode q))
        (tf_redis s))\<rparr>))"
proof -
  let ?u = "pi_userId p" and ?t = "pi_couponTypeId p"
  let ?fail = "mark_commands ttl ?u ?t PS_FAILED None"
  let ?mark = "mark_commands ttl ?u ?t (result_mapStatus (rs_status q)) (rs_couponCode q)"
  let ?giving = "Sending ?fail (Working ps) (Working ps)"
  have ij: "j \<noteq> i" using assms(1,9) by auto
  let ?s1 = "put_worker i ?giving s" and ?s2 = "put_worker i ?giving (s\<lparr>tf_c := c'\<rparr>)"
  let ?r = "apply_all ?mark (tf_redis s)"
  have marks: "list_all (\<lambda>c. \<not> counts c) ?mark" "list_all (\<lambda>c. \<not> counts c) ?fail"
    by (auto simp: mark_commands_def split: option.split)
  have "UserCouponClient_findOne (c_lookup (\<lambda>_. None) (tf_c s) (\<lambda>_. False) (\<lambda>_. [])) ?u ?t = Inr None"
    by (simp add: findOne_answers assms(3))
  from traffic_step.asks [OF assms(1) this, of ck ttl mx] assms(2)
  have 1: "traffic_step ck ttl mx s ?s1" by (simp add: answer_commands_def Let_def)
  have 2: "(traffic_step ck ttl mx)\<^sup>*\<^sup>* ?s1 ?s2" using c_moves_run [of ck ?s1 c' ttl mx] assms(4) by simp
  have 3: "traffic_step ck ttl mx ?s2 (put_worker j (Sending ?mark Resting Resting) ?s2)"
    unfolding assms(7,8) [symmetric]
    by (rule traffic_step.consumes [where k = k and v = v]) (use assms ij in simp_all)
  have 4: "(traffic_step ck ttl mx)\<^sup>*\<^sup>* (put_worker j (Sending ?mark Resting Resting) ?s2)
      (put_worker i ?giving (s\<lparr>tf_c := c', tf_redis := ?r\<rparr>))"
  proof -
    have "put_worker j Resting (?s2\<lparr>tf_redis := ?r\<rparr>) = ?s2\<lparr>tf_redis := ?r\<rparr>"
      by (rule put_worker_same) (simp add: ij assms(9))
    with sends_all [OF marks(1), of ck ttl mx j Resting Resting ?s2] show ?thesis by simp
  qed
  have 5: "(traffic_step ck ttl mx)\<^sup>*\<^sup>* (put_worker i ?giving (s\<lparr>tf_c := c', tf_redis := ?r\<rparr>))
      (put_worker i (Working ps) (s\<lparr>tf_c := c', tf_redis := apply_all ?fail ?r\<rparr>))"
    using sends_all [OF marks(2), of ck ttl mx i "Working ps" "Working ps" "s\<lparr>tf_c := c', tf_redis := ?r\<rparr>"] by simp
  from 1 2 3 4 5 show ?thesis
    by (meson converse_rtranclp_into_rtranclp rtranclp_trans)
qed

section \<open>An example\<close>

text \<open>
  A pair is accepted and swept with a limit of one publish; server-c has not seen the request yet.
\<close>

definition quiet_traffic :: traffic where
  "quiet_traffic = \<lparr>tf_c = shop 5, tf_redis = b_redis (new_b 1000), tf_worker = (\<lambda>_. Resting), tf_saved = []\<rparr>"

definition held_redis :: redis where
  "held_redis = apply_all (save_commands 86400 ''4d2f'' 11 7 3 1000)
     (put_fields (pendingHash 11 3) [(''userId'', dec 11)] (tf_redis quiet_traffic))"

definition held_item :: pending_issue where
  "held_item = \<lparr>pi_requestId = ''4d2f'', pi_userId = 11, pi_eventId = 7, pi_couponTypeId = 3,
     pi_status = pending_wire PS_PENDING, pi_createdAt = 1000, pi_publishAttempts = 1\<rparr>"

definition swept_traffic :: traffic where
  "swept_traffic = put_worker 0 (Working [held_item]) (quiet_traffic\<lparr>tf_redis := held_redis, tf_saved := [(11, 3)]\<rparr>)"

lemma quiet_traffic_start: "traffic_start quiet_traffic"
  by (simp add: traffic_start_def quiet_traffic_def new_b_def fresh_c_def opened_def flagged_def shop_def shop_db_def
      empty_redis_def shop_stock_def db_ok_defs)

lemma save_quiet: "list_all (\<lambda>c. \<not> counts c) (save_commands ttl rid u e t now)"
  by (simp add: save_commands_def)

lemma held_redis_hash:
  "\<exists>h x. live_hash held_redis (pendingHash 11 3) = Some (h, x) \<and> pending_of_hash 11 3 h = Some held_item"
proof -
  have "live_hash (tf_redis quiet_traffic) k = None" for k by (simp add: quiet_traffic_def new_b_def live_hash_def)
  then show ?thesis
    by (simp add: held_redis_def save_commands_def live_hash_expire live_hash_put pending_of_hash_def held_item_def
        parseLongStrict_def one_is_dec)
qed

lemma held_redis_zset: "r_zsets held_redis PENDING_ZSET = [(pendingZsetMember 11 3, 1000)]"
proof -
  have "r_zsets (tf_redis quiet_traffic) PENDING_ZSET = []" by (simp add: quiet_traffic_def new_b_def)
  then show ?thesis by (simp add: held_redis_def save_commands_def) (simp add: do_zadd_def)
qed

lemma held_redis_facts:
  "zrange (r_zsets held_redis PENDING_ZSET) 0 1000 1 = [pendingZsetMember 11 3]"
  "kept_items 11 3 (map_option fst (live_hash held_redis (pendingHash 11 3))) = [held_item]"
  "orphan_commands m (map_option fst (live_hash held_redis (pendingHash 11 3))) = []"
  "r_now held_redis = 1000"
  using held_redis_hash
  by (auto simp: held_redis_zset zrange_def kept_items_def orphan_commands_def)
    (simp add: held_redis_def save_commands_def quiet_traffic_def new_b_def)

lemma swept_reachable: "traffic_reachable id 86400 1 quiet_traffic swept_traffic"
proof -
  let ?step = "traffic_step id 86400 1"
  let ?s1 = "quiet_traffic\<lparr>tf_redis := put_fields (pendingHash 11 3) [(''userId'', dec 11)] (tf_redis quiet_traffic),
    tf_saved := [(11, 3)]\<rparr>"
  let ?s = "quiet_traffic\<lparr>tf_redis := held_redis, tf_saved := [(11, 3)]\<rparr>"
  let ?m = "pendingZsetMember 11 3"
  have rest: "tf_worker quiet_traffic i = Resting" "tf_saved quiet_traffic = []" for i by (simp_all add: quiet_traffic_def)
  have "do_hsetnx (pendingHash 11 3) ''userId'' (dec 11) (tf_redis quiet_traffic) =
      (1, put_fields (pendingHash 11 3) [(''userId'', dec 11)] (tf_redis quiet_traffic))"
    by (simp add: do_hsetnx_def hash_field_def live_hash_def quiet_traffic_def new_b_def)
  from traffic_step.accepts [OF rest(1) this, of id 86400 1 0 "''4d2f''" 7 1000] rest(2)
  have "?step quiet_traffic (put_worker 0 (Sending (save_commands 86400 ''4d2f'' 11 7 3 1000) Resting Resting) ?s1)" by simp
  also have "?step\<^sup>*\<^sup>* \<dots> (put_worker 0 Resting ?s)"
    using sends_all [OF save_quiet, of id 86400 1 0 86400 "''4d2f''" 11 7 3 1000 Resting Resting ?s1]
    by (simp add: held_redis_def saved_redis)
  also have "?step (put_worker 0 Resting ?s) (put_worker 0 (Reading [?m] []) ?s)"
    using traffic_step.sweeps [of "put_worker 0 Resting ?s" 0 id 86400 1 1000 1] by (simp add: held_redis_facts del: One_nat_def)
  also have "?step (put_worker 0 (Reading [?m] []) ?s) (put_worker 0 (Sending [] (Reading [] [held_item]) Resting) ?s)"
    using traffic_step.reads [of "put_worker 0 (Reading [?m] []) ?s" 0 ?m "[]" "[]" 11 3 _ id 86400 1, OF _ _ refl]
    by (simp add: held_redis_facts)
  also have "?step\<^sup>*\<^sup>* (put_worker 0 (Sending [] (Reading [] [held_item]) Resting) ?s) (put_worker 0 (Reading [] [held_item]) ?s)"
    using sends_all [of "[]" id 86400 1 0 "Reading [] [held_item]" Resting ?s] by (simp add: saved_redis)
  also have "?step (put_worker 0 (Reading [] [held_item]) ?s) swept_traffic"
    using traffic_step.has_read [of "put_worker 0 (Reading [] [held_item]) ?s" 0 "[held_item]" id 86400 1]
    by (simp add: swept_traffic_def)
  finally have "?step\<^sup>*\<^sup>* quiet_traffic swept_traffic" .
  then show ?thesis by (simp add: traffic_reachable_def quiet_traffic_start)
qed

text \<open>Meanwhile server-c processes the request and publishes its result.\<close>

lemma shop_answers:
  obtains c' k v q where "(c_move id)\<^sup>*\<^sup>* (shop 5) c'" "(k, v) \<in> set (c_topic c')" "parse_result (Some v) = Some q"
    "rs_userId q = 11" "rs_couponTypeId q = 3" "rs_status q = R_SUCCESS" "rs_couponCode q = Some (CouponCode_generate (\<lambda>_. 0))"
proof -
  let ?p = "sent_request demo_sr demo 11 7 3"
  obtain c' row o' where c': "process id 86400 6000 (\<lambda>_. 0) ?p (shop 5, []) = (Inr (), c', [])"
    "d_outbox (c_db c') = d_outbox (c_db (shop 5)) @ [o']" "o_status o' = OB_PENDING"
    "JSON_parse (o_payload o') = Some (result_json (toResultPayload ?p R_SUCCESS (Some (CouponCode_generate (\<lambda>_. 0))) 6000))"
    "c_topic c' = c_topic (shop 5)" "c_polling c' = c_polling (shop 5)"
    by (rule process_nil [OF demo_serves, of 86400]) blast
  let ?v = "JSON_stringify (request_json ?p)"
  have p: "rq_userId ?p = 11" "rq_couponTypeId ?p = 3" by (simp_all add: sent_request_def)
  have parse: "parse_request (Some ?v) = Some ?p"
    by (simp add: parse_request_json sent_request_def blank_def is_space_def)
  have "final (request_deliver id 86400 10 (\<lambda>_. 6000) (\<lambda>_ _. 0) (Some ?v) (shop 5, [])) = c'"
    using deliver_nil [where parse = parse_request and h = "process_attempt id 86400 (\<lambda>_. 6000) (\<lambda>_ _. 0)" and p = ?p
        and val = "Some ?v" and n = 10 and s = "shop 5" and s' = c'] parse c'(1)
    by (simp add: request_deliver_def process_attempt_def)
  with c_move.c_delivers [where rnd = "\<lambda>_ _. 0" and ck = id and sold_out_ttl = 86400 and n = 10 and clock = "\<lambda>_. 6000"
      and val = "Some ?v" and c = "shop 5" and fs = "[]"]
  have 1: "c_move id (shop 5) c'" by (simp add: valid_rnd_def ALPHABET_def)
  have 2: "c_move id c' (final (poll 100 6500 (c', [])))" by (rule c_polls)
  have "c_topic (final (poll 100 6500 (c', []))) = c_topic c' @ [message_of o']"
    by (rule poll_one [where rows = "[]"]) (use c' demo_quiet in simp_all)
  moreover have "parse_result (Some (o_payload o')) = Some (toResultPayload ?p R_SUCCESS (Some (CouponCode_generate (\<lambda>_. 0))) 6000)"
    using c'(4) assert_result_json [of "toResultPayload ?p R_SUCCESS (Some (CouponCode_generate (\<lambda>_. 0))) 6000"]
    by (simp add: parse_result_def toResultPayload_def)
  ultimately show thesis
    using 1 2 p
    by (intro that [of "final (poll 100 6500 (c', []))" "fst (message_of o')" "o_payload o'"
          "toResultPayload ?p R_SUCCESS (Some (CouponCode_generate (\<lambda>_. 0))) 6000"])
      (auto simp: message_of_def toResultPayload_def intro: rtranclp.rtrancl_into_rtrancl)
qed

text \<open>And a consumer takes it over.\<close>

lemma success_reachable:
  obtains s en where "traffic_reachable id 86400 1 quiet_traffic s" "entry (tf_redis s) 11 3 = Some en"
    "pi_status (en_item en) = ''SUCCESS''"
proof -
  let ?step = "traffic_step id 86400 1"
  obtain c' k v q where c': "(c_move id)\<^sup>*\<^sup>* (shop 5) c'" "(k, v) \<in> set (c_topic c')" "parse_result (Some v) = Some q"
    "rs_userId q = 11" "rs_couponTypeId q = 3" "rs_status q = R_SUCCESS" "rs_couponCode q = Some (CouponCode_generate (\<lambda>_. 0))"
    by (rule shop_answers)
  let ?s = "swept_traffic\<lparr>tf_c := c'\<rparr>"
  let ?cs = "mark_commands 86400 11 3 PS_SUCCESS (rs_couponCode q)"
  have w: "tf_worker ?s 1 = Resting" "tf_redis ?s = held_redis" by (simp_all add: swept_traffic_def quiet_traffic_def)
  have "?step\<^sup>*\<^sup>* swept_traffic ?s"
    using c_moves_run [of id swept_traffic c'] c'(1) by (simp add: swept_traffic_def quiet_traffic_def)
  also have "?step ?s (put_worker 1 (Sending ?cs Resting Resting) ?s)"
    using traffic_step.consumes [OF w(1), of k v q id 86400 1] c'(2-6) by simp
  also have "?step\<^sup>*\<^sup>* \<dots> (put_worker 1 Resting (?s\<lparr>tf_redis := apply_all ?cs (tf_redis ?s)\<rparr>))"
    by (rule sends_all) (simp add: mark_all(4))
  finally have run: "?step\<^sup>*\<^sup>* swept_traffic (put_worker 1 Resting (?s\<lparr>tf_redis := apply_all ?cs held_redis\<rparr>))"
    unfolding w(2) .
  obtain en where "entry held_redis 11 3 = Some en" using held_redis_hash by (auto simp: entry_def)
  from mark_entry [OF _ this, of 86400 PS_SUCCESS "rs_couponCode q"] run swept_reachable show thesis
    by (intro that [of "put_worker 1 Resting (?s\<lparr>tf_redis := apply_all ?cs held_redis\<rparr>)"])
      (auto simp: traffic_reachable_def)
qed

section \<open>Properties\<close>

text \<open>C6. What server-b holds stays true when the commands of its accept calls, consumers and scheduler
  runs interleave in any order, with server-c at work in between, commands failing, workers dying and
  Redis keys expiring: a status SUCCESS rests on a coupon of that user and type in the database of
  server-c, and SOLD_OUT on a result row that says so.\<close>

theorem interleaved_b_tells_the_truth:
  assumes "traffic_reachable ck ttl mx s0 s" "entry (tf_redis s) u t = Some en"
  shows "(pi_status (en_item en) = ''SUCCESS'' \<longrightarrow> (\<exists>r \<in> set (d_user_coupons (c_db (tf_c s))).
      same_user_type (dec u) (dec t) r \<and> u_status r \<in> {UC_SUCCESS, UC_USED})) \<and>
    (pi_status (en_item en) = ''SOLD_OUT'' \<longrightarrow> (\<exists>r \<in> set (d_user_coupons (c_db (tf_c s))).
      same_user_type (dec u) (dec t) r \<and> u_status r = UC_SOLD_OUT))"
proof -
  let ?b = "(new_b 0)\<lparr>b_redis := tf_redis s\<rparr>"
  have "status_ok (tells_true (c_db (tf_c s))) (b_redis ?b)"
    using traffic_invD(2) [OF traffic_reachable_inv [OF assms(1)]] by simp
  from status_ok_held [OF this] assms(2) show ?thesis by (simp add: tells_true_def b_held_def)
qed

theorem interleaved_b_tells_the_truth_witness:
  "\<exists>s en. traffic_reachable id 86400 1 quiet_traffic s \<and> entry (tf_redis s) 11 3 = Some en \<and>
     pi_status (en_item en) = ''SUCCESS'' \<and>
     list_ex (\<lambda>r. same_user_type (dec 11) (dec 3) r \<and> u_status r \<in> {UC_SUCCESS, UC_USED}) (d_user_coupons (c_db (tf_c s)))"
proof -
  obtain s en where s: "traffic_reachable id 86400 1 quiet_traffic s" "entry (tf_redis s) 11 3 = Some en"
    "pi_status (en_item en) = ''SUCCESS''"
    by (rule success_reachable)
  with interleaved_b_tells_the_truth [OF s(1,2)] show ?thesis by (auto simp: list_ex_iff)
qed





end
