(* ===== verification/Lifecycle.thy ===== *)
theory Lifecycle imports C_Consumer B_Results begin

text \<open>
  The two consumers of the system from the start of their service to its end: what the broker sees of
  them, that they come up once their topic exists, and that a shutdown ends whatever the broker does.
\<close>

definition setups :: "env \<Rightarrow> consumer_setup set" where
  "setups env = {request_consumer_setup env, result_consumer_setup env}"

lemma setups_options:
  assumes "su \<in> setups env"
  shows "ro_autoCommit (cs_run su)" "\<not> ro_eachBatchAutoResolve (cs_run su)" "cs_fromBeginning su"
    "cs_topic su \<in> {kt_issueRequest (kafkaTopics_c env), kt_issueResult (kafkaTopics_c env)}"
  using assms kafkaTopics_agree [of env]
  by (auto simp: setups_def request_consumer_setup_def result_consumer_setup_def request_run_options_def
      result_run_options_def)

lemma one_connected:
  assumes "\<forall>c \<in> set (butlast cs). \<not> kc_connected c"
  shows "length (filter kc_connected cs) \<le> 1"
proof (cases cs rule: rev_cases)
  case (snoc ys y)
  with assms have "filter kc_connected ys = []" by (simp add: filter_empty_conv)
  with snoc show ?thesis by simp
qed simp

section \<open>A consumer that meets a broker without topics and is then shut down\<close>

definition bare :: broker where
  "bare = \<lparr>bk_topics = [], bk_admin_open = False, bk_clients = []\<rparr>"

definition no_env :: env where
  "no_env = Map.empty"

definition tried :: "consumer_setup \<Rightarrow> bool \<Rightarrow> kclient" where
  "tried su open = \<lparr>kc_groupId = cs_groupId su, kc_connected = open, kc_subscribed = None, kc_running = None\<rparr>"

definition waiting :: "consumer_setup \<Rightarrow> lifecycle" where
  "waiting su = (onModuleInit bare)\<lparr>lc_broker := bare\<lparr>bk_clients := [tried su False]\<rparr>, lc_start := At_Wait, lc_waits := [1000]\<rparr>"

definition going :: "consumer_setup \<Rightarrow> lifecycle" where
  "going su = (waiting su)\<lparr>lc_stopped := True, lc_shutdown := Awaits_Start\<rparr>"

lemma waiting_lives: "lives lossy su (waiting su)"
proof -
  let ?s = "(onModuleInit bare)\<lparr>lc_broker := bare\<lparr>bk_clients := [tried su True]\<rparr>, lc_start := At_Cleanup\<rparr>"
  have "consumer_start su (lc_broker (onModuleInit bare), []) = (Inl unknown_topic, lc_broker ?s, [])"
    by (simp add: consumer_start_def external_try_def bnd_def onModuleInit_def bare_def on_client_def new_client_def tried_def)
  with lifecycle_step.fails [of "onModuleInit bare" su "[]" unknown_topic "lc_broker ?s" "[]" lossy]
  have 1: "lifecycle_step lossy su (onModuleInit bare) ?s" by (simp add: onModuleInit_def)
  have "consumer_disconnect (lc_broker ?s, []) = (Inr (), lc_broker (waiting su), [])"
    by (simp add: consumer_disconnect_def bnd_def try_catch_def bare_def on_client_def waiting_def tried_def)
  with lifecycle_step.cleans_up [of ?s lossy "[]" "Inr ()" "lc_broker (waiting su)" "[]" su]
  have 2: "lifecycle_step lossy su ?s (waiting su)" by (simp add: onModuleInit_def waiting_def)
  from 1 2 have "(lifecycle_move lossy su)\<^sup>*\<^sup>* (onModuleInit bare) (waiting su)"
    by (meson own r_into_rtranclp rtranclp.rtrancl_into_rtrancl)
  then show ?thesis by (auto simp: lives_def)
qed

lemma going_lives: "lives lossy su (going su)"
proof -
  have "lifecycle_step lossy su (waiting su) (going su)"
    using lifecycle_step.shutdown_called [of "waiting su" lossy su] by (simp add: going_def waiting_def onModuleInit_def)
  with waiting_lives [of lossy su] show ?thesis
    unfolding lives_def by (meson own rtranclp.rtrancl_into_rtrancl)
qed

text \<open>The same consumer, still waiting, after the topics have been created.\<close>

definition awake :: "consumer_setup \<Rightarrow> lifecycle" where
  "awake su = (waiting su)\<lparr>lc_broker := (lc_broker (waiting su))\<lparr>bk_topics :=
     [(kt_issueRequest (kafkaTopics_c no_env), 3, 1), (kt_issueResult (kafkaTopics_c no_env), 3, 1)], bk_admin_open := False\<rparr>\<rparr>"

lemma awake_lives: "lives lossy su (awake su)"
proof -
  obtain b where "(lifecycle_move lossy su)\<^sup>*\<^sup>* (onModuleInit b) (waiting su)"
    using waiting_lives [of lossy su] by (auto simp: lives_def)
  then have "(lifecycle_move lossy su)\<^sup>*\<^sup>* (onModuleInit b) (awake su)"
    unfolding awake_def by (rule rtranclp.rtrancl_into_rtrancl) (rule topics_change)
  then show ?thesis by (auto simp: lives_def)
qed

section \<open>Properties\<close>



text \<open>Once both topics exist, a consumer that is not being shut down can get from wherever it stands to a
  running client within the steps of its own start loop.\<close>

lemma consumer_comes_up:
  assumes "lives lossy su s" "su \<in> setups env" "\<not> lc_stopped s"
    and "{kt_issueRequest (kafkaTopics_c env), kt_issueResult (kafkaTopics_c env)} \<subseteq> fst ` set (bk_topics (lc_broker s))"
  shows "\<exists>s'. (lifecycle_step lossy su)\<^sup>*\<^sup>* s s' \<and> lc_start s' = Start_Returned \<and> bk_clients (lc_broker s') \<noteq> [] \<and>
    consuming su (last (bk_clients (lc_broker s')))"
proof -
  note inv = lifecycle_inv_lives [OF assms(1)]
  have "cs_topic su \<in> fst ` set (bk_topics (lc_broker s))" using setups_options(4) [OF assms(2)] assms(4) by blast
  from gets_going [OF inv assms(3) this] obtain s' where s': "(lifecycle_step lossy su)\<^sup>*\<^sup>* s s'"
      "lc_start s' = Start_Returned" "\<not> lc_stopped s'" by blast
  have "lifecycle_inv lossy su s'"
    using s'(1) inv by (induction rule: rtranclp_induct) (auto intro: lifecycle_inv_step)
  with s' show ?thesis by (auto simp: lifecycle_inv_def Let_def)
qed

lemma consumer_comes_up_witness:
  "\<exists>s'. (lifecycle_step True (request_consumer_setup no_env))\<^sup>*\<^sup>* (awake (request_consumer_setup no_env)) s' \<and>
     lc_start s' = Start_Returned \<and> bk_clients (lc_broker s') \<noteq> [] \<and>
     consuming (request_consumer_setup no_env) (last (bk_clients (lc_broker s')))"
proof (rule consumer_comes_up [OF awake_lives])
  show "request_consumer_setup no_env \<in> setups no_env" by (simp add: setups_def)
  show "\<not> lc_stopped (awake (request_consumer_setup no_env))" by (simp add: awake_def waiting_def onModuleInit_def)
  show "{kt_issueRequest (kafkaTopics_c no_env), kt_issueResult (kafkaTopics_c no_env)} \<subseteq>
      fst ` set (bk_topics (lc_broker (awake (request_consumer_setup no_env))))"
    by (simp add: awake_def)
qed

text \<open>Creating the topics at start-up cannot fail the start and never removes a topic, whatever fails;
  without faults both topics exist afterwards and the connection of the administrator is closed; server-b
  doing the same after server-c changes nothing.\<close>

lemma topics_ensured:
  shows "outcome (ensureTopics_c env (b, fs)) = Inr () \<and>
    set (bk_topics b) \<subseteq> set (bk_topics (final (ensureTopics_c env (b, fs)))) \<and>
    {kt_issueRequest (kafkaTopics_c env), kt_issueResult (kafkaTopics_c env)} \<subseteq>
      fst ` set (bk_topics (final (ensureTopics_c env (b, [])))) \<and>
    \<not> bk_admin_open (final (ensureTopics_c env (b, []))) \<and>
    bk_topics (final (ensureTopics_b env (final (ensureTopics_c env (b, [])), gs))) =
      bk_topics (final (ensureTopics_c env (b, [])))"
proof -
  let ?kt = "kafkaTopics_c env"
  let ?ts = "map (\<lambda>topic. (topic, kt_partitions ?kt, kt_replicationFactor ?kt)) [kt_issueRequest ?kt, kt_issueResult ?kt]"
  have cases: "outcome (ensureTopics ?kt (b, fs)) = Inr () \<and>
      bk_topics (final (ensureTopics ?kt (b, fs))) \<in> {bk_topics b, create_topics ?ts (bk_topics b)}" for b fs
    by (auto simp: ensureTopics_def bnd_def try_catch_def external_def
        split: list.split fault.split sum.split prod.split)
  have all: "bk_topics (final (ensureTopics ?kt (b, []))) = create_topics ?ts (bk_topics b)"
      "\<not> bk_admin_open (final (ensureTopics ?kt (b, [])))"
    by (simp_all add: ensureTopics_def bnd_def try_catch_def)
  have again: "create_topics ?ts (create_topics ?ts (bk_topics b)) = create_topics ?ts (bk_topics b)"
    by (rule create_topics_again) (auto simp: create_topics_all)
  show ?thesis
    unfolding ensureTopics_c_def ensureTopics_b_def kafkaTopics_agree
    using cases [of b fs] cases [of "final (ensureTopics ?kt (b, []))" gs] all again create_topics_keeps [of "bk_topics b" ?ts]
      create_topics_all [of ?ts "bk_topics b"]
    by auto
qed

text \<open>C31. A shutdown ends: once it is called, every step brings the consumer nearer to its end, at most five
  steps are left, and it can always reach it, also when it was called in the middle of a start or of a
  wait.\<close>

theorem consumer_goes_down:
  assumes "lives lossy su s" "lc_stopped s"
  shows "(\<exists>s'. (lifecycle_step lossy su)\<^sup>*\<^sup>* s s' \<and> lc_shutdown s' = Is_Down) \<and>
    steps_left s \<le> 5 \<and> (\<forall>s'. lifecycle_step lossy su s s' \<longrightarrow> steps_left s' < steps_left s)"
proof -
  note inv = lifecycle_inv_lives [OF assms(1)]
  have "steps_left s \<le> 5"
    using inv assms(2) by (auto simp: steps_left_def lifecycle_inv_def Let_def split: start_at.split shutdown_at.split)
  with shuts_down [OF inv assms(2)] stopped_step assms(2) show ?thesis by blast
qed

theorem consumer_goes_down_witness:
  "\<exists>s'. (lifecycle_step True (request_consumer_setup no_env))\<^sup>*\<^sup>* (going (request_consumer_setup no_env)) s' \<and>
     lc_shutdown s' = Is_Down"
  using consumer_goes_down [OF going_lives] by (simp add: going_def)

end
