(* ===== verification/Routes.thy ===== *)
theory Routes imports Http begin

text \<open>
  From the text of a request to a handler and back: the body parser that \<open>main.ts\<close> installs in front of
  Nest (\<open>useEnvelopeAwareBodyParser\<close>), the table of routes that the decorators of the controllers make, and
  the exception filter around them.  What express and Nest do with a body, a path and a numeric
  parameter are parameters, the fields of \<open>framework\<close>; \<open>documented_framework\<close> states what their
  documentation promises and the services rely on.
\<close>

section \<open>Requests\<close>

text \<open>The value of \<open>X-User-Id\<close>, whether the body is declared as JSON, and its text.\<close>

record http_request =
  hq_method :: string
  hq_path :: string
  hq_user :: header
  hq_json :: bool
  hq_text :: string

text \<open>What the two parsers of express make of a body: a value, a \<open>SyntaxError\<close> with the body, another error.\<close>

datatype parse_outcome = Parsed json | Body_Syntax_Error exn | Parser_Error exn

record framework =
  fw_names :: "int \<Rightarrow> string option"
  fw_parse :: "http_request \<Rightarrow> parse_outcome"
  fw_match :: "string \<Rightarrow> string \<Rightarrow> string list option"
  fw_number :: "string \<Rightarrow> string"

section \<open>Paths\<close>

text \<open>The segments of a path; a trailing slash does not count.\<close>

definition segments :: "string \<Rightarrow> string list" where
  "segments path = (let ss = split_on CHR ''/'' path in if last ss = '''' then butlast ss else ss)"

definition is_param :: "string \<Rightarrow> bool" where
  "is_param p \<longleftrightarrow> p \<noteq> '''' \<and> hd p = CHR '':''"

fun seg_match :: "string list \<Rightarrow> string list \<Rightarrow> string list option" where
  "seg_match [] [] = Some []"
| "seg_match (p # ps) (s # ss) =
     (if is_param p then (if s = '''' then None else map_option ((#) s) (seg_match ps ss))
      else if p = s then seg_match ps ss else None)"
| "seg_match _ _ = None"

definition plain_match :: "string \<Rightarrow> string \<Rightarrow> string list option" where
  "plain_match pattern path = seg_match (segments pattern) (segments path)"

definition lower :: "char \<Rightarrow> char" where
  "lower c = (if 65 \<le> (of_char c :: nat) \<and> (of_char c :: nat) \<le> 90 then char_of ((of_char c :: nat) + 32) else c)"

definition loosely :: "string list \<Rightarrow> string list" where
  "loosely ss = map (map lower) ss"

text \<open>
  express takes a pattern of letters and named parameters segment by segment, decodes the values of the
  parameters, and by default overlooks case and a trailing slash.
\<close>

definition plain_pattern :: "string \<Rightarrow> bool" where
  "plain_pattern pattern \<longleftrightarrow>
     list_all (\<lambda>c. c = CHR ''-'' \<or> is_digit c \<or> (97 \<le> (of_char (lower c) :: nat) \<and> (of_char (lower c) :: nat) \<le> 122))
       (concat (map (\<lambda>p. if is_param p then tl p else p) (segments pattern)))"

definition documented_match :: "(string \<Rightarrow> string \<Rightarrow> string list option) \<Rightarrow> bool" where
  "documented_match m \<longleftrightarrow> (\<forall>pattern path. plain_pattern pattern \<longrightarrow>
     (\<forall>vs. plain_match pattern path = Some vs \<and> CHR ''%'' \<notin> set (concat vs) \<longrightarrow> m pattern path = Some vs) \<and>
     (m pattern path \<noteq> None \<longrightarrow> seg_match (loosely (segments pattern)) (loosely (segments path)) \<noteq> None))"

section \<open>What the documentation promises\<close>

text \<open>
  The limit of the JSON parser is 2 MB, and it takes objects and arrays only.  The validation pipe
  with \<open>transform\<close> turns a parameter of type \<open>number\<close> into a number before \<open>ParseLongPipe\<close> sees it:
  \<open>fw_number\<close> gives the text of that number.
\<close>

definition body_limit :: nat where
  "body_limit = 2 * 1024 * 1024"

definition safe_integer :: "int \<Rightarrow> bool" where
  "safe_integer n \<longleftrightarrow> \<bar>n\<bar> < 2 ^ 53"

definition documented_framework :: "framework \<Rightarrow> bool" where
  "documented_framework fw \<longleftrightarrow>
     documented_match (fw_match fw) \<and>
     (\<forall>n. safe_integer n \<longrightarrow> fw_number fw (dec n) = dec n) \<and>
     (\<forall>rq fields. hq_json rq \<and> hq_text rq = JSON_stringify (JObj fields) \<and> wf_json (JObj fields) \<and>
        length (hq_text rq) \<le> body_limit \<longrightarrow> fw_parse fw rq = Parsed (JObj fields)) \<and>
     (\<forall>rq. hq_text rq = '''' \<longrightarrow> (\<exists>body. fw_parse fw rq = Parsed body))"

lemma documentedD:
  assumes "documented_framework fw"
  shows "documented_match (fw_match fw)" "safe_integer n \<Longrightarrow> fw_number fw (dec n) = dec n"
    "hq_json rq \<Longrightarrow> hq_text rq = JSON_stringify (JObj kvs) \<Longrightarrow> wf_json (JObj kvs) \<Longrightarrow>
       length (JSON_stringify (JObj kvs)) \<le> body_limit \<Longrightarrow> fw_parse fw rq = Parsed (JObj kvs)"
    "hq_text rq = '''' \<Longrightarrow> \<exists>body. fw_parse fw rq = Parsed body"
  using assms unfolding documented_framework_def by auto

section \<open>The way of a request\<close>

definition useEnvelopeAwareBodyParser ::
  "parse_outcome \<Rightarrow> (exn + json \<Rightarrow> ('s, exn, response) eff) \<Rightarrow> ('s, exn, response) eff" where
  "useEnvelopeAwareBodyParser parsed next = (case parsed of
      Parsed body \<Rightarrow> next (Inr body)
    | Body_Syntax_Error e \<Rightarrow> (case onParseError True of Some rsp \<Rightarrow> ret rsp | None \<Rightarrow> next (Inl e))
    | Parser_Error e \<Rightarrow> (case onParseError False of Some rsp \<Rightarrow> ret rsp | None \<Rightarrow> next (Inl e)))"

text \<open>A handler gets the parameters of its path, the request and the parsed body.\<close>

record 's route =
  rt_method :: string
  rt_path :: string
  rt_handler :: "string list \<Rightarrow> http_request \<Rightarrow> json \<Rightarrow> ('s, exn, response) eff"

text \<open>\<open>@Controller(prefix)\<close> and \<open>@Get(path)\<close>\<close>

definition route_path :: "string \<Rightarrow> string \<Rightarrow> string" where
  "route_path prefix path = ''/'' @ prefix @ ''/'' @ path"

fun dispatch :: "(string \<Rightarrow> string \<Rightarrow> string list option) \<Rightarrow> 's route list \<Rightarrow> http_request \<Rightarrow>
    ('s route \<times> string list) option" where
  "dispatch m [] rq = None"
| "dispatch m (r # rs) rq =
     (if rt_method r = hq_method rq
      then case m (rt_path r) (hq_path rq) of Some params \<Rightarrow> Some (r, params) | None \<Rightarrow> dispatch m rs rq
      else dispatch m rs rq)"

definition no_route :: "http_request \<Rightarrow> exn" where
  "no_route rq = HttpException 404
     (Body_Object (One_Message (''Cannot '' @ hq_method rq @ '' '' @ hq_path rq))) ''Not Found''"

text \<open>
  What \<open>main.ts\<close> puts together: the routes of the module behind the body parser, the filter, whether the
  shutdown hooks of the providers run on a signal, and the port.
\<close>

record 's server =
  sv_routes :: "'s route list"
  sv_parser :: "parse_outcome \<Rightarrow> (exn + json \<Rightarrow> ('s, exn, response) eff) \<Rightarrow> ('s, exn, response) eff"
  sv_mapDomain :: "exn \<Rightarrow> mapped_error option"
  sv_shutdownHooks :: bool
  sv_port :: int

definition run_route :: "framework \<Rightarrow> 's server \<Rightarrow> http_request \<Rightarrow> exn + json \<Rightarrow> ('s, exn, response) eff" where
  "run_route fw server rq body = respond (fw_names fw) (sv_mapDomain server)
     (bnd (argument body) (\<lambda>json.
      case dispatch (fw_match fw) (sv_routes server) rq of
        None \<Rightarrow> throw (no_route rq)
      | Some (r, params) \<Rightarrow> rt_handler r params rq json))"

definition handle :: "framework \<Rightarrow> 's server \<Rightarrow> http_request \<Rightarrow> ('s, exn, response) eff" where
  "handle fw server rq = sv_parser server (fw_parse fw rq) (run_route fw server rq)"

text \<open>What a signal does: Nest calls the hooks of the providers when they are enabled.\<close>

definition terminate :: "'s server \<Rightarrow> ('s, exn, unit) eff \<Rightarrow> ('s, exn, unit) eff" where
  "terminate server hooks = (if sv_shutdownHooks server then hooks else ret ())"

section \<open>Laws\<close>

lemma dispatch_in:
  "dispatch m rs rq = Some (r, params) \<Longrightarrow> r \<in> set rs \<and> rt_method r = hq_method rq \<and> m (rt_path r) (hq_path rq) = Some params"
  by (induction rs) (auto split: if_splits option.splits)

lemma dispatch_none:
  "(\<And>r. r \<in> set rs \<Longrightarrow> rt_method r = hq_method rq \<Longrightarrow> m (rt_path r) (hq_path rq) = None) \<Longrightarrow> dispatch m rs rq = None"
  by (induction rs) auto

lemma length_seg_match: "seg_match ps ss = Some vs \<Longrightarrow> length ps = length ss"
  by (induction ps ss arbitrary: vs rule: seg_match.induct) (auto split: if_splits)

lemma length_loosely [simp]: "length (loosely ss) = length ss"
  by (simp add: loosely_def)

lemma match_length:
  assumes "documented_match m" "plain_pattern pattern" "length (segments pattern) \<noteq> length (segments path)"
  shows "m pattern path = None"
proof (rule ccontr)
  assume "m pattern path \<noteq> None"
  with assms(1,2) have "seg_match (loosely (segments pattern)) (loosely (segments path)) \<noteq> None"
    by (auto simp: documented_match_def)
  with assms(3) show False using length_seg_match by fastforce
qed

lemma match_plain:
  "documented_match m \<Longrightarrow> plain_pattern pattern \<Longrightarrow> plain_match pattern path = Some vs \<Longrightarrow>
   CHR ''%'' \<notin> set (concat vs) \<Longrightarrow> m pattern path = Some vs"
  unfolding documented_match_def by blast

text \<open>The reference matcher is a documented one.\<close>

lemma lower_colon: "lower c = CHR '':'' \<Longrightarrow> c = CHR '':''"
proof (rule ccontr)
  assume l: "lower c = CHR '':''" and c: "c \<noteq> CHR '':''"
  then have u: "65 \<le> (of_char c :: nat)" "(of_char c :: nat) \<le> 90" "char_of ((of_char c :: nat) + 32) = CHR '':''"
    by (auto simp: lower_def split: if_splits)
  from arg_cong [OF u(3), of "of_char :: char \<Rightarrow> nat"] have "((of_char c :: nat) + 32) mod 256 = 58" by simp
  with u(1,2) show False by simp
qed

lemma seg_match_loosely: "seg_match ps ss = Some vs \<Longrightarrow> seg_match (loosely ps) (loosely ss) \<noteq> None"
proof (induction ps ss arbitrary: vs rule: seg_match.induct)
  case (2 p ps s ss)
  have "is_param (map lower p) = is_param p"
    by (cases p) (auto simp: is_param_def dest: lower_colon, simp add: lower_def)
  with 2 show ?case by (auto simp: loosely_def split: if_splits)
qed (simp_all add: loosely_def)

lemma plain_match_documented: "documented_match plain_match"
  unfolding documented_match_def plain_match_def using seg_match_loosely by blast

text \<open>A framework for concrete requests.\<close>

definition plain_parse :: "http_request \<Rightarrow> parse_outcome" where
  "plain_parse rq = (if hq_text rq = '''' then Parsed (JObj [])
     else case JSON_parse (hq_text rq) of None \<Rightarrow> Body_Syntax_Error (Plain_Error ''Unexpected token'') | Some body \<Rightarrow> Parsed body)"

definition plain_framework :: framework where
  "plain_framework = \<lparr>fw_names = (\<lambda>_. None), fw_parse = plain_parse, fw_match = plain_match, fw_number = (\<lambda>s. s)\<rparr>"

lemma plain_framework_parts [simp]:
  "fw_names plain_framework = (\<lambda>_. None)" "fw_parse plain_framework = plain_parse"
  "fw_match plain_framework = plain_match" "fw_number plain_framework s = s"
  by (simp_all add: plain_framework_def)

lemma plain_framework_documented: "documented_framework plain_framework"
proof -
  have "JSON_stringify (JObj fields) \<noteq> []" for fields by (simp add: JSON_stringify.simps)
  then show ?thesis
    by (auto simp: documented_framework_def plain_match_documented plain_parse_def JSON_parse_stringify simp del: wf_json.simps)
qed

section \<open>Running\<close>

definition with_parser :: "'s server \<Rightarrow> bool" where
  "with_parser server \<longleftrightarrow> sv_parser server = useEnvelopeAwareBodyParser"

lemma handle_parsed: "with_parser server \<Longrightarrow> fw_parse fw rq = Parsed body \<Longrightarrow> handle fw server rq = run_route fw server rq (Inr body)"
  by (simp add: handle_def with_parser_def useEnvelopeAwareBodyParser_def)

lemma handle_routed:
  assumes "with_parser server" "fw_parse fw rq = Parsed body" "dispatch (fw_match fw) (sv_routes server) rq = Some (r, params)"
  shows "handle fw server rq = respond (fw_names fw) (sv_mapDomain server) (rt_handler r params rq body)"
  using assms by (auto simp: handle_parsed run_route_def bnd_def respond_def try_catch_def fun_eq_iff)

lemma handle_syntax_error:
  "with_parser server \<Longrightarrow> fw_parse fw rq = Body_Syntax_Error e \<Longrightarrow> handle fw server rq w = (Inr (failure_response (mapped 400
     (ErrorResponses_of ''MALFORMED_BODY'' ''request body is malformed''))), w)"
  by (cases w) (simp add: handle_def with_parser_def useEnvelopeAwareBodyParser_def onParseError_def)

lemma handle_no_route:
  assumes "with_parser server" "fw_parse fw rq = Parsed body" "dispatch (fw_match fw) (sv_routes server) rq = None"
  shows "handle fw server rq w = (Inr (filter_catch (fw_names fw) (sv_mapDomain server) (no_route rq)), w)"
  using assms by (cases w) (simp add: handle_parsed run_route_def bnd_def respond_def try_catch_def)

text \<open>What every handler of the method keeps, the server keeps.\<close>

lemma keeps_respond:
  "keeps_inv J handler \<Longrightarrow> keeps_inv J (respond names mapDomain handler)"
  unfolding keeps_inv_def respond_final by simp

lemma keeps_handle:
  assumes "with_parser server" "\<And>r params body. r \<in> set (sv_routes server) \<Longrightarrow> rt_method r = hq_method rq \<Longrightarrow>
    keeps_inv J (rt_handler r params rq body)"
  shows "keeps_inv J (handle fw server rq)"
proof -
  have "keeps_inv J (run_route fw server rq body)" for body
  proof -
    have "keeps_inv J (case dispatch (fw_match fw) (sv_routes server) rq of
        None \<Rightarrow> throw (no_route rq) | Some (r, params) \<Rightarrow> rt_handler r params rq json)" for json
      using assms(2) by (cases "dispatch (fw_match fw) (sv_routes server) rq") (auto intro: keeps dest: dispatch_in)
    then show ?thesis unfolding run_route_def by (intro keeps_respond keeps_bnd keeps_argument)
  qed
  then show ?thesis
    using assms(1)
    by (cases "fw_parse fw rq") (auto simp: handle_def with_parser_def useEnvelopeAwareBodyParser_def onParseError_def intro: keeps)
qed

text \<open>Every request is answered.\<close>

lemma handle_answers:
  assumes "with_parser server"
  shows "\<exists>rsp. outcome (handle fw server rq w) = Inr rsp"
proof -
  have "\<exists>rsp. outcome (run_route fw server rq body w) = Inr rsp" for body
    by (cases w) (simp add: run_route_def respond_def try_catch_def split: prod.split sum.split)
  with assms show ?thesis
    by (cases "fw_parse fw rq"; cases w) (auto simp: handle_def with_parser_def useEnvelopeAwareBodyParser_def onParseError_def)
qed

text \<open>A request leaves the state alone or does what the handler of a matching route does.\<close>

lemma handle_final:
  assumes "with_parser server"
  shows "final (handle fw server rq w) = fst w \<or>
   (\<exists>r params body. r \<in> set (sv_routes server) \<and> rt_method r = hq_method rq \<and>
      fw_match fw (rt_path r) (hq_path rq) = Some params \<and>
      final (handle fw server rq w) = final (rt_handler r params rq body w))"
proof (cases "fw_parse fw rq")
  case (Parsed body)
  show ?thesis
  proof (cases "dispatch (fw_match fw) (sv_routes server) rq")
    case None
    with assms Parsed show ?thesis by (simp add: handle_no_route)
  next
    case (Some rp)
    obtain r params where rp: "rp = (r, params)" by (cases rp)
    with assms Parsed Some have "final (handle fw server rq w) = final (rt_handler r params rq body w)"
      by (simp add: handle_routed respond_final)
    with dispatch_in [OF Some [unfolded rp]] show ?thesis by blast
  qed
next
  case (Body_Syntax_Error e)
  with assms show ?thesis by (simp add: handle_syntax_error)
next
  case (Parser_Error e)
  with assms show ?thesis
    by (cases w) (simp add: handle_def with_parser_def useEnvelopeAwareBodyParser_def onParseError_def run_route_def)
qed

end
