(* ===== verification/Operations.thy ===== *)
theory Operations imports Json Redis Http begin

text \<open>
  The operational endpoints: \<open>/actuator/health\<close> of the three services (\<open>health.controller.ts\<close>,
  \<open>actuator.ts\<close>) and the metrics registry (\<open>counters.ts\<close>, \<open>metrics.controller.ts\<close>).  The health
  check of Terminus is a parameter: it returns its status or throws.
\<close>

section \<open>Health\<close>

datatype health_status = UP | DOWN

definition toActuatorHealth :: "string \<Rightarrow> health_status" where
  "toActuatorHealth status = (if status = ''ok'' then UP else DOWN)"

fun health_json :: "health_status \<Rightarrow> json" where
  "health_json UP = JObj [(''status'', JStr ''UP'')]"
| "health_json DOWN = JObj [(''status'', JStr ''DOWN'')]"

definition health_response :: "int \<Rightarrow> health_status \<Rightarrow> response" where
  "health_response status h = \<lparr>rp_status = status, rp_headers = [], rp_body = health_json h\<rparr>"

text \<open>\<open>check\<close> is handed the indicators: the database of server-a and of server-c, nothing for server-b.\<close>

definition health_check_a :: "(string list \<Rightarrow> ('s, exn, string) eff) \<Rightarrow> ('s, exn, response) eff" where
  "health_check_a check = try_catch
     (bnd (check [''mysql-a'']) (\<lambda>result. ret (health_response 200 (toActuatorHealth result))))
     (\<lambda>e. ret (health_response 503 DOWN))"

definition health_check_b :: "(string list \<Rightarrow> ('s, exn, string) eff) \<Rightarrow> ('s, exn, response) eff" where
  "health_check_b check = try_catch
     (bnd (check []) (\<lambda>result. ret (health_response 200 (toActuatorHealth result))))
     (\<lambda>e. ret (health_response 503 DOWN))"

definition health_check_c :: "(string list \<Rightarrow> ('s, exn, string) eff) \<Rightarrow> ('s, exn, response) eff" where
  "health_check_c check = try_catch
     (bnd (check [''mysql-c'']) (\<lambda>result. ret (health_response 200 (toActuatorHealth result))))
     (\<lambda>e. ret (health_response 503 DOWN))"

text \<open>
  A database that does not answer yields 503, and the body is still the one of the actuator, not that
  of Terminus: the exception never reaches a filter.
\<close>

lemma health_down:
  "check [''mysql-a''] (s, fs) = (Inl e, w) \<Longrightarrow> health_check_a check (s, fs) = (Inr (health_response 503 DOWN), w)"
  "check [''mysql-c''] (s, fs) = (Inl e, w) \<Longrightarrow> health_check_c check (s, fs) = (Inr (health_response 503 DOWN), w)"
  by (cases w; simp add: health_check_a_def health_check_c_def try_catch_def bnd_def)+

lemma health_never_throws: "\<exists>rp. outcome (health_check_a check w) = Inr rp"
  by (cases "check [''mysql-a''] w"; cases "fst (check [''mysql-a''] w)")
    (auto simp: health_check_a_def try_catch_def bnd_def)

section \<open>Metrics\<close>

text \<open>The registry: name, help text and value of every counter.\<close>

type_synonym registry = "(string \<times> string \<times> nat) list"

definition already_registered :: "string \<Rightarrow> exn" where
  "already_registered name = Plain_Error (''A metric with the name '' @ name @ '' has already been registered.'')"

definition new_Counter :: "string \<Rightarrow> string \<Rightarrow> registry \<Rightarrow> (exn + string) \<times> registry" where
  "new_Counter name help reg = (if name \<in> fst ` set reg then (Inl (already_registered name), reg)
     else (Inr name, reg @ [(name, help, 0)]))"

definition counter :: "string \<Rightarrow> string \<Rightarrow> registry \<Rightarrow> (exn + string) \<times> registry" where
  "counter name help reg = (case find (\<lambda>m. fst m = name) reg of
      Some existing \<Rightarrow> (Inr (fst existing), reg)
    | None \<Rightarrow> new_Counter name help reg)"

text \<open>\<open>GET /actuator/prometheus\<close>: the text of the registry.\<close>

definition metrics :: "(registry \<Rightarrow> string) \<Rightarrow> registry \<Rightarrow> string" where
  "metrics render reg = render reg"

text \<open>Asking for a counter never throws, keeps what is counted, and asking again changes nothing.\<close>

lemma find_named: "find (\<lambda>m. fst m = name) reg = Some m \<Longrightarrow> fst m = name"
  by (induction reg) (auto split: if_splits)

lemma find_unnamed:
  "find (\<lambda>m. fst m = name) reg = None \<Longrightarrow> name \<notin> fst ` set reg"
  "find (\<lambda>m. fst m = name) reg = None \<Longrightarrow> find (\<lambda>m. fst m = name) (reg @ [(name, v)]) = Some (name, v)"
  by (induction reg) (auto split: if_splits)

lemma counter_some: "find (\<lambda>m. fst m = name) reg = Some m \<Longrightarrow> counter name help reg = (Inr name, reg)"
  by (simp add: counter_def find_named [of name reg m])

lemma counter_none:
  "find (\<lambda>m. fst m = name) reg = None \<Longrightarrow> counter name help reg = (Inr name, reg @ [(name, help, 0)])"
  by (simp add: counter_def new_Counter_def find_unnamed(1))

lemma counter_registers:
  "fst (counter name help reg) = Inr name \<and> take (length reg) (snd (counter name help reg)) = reg \<and>
   counter name help' (snd (counter name help reg)) = (Inr name, snd (counter name help reg))"
proof (cases "find (\<lambda>m. fst m = name) reg")
  case None
  with counter_some [OF find_unnamed(2)] show ?thesis by (simp add: counter_none)
next
  case (Some m)
  then show ?thesis by (simp add: counter_some)
qed

end
