(* ===== verification/Apps.thy ===== *)
theory Apps imports Routes Dto Operations Config System begin

text \<open>
  The three applications as \<open>main.ts\<close> and the root modules put them together: the controllers with the
  routes of their decorators, the validation pipe in front of the handlers, the exception filter and
  the port.  The theorems about the parts are about handlers; here stand the facts that lead from a
  request on the wire to a handler, and the two calls between the services, which must hit the right
  one.
\<close>

section \<open>The controllers\<close>

definition get_route :: "string \<Rightarrow> string \<Rightarrow> (string list \<Rightarrow> http_request \<Rightarrow> json \<Rightarrow> ('s, exn, response) eff) \<Rightarrow> 's route" where
  "get_route prefix path handler = \<lparr>rt_method = ''GET'', rt_path = route_path prefix path, rt_handler = handler\<rparr>"

definition post_route :: "string \<Rightarrow> string \<Rightarrow> (string list \<Rightarrow> http_request \<Rightarrow> json \<Rightarrow> ('s, exn, response) eff) \<Rightarrow> 's route" where
  "post_route prefix path handler = \<lparr>rt_method = ''POST'', rt_path = route_path prefix path, rt_handler = handler\<rparr>"

text \<open>What a process has for its operators: the health check of Terminus and the text of the metrics.\<close>

record 's monitoring =
  mo_check :: "string list \<Rightarrow> ('s, exn, string) eff"
  mo_contentType :: string
  mo_registry :: registry
  mo_render :: "registry \<Rightarrow> string"

definition health_route :: "(('s, exn, response) eff) \<Rightarrow> 's route" where
  "health_route answer = get_route ''actuator'' ''health'' (\<lambda>params rq body. answer)"

text \<open>A text is sent as it is, under its content type.\<close>

definition MetricsController_routes :: "'s monitoring \<Rightarrow> 's route list" where
  "MetricsController_routes mo = [get_route ''actuator'' ''prometheus'' (\<lambda>params rq body.
     ret \<lparr>rp_status = 200, rp_headers = [(''Content-Type'', mo_contentType mo)],
          rp_body = JStr (metrics (mo_render mo) (mo_registry mo))\<rparr>)]"

text \<open>The validation of bodies: the rules of class-validator and their texts.\<close>

record validator =
  va_check :: "rule \<Rightarrow> json option \<Rightarrow> bool"
  va_message :: "string \<Rightarrow> rule \<Rightarrow> string"

definition IssueRequestController_routes :: "validator \<Rightarrow> int \<Rightarrow> surroundings \<Rightarrow> sys route list" where
  "IssueRequestController_routes va ttl sr = [post_route ''api/v1/coupons'' ''issue-request'' (\<lambda>params rq body.
     IssueRequestController_issue (a_issue ttl sr) (hq_user rq) (a_pipe (va_check va) (va_message va) body))]"

text \<open>What a call of server-b is given besides its request.\<close>

record b_surroundings =
  bs_sendTimeoutMs :: int
  bs_fires :: bool
  bs_uuid :: string
  bs_now :: int

definition CouponIssueController_routes :: "validator \<Rightarrow> int \<Rightarrow> b_surroundings \<Rightarrow> bstate route list" where
  "CouponIssueController_routes va ttl bs = [post_route ''internal/v1/coupons'' ''issue'' (\<lambda>params rq body.
     CouponIssueController_issue ttl (bs_sendTimeoutMs bs) (bs_fires bs) (bs_uuid bs) (bs_now bs) (hq_user rq)
       (b_pipe (va_check va) (va_message va) body))]"

definition RedeemCouponController_routes :: "(string \<Rightarrow> string) \<Rightarrow> int \<Rightarrow> cstate route list" where
  "RedeemCouponController_routes ck now = [post_route ''api/v1/coupons'' '':code/redeem'' (\<lambda>params rq body.
     on_db (RedeemCouponController_redeem ck now (params ! 0) (hq_user rq)))]"

definition UserCouponController_routes :: "cstate route list" where
  "UserCouponController_routes = [get_route ''api/v1/users/me'' ''coupons'' (\<lambda>params rq body.
     on_db (UserCouponController_findMine (hq_user rq)))]"

definition UserCouponInternalController_routes :: "framework \<Rightarrow> cstate route list" where
  "UserCouponInternalController_routes fw = [get_route ''internal/v1/users'' '':userId/coupons/:couponTypeId'' (\<lambda>params rq body.
     on_db (UserCouponInternalController_findOne (fw_number fw (params ! 0)) (fw_number fw (params ! 1))))]"

definition EventQueryController_routes :: "framework \<Rightarrow> int \<Rightarrow> cstate route list" where
  "EventQueryController_routes fw event_ttl = [get_route ''api/v1/events'' '':eventId'' (\<lambda>params rq body.
     EventQueryController_findOne event_ttl (fw_number fw (params ! 0)))]"

section \<open>The modules and their servers\<close>

definition ServerAModule_routes :: "validator \<Rightarrow> sys monitoring \<Rightarrow> int \<Rightarrow> surroundings \<Rightarrow> sys route list" where
  "ServerAModule_routes va mo ttl sr =
     IssueRequestController_routes va ttl sr @ [health_route (health_check_a (mo_check mo))] @ MetricsController_routes mo"

definition ServerBModule_routes :: "validator \<Rightarrow> bstate monitoring \<Rightarrow> int \<Rightarrow> b_surroundings \<Rightarrow> bstate route list" where
  "ServerBModule_routes va mo ttl bs =
     CouponIssueController_routes va ttl bs @ [health_route (health_check_b (mo_check mo))] @ MetricsController_routes mo"

definition ServerCModule_routes ::
  "framework \<Rightarrow> cstate monitoring \<Rightarrow> (string \<Rightarrow> string) \<Rightarrow> int \<Rightarrow> int \<Rightarrow> cstate route list" where
  "ServerCModule_routes fw mo ck now event_ttl =
     RedeemCouponController_routes ck now @ UserCouponController_routes @ UserCouponInternalController_routes fw @
     EventQueryController_routes fw event_ttl @ [health_route (health_check_c (mo_check mo))]"

definition bootstrap_a :: "env \<Rightarrow> validator \<Rightarrow> sys monitoring \<Rightarrow> int \<Rightarrow> surroundings \<Rightarrow> sys server" where
  "bootstrap_a env va mo ttl sr = \<lparr>sv_routes = ServerAModule_routes va mo ttl sr,
     sv_parser = useEnvelopeAwareBodyParser, sv_mapDomain = a_mapDomain, sv_shutdownHooks = True,
     sv_port = env_number env ''PORT'' 8080\<rparr>"

definition bootstrap_b :: "env \<Rightarrow> validator \<Rightarrow> bstate monitoring \<Rightarrow> int \<Rightarrow> b_surroundings \<Rightarrow> bstate server" where
  "bootstrap_b env va mo ttl bs = \<lparr>sv_routes = ServerBModule_routes va mo ttl bs,
     sv_parser = useEnvelopeAwareBodyParser, sv_mapDomain = b_mapDomain, sv_shutdownHooks = True,
     sv_port = env_number env ''PORT'' 8081\<rparr>"

definition bootstrap_c ::
  "env \<Rightarrow> framework \<Rightarrow> cstate monitoring \<Rightarrow> (string \<Rightarrow> string) \<Rightarrow> int \<Rightarrow> int \<Rightarrow> cstate server" where
  "bootstrap_c env fw mo ck now event_ttl = \<lparr>sv_routes = ServerCModule_routes fw mo ck now event_ttl,
     sv_parser = useEnvelopeAwareBodyParser, sv_mapDomain = c_mapDomain, sv_shutdownHooks = True,
     sv_port = env_number env ''PORT'' 8082\<rparr>"

text \<open>Where server-b finds server-c.\<close>

definition UserCouponClient_baseUrl :: "env \<Rightarrow> string" where
  "UserCouponClient_baseUrl env = env_or env ''SERVER_C_URL'' ''http://localhost:8082''"

definition UserCouponClient_timeoutMs :: "env \<Rightarrow> int" where
  "UserCouponClient_timeoutMs env = env_number env ''SERVER_C_TIMEOUT_MS'' 1500"

section \<open>Laws\<close>

lemmas controllers = IssueRequestController_routes_def CouponIssueController_routes_def RedeemCouponController_routes_def
  UserCouponController_routes_def UserCouponInternalController_routes_def EventQueryController_routes_def
  MetricsController_routes_def health_route_def get_route_def post_route_def

lemmas modules = ServerAModule_routes_def ServerBModule_routes_def ServerCModule_routes_def

lemma bootstrap_parts [simp]:
  "sv_routes (bootstrap_a env va mo1 ttl sr) = ServerAModule_routes va mo1 ttl sr"
  "sv_routes (bootstrap_b env va mo2 ttl bs) = ServerBModule_routes va mo2 ttl bs"
  "sv_routes (bootstrap_c env fw mo3 ck now event_ttl) = ServerCModule_routes fw mo3 ck now event_ttl"
  "sv_mapDomain (bootstrap_a env va mo1 ttl sr) = a_mapDomain"
  "sv_mapDomain (bootstrap_b env va mo2 ttl bs) = b_mapDomain"
  "sv_mapDomain (bootstrap_c env fw mo3 ck now event_ttl) = c_mapDomain"
  "with_parser (bootstrap_a env va mo1 ttl sr)" "with_parser (bootstrap_b env va mo2 ttl bs)"
  "with_parser (bootstrap_c env fw mo3 ck now event_ttl)"
  by (simp_all add: bootstrap_a_def bootstrap_b_def bootstrap_c_def with_parser_def)

text \<open>On a signal each process runs the shutdown hooks of its providers.\<close>

lemma signal_runs_hooks:
  "terminate (bootstrap_a env va mo1 ttl sr) hooks_a = hooks_a"
  "terminate (bootstrap_b env va mo2 ttl bs) hooks_b = hooks_b"
  "terminate (bootstrap_c env fw mo3 ck now event_ttl) hooks_c = hooks_c"
  by (simp_all add: terminate_def bootstrap_a_def bootstrap_b_def bootstrap_c_def)

lemma route_paths:
  "segments (route_path ''api/v1/coupons'' ''issue-request'') = ['''', ''api'', ''v1'', ''coupons'', ''issue-request'']"
  "segments (route_path ''internal/v1/coupons'' ''issue'') = ['''', ''internal'', ''v1'', ''coupons'', ''issue'']"
  "segments (route_path ''api/v1/coupons'' '':code/redeem'') = ['''', ''api'', ''v1'', ''coupons'', '':code'', ''redeem'']"
  "segments (route_path ''api/v1/users/me'' ''coupons'') = ['''', ''api'', ''v1'', ''users'', ''me'', ''coupons'']"
  "segments (route_path ''internal/v1/users'' '':userId/coupons/:couponTypeId'') =
     ['''', ''internal'', ''v1'', ''users'', '':userId'', ''coupons'', '':couponTypeId'']"
  "segments (route_path ''api/v1/events'' '':eventId'') = ['''', ''api'', ''v1'', ''events'', '':eventId'']"
  "segments (route_path ''actuator'' ''health'') = ['''', ''actuator'', ''health'']"
  "segments (route_path ''actuator'' ''prometheus'') = ['''', ''actuator'', ''prometheus'']"
  by (simp_all add: segments_def route_path_def Let_def)

lemma plain_routes:
  "plain_pattern (route_path ''api/v1/coupons'' ''issue-request'')"
  "plain_pattern (route_path ''internal/v1/coupons'' ''issue'')"
  "plain_pattern (route_path ''api/v1/coupons'' '':code/redeem'')"
  "plain_pattern (route_path ''api/v1/users/me'' ''coupons'')"
  "plain_pattern (route_path ''internal/v1/users'' '':userId/coupons/:couponTypeId'')"
  "plain_pattern (route_path ''api/v1/events'' '':eventId'')"
  "plain_pattern (route_path ''actuator'' ''health'')"
  "plain_pattern (route_path ''actuator'' ''prometheus'')"
  by (simp_all add: plain_pattern_def route_paths is_param_def lower_def is_digit_def)

text \<open>A path with another number of segments does not match.\<close>

lemma match_none:
  assumes "documented_match m"
  shows "length (segments path) \<noteq> 5 \<Longrightarrow> m (route_path ''api/v1/coupons'' ''issue-request'') path = None"
    "length (segments path) \<noteq> 5 \<Longrightarrow> m (route_path ''internal/v1/coupons'' ''issue'') path = None"
    "length (segments path) \<noteq> 6 \<Longrightarrow> m (route_path ''api/v1/coupons'' '':code/redeem'') path = None"
    "length (segments path) \<noteq> 6 \<Longrightarrow> m (route_path ''api/v1/users/me'' ''coupons'') path = None"
    "length (segments path) \<noteq> 7 \<Longrightarrow> m (route_path ''internal/v1/users'' '':userId/coupons/:couponTypeId'') path = None"
    "length (segments path) \<noteq> 5 \<Longrightarrow> m (route_path ''api/v1/events'' '':eventId'') path = None"
    "length (segments path) \<noteq> 3 \<Longrightarrow> m (route_path ''actuator'' ''health'') path = None"
    "length (segments path) \<noteq> 3 \<Longrightarrow> m (route_path ''actuator'' ''prometheus'') path = None"
  by (auto intro!: match_length [OF assms] plain_routes simp: route_paths)

text \<open>The paths of the clients.\<close>

definition issue_request_path :: string where
  "issue_request_path = ''/api/v1/coupons/issue-request''"

text \<open>\<open>HttpCouponIssuingClient\<close> and \<open>UserCouponClient\<close>\<close>

definition internal_issue_path :: string where
  "internal_issue_path = ''/internal/v1/coupons/issue''"

definition redeem_path :: "string \<Rightarrow> string" where
  "redeem_path code = ''/api/v1/coupons/'' @ code @ ''/redeem''"

definition my_coupons_path :: string where
  "my_coupons_path = ''/api/v1/users/me/coupons''"

lemma percent_notin_dec [simp]: "CHR ''%'' \<notin> set (dec n)"
proof -
  have "\<not> is_digit CHR ''%''" by (simp add: is_digit_def)
  then show ?thesis using list_all_nat_dec by (auto simp: dec_def list_all_iff)
qed

lemma client_paths:
  "segments issue_request_path = ['''', ''api'', ''v1'', ''coupons'', ''issue-request'']"
  "segments internal_issue_path = ['''', ''internal'', ''v1'', ''coupons'', ''issue'']"
  "segments my_coupons_path = ['''', ''api'', ''v1'', ''users'', ''me'', ''coupons'']"
  "segments (lookup_path u t) = ['''', ''internal'', ''v1'', ''users'', dec u, ''coupons'', dec t]"
  "CHR ''/'' \<notin> set code \<Longrightarrow> segments (redeem_path code) = ['''', ''api'', ''v1'', ''coupons'', code, ''redeem'']"
  by (simp_all add: segments_def issue_request_path_def internal_issue_path_def my_coupons_path_def lookup_path_def
      redeem_path_def split_on_append split_on_none Let_def)

lemma client_matches:
  assumes "documented_match m"
  shows "m (route_path ''api/v1/coupons'' ''issue-request'') issue_request_path = Some []"
    "m (route_path ''internal/v1/coupons'' ''issue'') internal_issue_path = Some []"
    "m (route_path ''api/v1/users/me'' ''coupons'') my_coupons_path = Some []"
    "m (route_path ''internal/v1/users'' '':userId/coupons/:couponTypeId'') (lookup_path u t) = Some [dec u, dec t]"
    "CHR ''/'' \<notin> set code \<Longrightarrow> CHR ''%'' \<notin> set code \<Longrightarrow> code \<noteq> [] \<Longrightarrow>
       m (route_path ''api/v1/coupons'' '':code/redeem'') (redeem_path code) = Some [code]"
  by (auto intro!: match_plain [OF assms] plain_routes simp: plain_match_def route_paths client_paths is_param_def)

section \<open>Which handler runs\<close>

lemma a_issue_handled:
  assumes "documented_match (fw_match fw)" "fw_parse fw rq = Parsed body"
    and "hq_method rq = ''POST''" "hq_path rq = issue_request_path"
  shows "handle fw (bootstrap_a env va mo ttl sr) rq = respond (fw_names fw) a_mapDomain
    (IssueRequestController_issue (a_issue ttl sr) (hq_user rq) (a_pipe (va_check va) (va_message va) body))"
  by (simp add: handle_parsed [OF _ assms(2)] run_route_def modules controllers assms(3,4) client_matches [OF assms(1)])

lemma b_issue_handled:
  assumes "documented_match (fw_match fw)" "fw_parse fw rq = Parsed body"
    and "hq_method rq = ''POST''" "hq_path rq = internal_issue_path"
  shows "handle fw (bootstrap_b env va mo ttl bs) rq = respond (fw_names fw) b_mapDomain
    (CouponIssueController_issue ttl (bs_sendTimeoutMs bs) (bs_fires bs) (bs_uuid bs) (bs_now bs) (hq_user rq)
       (b_pipe (va_check va) (va_message va) body))"
  by (simp add: handle_parsed [OF _ assms(2)] run_route_def modules controllers assms(3,4) client_matches [OF assms(1)])

lemma c_redeem_handled:
  assumes "documented_match (fw_match fw)" "fw_parse fw rq = Parsed body"
    and "hq_method rq = ''POST''" "hq_path rq = redeem_path code"
    and "CHR ''/'' \<notin> set code" "CHR ''%'' \<notin> set code" "code \<noteq> []"
  shows "handle fw (bootstrap_c env fw' mo ck now event_ttl) rq = respond (fw_names fw) c_mapDomain
    (on_db (RedeemCouponController_redeem ck now code (hq_user rq)))"
  by (simp add: handle_parsed [OF _ assms(2)] run_route_def modules controllers assms(3-) client_matches [OF assms(1)])

lemma c_mine_handled:
  assumes "documented_match (fw_match fw)" "fw_parse fw rq = Parsed body"
    and "hq_method rq = ''GET''" "hq_path rq = my_coupons_path"
  shows "handle fw (bootstrap_c env fw' mo ck now event_ttl) rq = respond (fw_names fw) c_mapDomain
    (on_db (UserCouponController_findMine (hq_user rq)))"
  by (simp add: handle_parsed [OF _ assms(2)] run_route_def modules controllers assms(3,4) client_matches [OF assms(1)])

lemma c_lookup_handled:
  assumes "documented_match (fw_match fw)" "fw_parse fw rq = Parsed body"
    and "hq_method rq = ''GET''" "hq_path rq = lookup_path u t"
  shows "handle fw (bootstrap_c env fw' mo ck now event_ttl) rq = respond (fw_names fw) c_mapDomain
    (on_db (UserCouponInternalController_findOne (fw_number fw' (dec u)) (fw_number fw' (dec t))))"
  by (simp add: handle_parsed [OF _ assms(2)] run_route_def modules controllers assms(3,4) client_matches [OF assms(1)] match_none [OF assms(1)] client_paths)

lemma respond_on_db: "respond names mapDomain (on_db m) = on_db (respond names mapDomain m)"
  by (auto simp: fun_eq_iff respond_def try_catch_def on_db_apply split: prod.split sum.split)

section \<open>What a request can do\<close>

text \<open>The health check of Terminus looks and changes nothing.\<close>

definition pings :: "(string list \<Rightarrow> ('s, exn, string) eff) \<Rightarrow> bool" where
  "pings check \<longleftrightarrow> (\<forall>what s fs. final (check what (s, fs)) = s)"

lemma health_final:
  assumes "pings check"
  shows "final (health_check_a check (s, fs)) = s" "final (health_check_b check (s, fs)) = s"
    "final (health_check_c check (s, fs)) = s"
proof -
  have "final (try_catch (bnd (check what) (\<lambda>result. ret (f result))) (\<lambda>e. ret z) (s, fs)) = s" for what f z
  proof -
    obtain q s' fs' where run: "check what (s, fs) = (q, s', fs')" by (cases "check what (s, fs)")
    with assms have "s' = s" by (metis pings_def fst_conv snd_conv)
    with run show ?thesis by (cases q) (simp_all add: try_catch_def bnd_def)
  qed
  then show "final (health_check_a check (s, fs)) = s" "final (health_check_b check (s, fs)) = s"
    "final (health_check_c check (s, fs)) = s"
    by (simp_all add: health_check_a_def health_check_b_def health_check_c_def)
qed

lemma a_request_final:
  assumes "pings (mo_check mo)"
  shows "final (handle fw (bootstrap_a env va mo ttl sr) rq (s, fs)) = s \<or> (hq_method rq = ''POST'' \<and>
    (\<exists>body. final (handle fw (bootstrap_a env va mo ttl sr) rq (s, fs)) = final (a_endpoint ttl sr (hq_user rq) body (s, fs))))"
  using handle_final [where fw = fw and server = "bootstrap_a env va mo ttl sr" and rq = rq and w = "(s, fs)"]
  by (auto simp: modules controllers health_final [OF assms] a_endpoint_def respond_final)

lemma b_request_final:
  assumes "pings (mo_check mo)"
  shows "final (handle fw (bootstrap_b env va mo ttl bs) rq (b, fs)) = b \<or> hq_method rq = ''POST''"
  using handle_final [where fw = fw and server = "bootstrap_b env va mo ttl bs" and rq = rq and w = "(b, fs)"]
  by (auto simp: modules controllers health_final [OF assms])

lemma mine_final: "final (UserCouponController_findMine user_header (db, fs)) = db"
  by (cases "UserId user_header")
    (simp_all add: UserCouponController_findMine_def UserCouponQueryService_findAllByUserId_def findAllByUserId_def bnd_def
      external_def split: prod.split sum.split list.split fault.split)

lemma internal_final: "final (UserCouponInternalController_findOne user_param type_param (db, fs)) = db"
  by (cases "ParseLongPipe_transform (Some ''userId'') (Some user_param)";
      cases "ParseLongPipe_transform (Some ''couponTypeId'') (Some type_param)")
    (simp_all add: UserCouponInternalController_findOne_def UserCouponQueryService_findByUserIdAndCouponTypeId_def
      findByUserIdAndCouponTypeId_def bnd_def external_def split: prod.split sum.split list.split fault.split option.split)

lemma c_request_final:
  assumes "pings (mo_check mo)"
  shows "final (handle fw (bootstrap_c env fw' mo ck now event_ttl) rq (c, fs)) = c \<or>
    (hq_method rq = ''POST'' \<and> (\<exists>code. final (handle fw (bootstrap_c env fw' mo ck now event_ttl) rq (c, fs)) =
       final (on_db (respond (fw_names fw) c_mapDomain (RedeemCouponController_redeem ck now code (hq_user rq))) (c, fs)))) \<or>
    (hq_method rq = ''GET'' \<and> (\<exists>e. final (handle fw (bootstrap_c env fw' mo ck now event_ttl) rq (c, fs)) =
       final (respond (fw_names fw) c_mapDomain (EventQueryController_findOne event_ttl e) (c, fs))))"
  using handle_final [where fw = fw and server = "bootstrap_c env fw' mo ck now event_ttl" and rq = rq and w = "(c, fs)"]
  by (auto simp: modules controllers health_final [OF assms] on_db_apply mine_final internal_final respond_final)

lemma event_endpoint_same_db:
  "same_db c (final (respond names c_mapDomain (EventQueryController_findOne ttl event_param) (c, fs)))"
proof (cases "ParseLongPipe_transform (Some ''eventId'') (Some event_param)")
  case (Inr e)
  then show ?thesis
    using reads_same_db(2) [of c ttl e fs]
    by (cases "EventQueryService_findById ttl e (c, fs)"; cases "outcome (EventQueryService_findById ttl e (c, fs))")
      (simp_all add: EventQueryController_findOne_def respond_final bnd_def)
qed (simp add: EventQueryController_findOne_def same_db_def)

section \<open>The body of a call fits\<close>

lemma length_nat_dec_bound: "n < 10 ^ Suc k \<Longrightarrow> length (nat_dec n) \<le> Suc k"
proof (induction k arbitrary: n)
  case 0
  then show ?case by (subst nat_dec.simps) simp
next
  case (Suc k)
  then have "n div 10 < 10 ^ Suc k" by (simp add: div_less_iff_less_mult mult.commute)
  from Suc.IH [OF this] show ?case by (subst nat_dec.simps) simp
qed

lemma length_dec: "safe_integer n \<Longrightarrow> length (dec n) \<le> 17"
proof -
  assume "safe_integer n"
  then have "nat n < 10 ^ Suc 15" "nat (- n) < 10 ^ Suc 15" by (simp_all add: safe_integer_def)
  from this [THEN length_nat_dec_bound] show ?thesis by (simp add: dec_def)
qed

lemma ids_fit:
  assumes "safe_integer e" "safe_integer t"
  shows "length (JSON_stringify (JObj [(''eventId'', JNum e), (''couponTypeId'', JNum t)])) \<le> body_limit"
proof -
  have "length (quote ''eventId'') = 9" "length (quote ''couponTypeId'') = 14"
    by (simp_all add: quote_def esc_char_def)
  with length_dec [OF assms(1)] length_dec [OF assms(2)] show ?thesis
    by (simp add: JSON_stringify.simps body_limit_def)
qed

lemma dec_8081: "dec 8081 = ''8081''" "dec 8082 = ''8082''"
  by (simp_all add: dec_def nat_dec.simps digit_char_def char_of_def bit_0)

end
