(* ===== verification/Requests.thy ===== *)
theory Requests imports Apps Example begin

text \<open>
  What requests on the wire do to the three services: they are steps of the system, only POST changes
  anything, the calls between the services arrive, and a coupon that is held can be used over HTTP.
\<close>

section \<open>Examples\<close>

definition quiet_monitoring :: "'s monitoring" where
  "quiet_monitoring = \<lparr>mo_check = (\<lambda>what. ret ''ok''), mo_contentType = ''text/plain'', mo_registry = [],
     mo_render = (\<lambda>registry. '''')\<rparr>"

lemma quiet_pings: "pings (mo_check quiet_monitoring)"
  by (simp add: pings_def quiet_monitoring_def)

definition plain_validator :: validator where
  "plain_validator = \<lparr>va_check = plain_check, va_message = plain_message\<rparr>"

lemma plain_validator_parts [simp]: "va_check plain_validator = plain_check" "va_message plain_validator = plain_message"
  by (simp_all add: plain_validator_def)

text \<open>A request without a body.\<close>

definition call :: "string \<Rightarrow> string \<Rightarrow> int \<Rightarrow> http_request" where
  "call method path u = \<lparr>hq_method = method, hq_path = path, hq_user = One_Header (dec u), hq_json = False, hq_text = ''''\<rparr>"

lemma call_parts [simp]: "hq_method (call method path u) = method" "hq_path (call method path u) = path"
  "hq_user (call method path u) = One_Header (dec u)" "hq_text (call method path u) = []"
  by (simp_all add: call_def)

text \<open>User 11 asks for coupon type 3 of event 7.\<close>

definition demo_body :: json where
  "demo_body = JObj [(''country'', JStr ''KR''), (''eventId'', JNum 7), (''couponTypeId'', JNum 3),
     (''issuedAt'', JStr ''2026-01-01''), (''expireAt'', JStr ''2026-02-01''), (''channel'', JStr ''APP'')]"

definition demo_request :: http_request where
  "demo_request = \<lparr>hq_method = ''POST'', hq_path = issue_request_path, hq_user = One_Header (dec 11), hq_json = True,
     hq_text = JSON_stringify demo_body\<rparr>"

section \<open>A request is a step\<close>



section \<open>Reading changes nothing\<close>

text \<open>C21. Only a POST changes anything: any other request leaves server-a with server-b and server-c
  behind it as they were, and server-b as it was; of server-c at most the event cache changes, not
  the tables and not the topic, whatever fails.\<close>

theorem only_posts_change_anything:
  assumes "hq_method rq \<noteq> ''POST''" "pings (mo_check mo_a)" "pings (mo_check mo_b)" "pings (mo_check mo_c)"
  shows "final (handle fw (bootstrap_a env va mo_a ttl sr) rq (s, fs)) = s \<and>
    final (handle fw (bootstrap_b env va mo_b ttl bs) rq (b, fs)) = b \<and>
    same_db c (final (handle fw (bootstrap_c env fw' mo_c ck now event_ttl) rq (c, fs)))"
proof (intro conjI)
  show "final (handle fw (bootstrap_a env va mo_a ttl sr) rq (s, fs)) = s"
    using a_request_final [OF assms(2)] assms(1) by blast
  show "final (handle fw (bootstrap_b env va mo_b ttl bs) rq (b, fs)) = b"
    using b_request_final [OF assms(3)] assms(1) by blast
  show "same_db c (final (handle fw (bootstrap_c env fw' mo_c ck now event_ttl) rq (c, fs)))"
    using c_request_final [OF assms(4), of fw env fw' ck now event_ttl rq c fs] assms(1) event_endpoint_same_db
    by (auto simp: same_db_def)
qed

theorem only_posts_change_anything_witness:
  "same_db (s_c demo_end) (final (handle plain_framework (bootstrap_c (\<lambda>_. None) plain_framework quiet_monitoring id 8000 60)
     (call ''GET'' my_coupons_path 11) (s_c demo_end, [FailAfter])))"
  using only_posts_change_anything [OF _ quiet_pings quiet_pings quiet_pings, of "call ''GET'' my_coupons_path 11"] by simp

section \<open>Requests that reach nothing\<close>

text \<open>The paths the services serve.\<close>

definition service_paths :: "string list" where
  "service_paths = [route_path ''api/v1/coupons'' ''issue-request'', route_path ''internal/v1/coupons'' ''issue'',
     route_path ''api/v1/coupons'' '':code/redeem'', route_path ''api/v1/users/me'' ''coupons'',
     route_path ''internal/v1/users'' '':userId/coupons/:couponTypeId'', route_path ''api/v1/events'' '':eventId'',
     route_path ''actuator'' ''health'', route_path ''actuator'' ''prometheus'']"

definition serves_no_path :: "string \<Rightarrow> bool" where
  "serves_no_path path \<longleftrightarrow>
     list_all (\<lambda>p. seg_match (loosely (segments p)) (loosely (segments path)) = None) service_paths"

lemma serves_no_path_match:
  assumes "documented_match m" "serves_no_path path" "p \<in> set service_paths"
  shows "m p path = None"
proof (rule ccontr)
  assume "m p path \<noteq> None"
  moreover have "plain_pattern p" using assms(3) by (auto simp: service_paths_def plain_routes)
  ultimately have "seg_match (loosely (segments p)) (loosely (segments path)) \<noteq> None"
    using assms(1) by (auto simp: documented_match_def)
  with assms(2,3) show False by (auto simp: serves_no_path_def list_all_iff)
qed

text \<open>C37. A body that is no JSON is answered 400 \<open>MALFORMED_BODY\<close> by every service, on every path, and a
  request for a path that no controller has is answered 404 in the same envelope; nothing else happens:
  no handler runs, the state and the pending faults are those of before.\<close>

theorem stray_requests_change_nothing:
  assumes "documented_match (fw_match fw)"
    and "case fw_parse fw rq of
        Body_Syntax_Error e \<Rightarrow> answer = failure_response (mapped 400 (ErrorResponses_of ''MALFORMED_BODY'' ''request body is malformed''))
      | Parsed body \<Rightarrow> serves_no_path (hq_path rq) \<and> answer = failure_response (mapped 404
          (ErrorResponses_of (httpStatusCode (fw_names fw) 404) (''Cannot '' @ hq_method rq @ '' '' @ hq_path rq)))
      | Parser_Error e \<Rightarrow> False"
  shows "handle fw (bootstrap_a env va mo_a ttl sr) rq (s, fs) = (Inr answer, s, fs) \<and>
    handle fw (bootstrap_b env va mo_b ttl bs) rq (b, fs) = (Inr answer, b, fs) \<and>
    handle fw (bootstrap_c env fw' mo_c ck now event_ttl) rq (c, fs) = (Inr answer, c, fs)"
proof (cases "fw_parse fw rq")
  case (Parsed body)
  with assms(2) have path: "serves_no_path (hq_path rq)" and answer: "answer = failure_response (mapped 404
      (ErrorResponses_of (httpStatusCode (fw_names fw) 404) (''Cannot '' @ hq_method rq @ '' '' @ hq_path rq)))"
    by simp_all
  note none = serves_no_path_match [OF assms(1) path]
  have a: "dispatch (fw_match fw) (ServerAModule_routes va mo_a ttl sr) rq = None"
    by (rule dispatch_none, rule none) (auto simp: modules controllers service_paths_def)
  have b: "dispatch (fw_match fw) (ServerBModule_routes va mo_b ttl bs) rq = None"
    by (rule dispatch_none, rule none) (auto simp: modules controllers service_paths_def)
  have c: "dispatch (fw_match fw) (ServerCModule_routes fw' mo_c ck now event_ttl) rq = None"
    by (rule dispatch_none, rule none) (auto simp: modules controllers service_paths_def)
  have e: "filter_catch (fw_names fw) a_mapDomain (no_route rq) = answer" "filter_catch (fw_names fw) b_mapDomain (no_route rq) = answer"
    "filter_catch (fw_names fw) c_mapDomain (no_route rq) = answer"
    by (simp_all add: answer no_route_def filter_catch_def a_mapDomain_def b_mapDomain_def c_mapDomain_def or_else_def
        mapHttpException_def http_message_def)
  show ?thesis
    using handle_no_route [OF _ Parsed, of "bootstrap_a env va mo_a ttl sr" "(s, fs)"]
      handle_no_route [OF _ Parsed, of "bootstrap_b env va mo_b ttl bs" "(b, fs)"]
      handle_no_route [OF _ Parsed, of "bootstrap_c env fw' mo_c ck now event_ttl" "(c, fs)"]
    by (simp add: a b c e)
next
  case (Body_Syntax_Error e)
  with assms(2) show ?thesis by (simp add: handle_syntax_error)
qed (use assms(2) in simp)

theorem stray_requests_change_nothing_witness:
  "handle plain_framework (bootstrap_a (\<lambda>_. None) plain_validator quiet_monitoring 86400 demo_sr)
     (demo_request\<lparr>hq_text := ''{oops''\<rparr>) (demo, []) =
   (Inr (failure_response (mapped 400 (ErrorResponses_of ''MALFORMED_BODY'' ''request body is malformed''))), demo, [])"
proof -
  have "JSON_parse ''{oops'' = None" by code_simp
  then have "fw_parse plain_framework (demo_request\<lparr>hq_text := ''{oops''\<rparr>) = Body_Syntax_Error (Plain_Error ''Unexpected token'')"
    by (simp add: plain_parse_def)
  with stray_requests_change_nothing [of plain_framework "demo_request\<lparr>hq_text := ''{oops''\<rparr>"
      "failure_response (mapped 400 (ErrorResponses_of ''MALFORMED_BODY'' ''request body is malformed''))"
      "\<lambda>_. None" plain_validator quiet_monitoring 86400 demo_sr demo "[]"]
  show ?thesis by (simp add: plain_match_documented)
qed

section \<open>The calls between the services\<close>

text \<open>C18. The services reach each other: what the client of server-a does is what server-b, started as
  \<open>main.ts\<close> starts it, does with the request on the wire; what the scheduler of server-b is told is what
  server-c answers to its request; and without settings the base URLs of the clients are those of the ports.\<close>

theorem services_reach_each_other:
  assumes "documented_framework fw" "safe_integer e" "safe_integer t" "safe_integer u"
    and "sr_names sr = fw_names fw" "sr_validate sr = b_pipe (va_check va) (va_message va)" "\<not> lost (lookup_path u t)"
  shows "post_issue ttl sr (dec u) (JObj [(''eventId'', JNum e), (''couponTypeId'', JNum t)]) =
      bnd (gets s_b) (\<lambda>b. over_http (on_b (handle fw
        (bootstrap_b env va mo_b ttl \<lparr>bs_sendTimeoutMs = sr_b_timeout sr, bs_fires = sr_b_fires sr, bs_uuid = sr_b_uuid sr b,
           bs_now = sr_b_now sr b\<rparr>)
        \<lparr>hq_method = ''POST'', hq_path = internal_issue_path, hq_user = One_Header (dec u), hq_json = True,
         hq_text = JSON_stringify (JObj [(''eventId'', JNum e), (''couponTypeId'', JNum t)])\<rparr>))) \<and>
    c_lookup (fw_names fw) c lost fss (lookup_path u t) = reply_of (outcome (handle fw
        (bootstrap_c env fw mo_c ck now event_ttl)
        \<lparr>hq_method = ''GET'', hq_path = lookup_path u t, hq_user = No_Header, hq_json = False, hq_text = ''''\<rparr>
        (c, fss (lookup_path u t)))) \<and>
    ct_baseUrl (HttpCouponIssuingClient_settings (\<lambda>_. None)) =
      ''http://localhost:'' @ dec (sv_port (bootstrap_b (\<lambda>_. None) va mo_b ttl bs)) \<and>
    UserCouponClient_baseUrl (\<lambda>_. None) =
      ''http://localhost:'' @ dec (sv_port (bootstrap_c (\<lambda>_. None) fw mo_c ck now event_ttl))"
proof (intro conjI)
  let ?body = "JObj [(''eventId'', JNum e), (''couponTypeId'', JNum t)]"
  let ?rq = "\<lparr>hq_method = ''POST'', hq_path = internal_issue_path, hq_user = One_Header (dec u), hq_json = True,
         hq_text = JSON_stringify ?body\<rparr>"
  note m = documentedD(1) [OF assms(1)]
  note n = documentedD(2) [OF assms(1) assms(3)] documentedD(2) [OF assms(1) assms(4)]
  have "fw_parse fw ?rq = Parsed ?body"
    by (rule documentedD(3) [OF assms(1)]) (simp_all add: ids_fit [OF assms(2,3)])
  note b = b_issue_handled [OF m this, where env = env and mo = mo_b]
  show "post_issue ttl sr (dec u) ?body = bnd (gets s_b) (\<lambda>b. over_http (on_b (handle fw
        (bootstrap_b env va mo_b ttl \<lparr>bs_sendTimeoutMs = sr_b_timeout sr, bs_fires = sr_b_fires sr, bs_uuid = sr_b_uuid sr b,
           bs_now = sr_b_now sr b\<rparr>) ?rq)))"
    by (simp add: post_issue_def b assms(5,6))
  let ?rq' = "\<lparr>hq_method = ''GET'', hq_path = lookup_path u t, hq_user = No_Header, hq_json = False, hq_text = ''''\<rparr>"
  obtain j where "fw_parse fw ?rq' = Parsed j" using documentedD(4) [OF assms(1), of ?rq'] by auto
  note c = c_lookup_handled [OF m this, where env = env and mo = mo_c and u = u and t = t]
  show "c_lookup (fw_names fw) c lost fss (lookup_path u t) = reply_of (outcome (handle fw
        (bootstrap_c env fw mo_c ck now event_ttl) ?rq' (c, fss (lookup_path u t))))"
    using assms(7) by (simp add: c c_lookup_def internal_params_path n respond_on_db on_db_apply)
  show "ct_baseUrl (HttpCouponIssuingClient_settings (\<lambda>_. None)) =
      ''http://localhost:'' @ dec (sv_port (bootstrap_b (\<lambda>_. None) va mo_b ttl bs))"
    by (simp add: HttpCouponIssuingClient_settings_def bootstrap_b_def env_or_def env_number_def dec_8081)
  show "UserCouponClient_baseUrl (\<lambda>_. None) =
      ''http://localhost:'' @ dec (sv_port (bootstrap_c (\<lambda>_. None) fw mo_c ck now event_ttl))"
    by (simp add: UserCouponClient_baseUrl_def bootstrap_c_def env_or_def env_number_def dec_8081)
qed

theorem services_reach_each_other_witness:
  "c_lookup (\<lambda>_. None) (s_c demo_end) (\<lambda>_. False) (\<lambda>_. []) (lookup_path 11 3) = reply_of (outcome (handle plain_framework
     (bootstrap_c (\<lambda>_. None) plain_framework quiet_monitoring id 8000 60)
     \<lparr>hq_method = ''GET'', hq_path = lookup_path 11 3, hq_user = No_Header, hq_json = False, hq_text = ''''\<rparr> (s_c demo_end, [])))"
proof -
  have "sr_names (demo_sr\<lparr>sr_validate := b_pipe (va_check plain_validator) (va_message plain_validator)\<rparr>) = fw_names plain_framework"
    by (simp add: demo_sr_def)
  from services_reach_each_other [where e = 7 and t = 3 and u = 11 and lost = "\<lambda>_. False" and c = "s_c demo_end" and
      fss = "\<lambda>_. []" and env = "\<lambda>_. None" and mo_c = quiet_monitoring and mo_b = quiet_monitoring and ck = id and
      now = 8000 and event_ttl = 60 and ttl = 86400 and va = plain_validator and bs = "\<lparr>bs_sendTimeoutMs = 3000, bs_fires = False, bs_uuid = [], bs_now = 0\<rparr>", OF plain_framework_documented _ _ _ this]
  show ?thesis by (simp add: safe_integer_def)
qed

end
