(* ===== verification/Vouchers.thy ===== *)
theory Vouchers imports Requests begin

text \<open>
  The life of a coupon over HTTP: whoever holds a coupon that is not used yet can use it with one
  request, sees it as used, and repeating the request changes nothing; and how a numeric parameter of a path
  reaches its handler.
\<close>

section \<open>Using a coupon\<close>

lemma find_by_key: "distinct (map f xs) \<Longrightarrow> x \<in> set xs \<Longrightarrow> find (\<lambda>y. f y = f x) xs = Some x"
  by (induction xs) auto

lemma issued_row:
  assumes "sys_reachable ck ttl s0 s" "row \<in> set (d_user_coupons (c_db (s_c s)))" "u_userId row = dec u" "u_status row = UC_SUCCESS"
  shows "db_ok ck (c_db (s_c s))" "0 < u" "set (u_code row) \<subseteq> set ALPHABET" "length (u_code row) = CODE_LENGTH"
    "row_by_code ck (u_code row) (c_db (s_c s)) = Some row"
proof -
  have inv: "sys_inv ck s" by (rule sys_reachable_inv [OF assms(1)])
  then show ok: "db_ok ck (c_db (s_c s))" by (simp add: sys_inv_def truthful_def c_ok_def)
  from inv assms(2) obtain k v p where "(k, v) \<in> set (b_topic (s_b s))" "parse_request (Some v) = Some p" "asked_by p row"
    by (auto simp: sys_inv_def requested_def)
  moreover have "topic_ok (s_b s)" using inv by (simp add: sys_inv_def b_inv_def)
  ultimately have "good_request p" "dec (rq_userId p) = dec u"
    using assms(3) by (auto simp: topic_ok_def good_request_def parse_request_json asked_by_def)
  then show "0 < u" by (simp add: good_request_def)
  have "CouponCode_of (Some (u_code row)) = Inr (u_code row)"
    using inv assms(2,4) by (auto simp: sys_inv_def truthful_def told_def coded_def)
  then show "set (u_code row) \<subseteq> set ALPHABET" "length (u_code row) = CODE_LENGTH" by (simp_all add: CouponCode_of_Inr)
  have "codes_unique ck (c_db (s_c s))" using ok by (simp add: db_ok_def)
  with find_by_key [OF _ assms(2), of "\<lambda>r. ck (u_code r)"] show "row_by_code ck (u_code row) (c_db (s_c s)) = Some row"
    by (simp add: row_by_code_def codes_unique_def)
qed

definition redeemed :: "string \<Rightarrow> int \<Rightarrow> int \<Rightarrow> bool \<Rightarrow> response" where
  "redeemed code u t new = ok_response (ApiResponses_success (JObj
     [(''code'', JStr code), (''userId'', JNum u), (''redeemedAt'', JStr (toLocalDateTimeString t)), (''newlyRedeemed'', JBool new)]))"

lemma code_in_path:
  assumes "set code \<subseteq> set ALPHABET" "length code = CODE_LENGTH"
  shows "CHR ''/'' \<notin> set code" "CHR ''%'' \<notin> set code" "code \<noteq> []" "\<not> blank code"
proof -
  have "CHR ''/'' \<notin> set ALPHABET" "CHR ''%'' \<notin> set ALPHABET" by (simp_all add: ALPHABET_def)
  with assms(1) show "CHR ''/'' \<notin> set code" "CHR ''%'' \<notin> set code" by blast+
  from assms(2) show "code \<noteq> []" by (auto simp: CODE_LENGTH_def)
  then obtain c where c: "c \<in> set code" by (cases code) auto
  have "\<forall>c \<in> set ALPHABET. \<not> is_space c" by (simp add: ALPHABET_def is_space_def)
  with c assms(1) show "\<not> blank code" by (auto simp: blank_def list_all_iff)
qed

lemma redeem_call_run:
  assumes "documented_framework fw" "set code \<subseteq> set ALPHABET" "length code = CODE_LENGTH" "0 < u" "db_ok ck (c_db c)"
  shows "handle fw (bootstrap_c env fw' mo ck now event_ttl) (call ''POST'' (redeem_path code) u) (c, []) =
    (Inr (case fst (redeem_spec ck now \<lparr>rd_code = code, rd_userId = u\<rparr> (c_db c)) of
        Inl e \<Rightarrow> filter_catch (fw_names fw) c_mapDomain e
      | Inr x \<Rightarrow> ok_response (ApiResponses_success (toRedeemView x))),
     c\<lparr>c_db := snd (redeem_spec ck now \<lparr>rd_code = code, rd_userId = u\<rparr> (c_db c))\<rparr>, [])"
proof -
  note p = code_in_path [OF assms(2,3)]
  obtain j where "fw_parse fw (call ''POST'' (redeem_path code) u) = Parsed j" using documentedD(4) [OF assms(1)] by fastforce
  note h = c_redeem_handled [OF documentedD(1) [OF assms(1)] this _ _ p(1-3)]
  have "RedeemCommand_new (Some code) u = Inr \<lparr>rd_code = code, rd_userId = u\<rparr>"
    using p(4) assms(4) by (simp add: RedeemCommand_new_def)
  from redeem_answer [OF UserId_dec this]
  show ?thesis by (simp add: h respond_on_db on_db_apply redeem_nil [OF assms(5)])
qed

lemma mine_call_run:
  assumes "documented_framework fw"
  shows "handle fw (bootstrap_c env fw' mo ck now event_ttl) (call ''GET'' my_coupons_path u) (c, []) =
    (Inr (ok_response (ApiResponses_success (JArr (map (\<lambda>row. toUserCouponView (UserCouponMapper_toDomain row))
       (sort_key (\<lambda>row. - u_issuedAt row) (filter (\<lambda>row. u_userId row = dec u) (d_user_coupons (c_db c)))))))), c, [])"
proof -
  obtain j where "fw_parse fw (call ''GET'' my_coupons_path u) = Parsed j" using documentedD(4) [OF assms] by fastforce
  note h = c_mine_handled [OF documentedD(1) [OF assms] this]
  show ?thesis
    by (simp add: h respond_on_db on_db_apply UserCouponController_findMine_def UserId_dec bnd_def respond_def try_catch_def
        UserCouponQueryService_findAllByUserId_def findAllByUserId_def comp_def)
qed

text \<open>C12. A coupon that is held can be used: in every reachable state, the holder of a coupon SUCCESS who
  posts to the redeem path of its code is told that it is used now; the same request later is told
  the same time and that it was used before, and changes nothing; the list of the holder's coupons shows it USED at
  that time; and anyone else who posts that code is answered 404, before and after.\<close>

theorem held_coupon_can_be_used:
  assumes "sys_reachable ck ttl s0 s" "row \<in> set (d_user_coupons (c_db (s_c s)))" "u_userId row = dec u" "u_status row = UC_SUCCESS"
    and "documented_framework fw" "0 < other" "other \<noteq> u"
  shows "\<exists>c' views view.
    handle fw (bootstrap_c env fw mo ck now event_ttl) (call ''POST'' (redeem_path (u_code row)) other) (s_c s, []) =
      (Inr (failure_response (mapped 404 (ErrorResponses_of ''NOT_FOUND'' ''coupon not found''))), s_c s, []) \<and>
    handle fw (bootstrap_c env fw mo ck now event_ttl) (call ''POST'' (redeem_path (u_code row)) u) (s_c s, []) =
      (Inr (redeemed (u_code row) u now True), c', []) \<and>
    handle fw (bootstrap_c env fw mo ck later event_ttl) (call ''POST'' (redeem_path (u_code row)) u) (c', []) =
      (Inr (redeemed (u_code row) u now False), c', []) \<and>
    handle fw (bootstrap_c env fw mo ck later event_ttl) (call ''POST'' (redeem_path (u_code row)) other) (c', []) =
      (Inr (failure_response (mapped 404 (ErrorResponses_of ''NOT_FOUND'' ''coupon not found''))), c', []) \<and>
    handle fw (bootstrap_c env fw mo ck later event_ttl) (call ''GET'' my_coupons_path u) (c', []) =
      (Inr (ok_response (ApiResponses_success (JArr views))), c', []) \<and>
    view \<in> set views \<and> jprop ''code'' view = Some (JStr (u_code row)) \<and> jprop ''status'' view = Some (JStr ''USED'') \<and>
    jprop ''usedAt'' view = Some (JStr (toLocalDateTimeString now))"
proof -
  let ?d = "c_db (s_c s)" and ?cmd = "\<lparr>rd_code = u_code row, rd_userId = u\<rparr>" and ?new = "use_row now row"
  let ?d' = "replace_row row ?new ?d"
  note r = issued_row [OF assms(1-4)]
  note run = redeem_call_run [OF assms(5) r(3,4)]
  have mine: "js_Number (u_userId row) = u" by (simp add: assms(3))
  have ok': "db_ok ck ?d'" by (rule db_ok_use_row [OF r(1) assms(4)])
  from redeem_then_replay [OF r(1), of ?cmd row now later] r(5) mine assms(4)
  have spec: "redeem_spec ck now ?cmd ?d = (Inr (RedeemResult_succeeded (u_code row) u now), ?d')"
      "redeem_spec ck later ?cmd ?d' = (Inr (RedeemResult_alreadyRedeemed (u_code row) u now), ?d')"
    by (simp_all add: Let_def redeem_nil [OF r(1)] redeem_nil [OF ok'] prod_eq_iff)
  from spec(2) have row': "\<exists>x. row_by_code ck (u_code row) ?d' = Some x \<and> js_Number (u_userId x) = u"
    by (auto simp: redeem_spec_def split: option.splits if_splits)
  have foreign: "redeem_spec ck t \<lparr>rd_code = u_code row, rd_userId = other\<rparr> d =
      (Inl (coupon_not_found \<lparr>rd_code = u_code row, rd_userId = other\<rparr>), d)"
    if "\<exists>x. row_by_code ck (u_code row) d = Some x \<and> js_Number (u_userId x) = u" for t d
    using that assms(7) by (auto simp: redeem_spec_def)
  have 404: "filter_catch (fw_names fw) c_mapDomain (coupon_not_found x) =
      failure_response (mapped 404 (ErrorResponses_of ''NOT_FOUND'' ''coupon not found''))" for x
    by (simp add: coupon_not_found_def filter_catch_mapped)
  let ?views = "map (\<lambda>row. toUserCouponView (UserCouponMapper_toDomain row))
       (sort_key (\<lambda>row. - u_issuedAt row) (filter (\<lambda>row. u_userId row = dec u) (d_user_coupons ?d')))"
  let ?view = "toUserCouponView (UserCouponMapper_toDomain ?new)"
  have "?new \<in> set (d_user_coupons ?d')" using assms(2) by (auto simp: replace_row_def)
  then have "?view \<in> set ?views" using assms(3) by auto
  moreover have "jprop ''code'' ?view = Some (JStr (u_code row))" "jprop ''status'' ?view = Some (JStr ''USED'')"
      "jprop ''usedAt'' ?view = Some (JStr (toLocalDateTimeString now))"
    by (simp_all add: toUserCouponView_def jprop_JObj UserCouponMapper_toDomain_def toLocalDateTimeStringOrNull_def)
  ultimately show ?thesis
    using run [OF r(2,1)] run [OF r(2), of ck "(s_c s)\<lparr>c_db := ?d'\<rparr>"] run [OF assms(6) r(1)]
      run [OF assms(6), of ck "(s_c s)\<lparr>c_db := ?d'\<rparr>"] ok' r(5) mine row' mine_call_run [OF assms(5)]
    by (intro exI [of _ "(s_c s)\<lparr>c_db := ?d'\<rparr>"] exI [of _ ?views] exI [of _ ?view])
      (simp add: spec foreign 404 redeemed_def toRedeemView_def RedeemResult_succeeded_def RedeemResult_alreadyRedeemed_def)
qed

theorem held_coupon_can_be_used_witness:
  "\<exists>code c'. handle plain_framework (bootstrap_c (\<lambda>_. None) plain_framework quiet_monitoring id 8000 60)
      (call ''POST'' (redeem_path code) 11) (s_c demo_end, []) = (Inr (redeemed code 11 8000 True), c', []) \<and>
    handle plain_framework (bootstrap_c (\<lambda>_. None) plain_framework quiet_monitoring id 9000 60)
      (call ''POST'' (redeem_path code) 11) (c', []) = (Inr (redeemed code 11 8000 False), c', [])"
proof -
  from demo_facts obtain row where "row \<in> set (d_user_coupons (c_db (s_c demo_end)))" "u_userId row = dec 11" "u_status row = UC_SUCCESS"
    by (auto simp: same_user_type_def)
  from held_coupon_can_be_used [OF demo_reachable this plain_framework_documented, of 12 "\<lambda>_. None" quiet_monitoring 8000 60 9000]
  show ?thesis by auto
qed

section \<open>Numbers in a path\<close>

text \<open>
  \<open>ParseLongPipe\<close> is documented to refuse \<open>1e3\<close>.  Behind the validation pipe with \<open>transform\<close> it only sees the
  text of the number that the parameter has been turned into, so that \<open>1e3\<close> is read as 1000.
\<close>

definition event_path :: "string \<Rightarrow> string" where
  "event_path param = ''/api/v1/events/'' @ param"

lemma event_handled:
  assumes "documented_match (fw_match fw)" "fw_parse fw rq = Parsed body"
    and "hq_method rq = ''GET''" "hq_path rq = event_path param"
    and "CHR ''/'' \<notin> set param" "CHR ''%'' \<notin> set param" "param \<noteq> []"
  shows "handle fw (bootstrap_c env fw' mo ck now event_ttl) rq = respond (fw_names fw) c_mapDomain
    (EventQueryController_findOne event_ttl (fw_number fw' param))"
proof -
  have ss: "segments (event_path param) = ['''', ''api'', ''v1'', ''events'', param]"
    using assms(5,7) by (simp add: segments_def event_path_def split_on_none Let_def)
  have "fw_match fw (route_path ''api/v1/events'' '':eventId'') (event_path param) = Some [param]"
    by (rule match_plain [OF assms(1) plain_routes(6)])
      (use assms(6,7) in \<open>simp_all add: plain_match_def route_paths ss is_param_def\<close>)
  then show ?thesis
    by (simp add: handle_parsed [OF _ assms(2)] run_route_def modules controllers assms(3,4) match_none [OF assms(1)] ss)
qed

lemma exponent_is_accepted:
  assumes "documented_framework fw" "fw_number fw ''1e3'' = ''1000''" "fw_number fw ''1000'' = ''1000''"
  shows "handle fw (bootstrap_c env fw mo ck now event_ttl) (call ''GET'' (event_path ''1e3'') u) =
    handle fw (bootstrap_c env fw mo ck now event_ttl) (call ''GET'' (event_path ''1000'') u)"
    "ParseLongPipe_transform (Some ''eventId'') (Some ''1e3'') = Inl (TypeMismatchError ''eventId'')"
proof -
  obtain j j' where "fw_parse fw (call ''GET'' (event_path ''1e3'') u) = Parsed j"
      "fw_parse fw (call ''GET'' (event_path ''1000'') u) = Parsed j'"
    using documentedD(4) [OF assms(1)] by fastforce
  note h = this [THEN event_handled [OF documentedD(1) [OF assms(1)]]]
  show "handle fw (bootstrap_c env fw mo ck now event_ttl) (call ''GET'' (event_path ''1e3'') u) =
      handle fw (bootstrap_c env fw mo ck now event_ttl) (call ''GET'' (event_path ''1000'') u)"
    by (simp add: h(1) [of "''1e3''"] h(2) [of "''1000''"] assms(2,3))
  show "ParseLongPipe_transform (Some ''eventId'') (Some ''1e3'') = Inl (TypeMismatchError ''eventId'')"
    by (simp add: ParseLongPipe_transform_def LONG_PATTERN_def digits1_def is_digit_def)
qed

section \<open>From the text of a request\<close>

text \<open>The circuit is closed, server-b answers in time and draws an identifier that is not blank.\<close>

definition closed_circuit :: "surroundings \<Rightarrow> sys \<Rightarrow> bool" where
  "closed_circuit sr s \<longleftrightarrow> (\<forall>m fs. sr_policy sr m (s, fs) = try_catch m (\<lambda>e. m) (s, fs)) \<and>
     \<not> sr_b_fires sr \<and> \<not> blank (sr_b_uuid sr (s_b s))"

lemma closed_circuit_through:
  assumes "closed_circuit sr s" "sr_validate sr = b_pipe (va_check va) (va_message va)" "documented_rules (va_check va)"
    and "a_pipe (va_check va) (va_message va) body = Inr \<lparr>cd_eventId = e, cd_couponTypeId = t\<rparr>"
  shows "gets_through sr s e t"
  using assms(1) pipe_numbers(3) [OF assms(3,4)] by (simp add: closed_circuit_def gets_through_def assms(2))

lemma shown_to_holder:
  assumes "documented_framework fw" "row \<in> set (d_user_coupons (c_db c))" "u_userId row = dec u"
  shows "\<exists>views view. handle fw (bootstrap_c env fw' mo ck now event_ttl) (call ''GET'' my_coupons_path u) (c, []) =
      (Inr (ok_response (ApiResponses_success (JArr views))), c, []) \<and> view \<in> set views \<and>
    jprop ''code'' view = Some (JStr (u_code row)) \<and> jprop ''status'' view = Some (JStr (user_coupon_wire (u_status row)))"
proof -
  let ?views = "map (\<lambda>row. toUserCouponView (UserCouponMapper_toDomain row))
       (sort_key (\<lambda>row. - u_issuedAt row) (filter (\<lambda>row. u_userId row = dec u) (d_user_coupons (c_db c))))"
  let ?view = "toUserCouponView (UserCouponMapper_toDomain row)"
  have "?view \<in> set ?views" using assms(2,3) by simp
  moreover have "jprop ''code'' ?view = Some (JStr (u_code row))" "jprop ''status'' ?view = Some (JStr (user_coupon_wire (u_status row)))"
    by (simp_all add: toUserCouponView_def jprop_JObj UserCouponMapper_toDomain_def)
  ultimately show ?thesis
    unfolding mine_call_run [OF assms(1)] by (intro exI [of _ ?views] exI [of _ ?view]) simp
qed

lemma demo_body_wf: "wf_json (JObj [(''country'', JStr ''KR''), (''eventId'', JNum 7), (''couponTypeId'', JNum 3),
     (''issuedAt'', JStr ''2026-01-01''), (''expireAt'', JStr ''2026-02-01''), (''channel'', JStr ''APP'')])"
  by simp

lemma demo_body_fits: "length (JSON_stringify (JObj [(''country'', JStr ''KR''), (''eventId'', JNum 7), (''couponTypeId'', JNum 3),
     (''issuedAt'', JStr ''2026-01-01''), (''expireAt'', JStr ''2026-02-01''), (''channel'', JStr ''APP'')])) \<le> body_limit"
  by (simp add: JSON_stringify.simps body_limit_def quote_def esc_char_def dec_def nat_dec.simps)

lemma demo_body_accepted: "a_pipe (va_check plain_validator) (va_message plain_validator) (JObj [(''country'', JStr ''KR''),
     (''eventId'', JNum 7), (''couponTypeId'', JNum 3), (''issuedAt'', JStr ''2026-01-01''), (''expireAt'', JStr ''2026-02-01''),
     (''channel'', JStr ''APP'')]) = Inr \<lparr>cd_eventId = 7, cd_couponTypeId = 3\<rparr>"
  by (simp add: a_pipe_def bodies)

lemma demo_closed: "closed_circuit demo_sr demo"
  by (simp add: closed_circuit_def demo_sr_def retry_once_def blank_def is_space_def)

lemma demo_validates_all: "sr_validate demo_sr = b_pipe (va_check plain_validator) (va_message plain_validator)"
  by (simp add: demo_sr_def demo_validate_def)

lemma demo_names: "sr_names demo_sr = fw_names plain_framework"
  by (simp add: demo_sr_def)

lemma broken_names: "sr_names broken_sr = fw_names plain_framework"
  by (simp add: broken_sr_def demo_sr_def)

end
