(* ===== verification/Answers.thy ===== *)
theory Answers imports Example begin

text \<open>
  What server-a can answer.  \<open>gives P m\<close>: a value of \<open>m\<close> satisfies \<open>P\<close>, whatever fails.
\<close>

definition gives :: "('a \<Rightarrow> bool) \<Rightarrow> ('s, exn, 'a) eff \<Rightarrow> bool" where
  "gives P m \<longleftrightarrow> (\<forall>s fs x w. m (s, fs) = (Inr x, w) \<longrightarrow> P x)"

lemma givesI: "(\<And>s fs x w. m (s, fs) = (Inr x, w) \<Longrightarrow> P x) \<Longrightarrow> gives P m"
  by (simp add: gives_def)

lemma givesD: "gives P m \<Longrightarrow> m (s, fs) = (Inr x, w) \<Longrightarrow> P x"
  unfolding gives_def by blast

lemma gives_bnd:
  assumes "\<And>a. Q a \<Longrightarrow> gives P (f a)" "gives Q m"
  shows "gives P (bnd m f)"
proof (rule givesI)
  fix s fs x w assume b: "bnd m f (s, fs) = (Inr x, w)"
  obtain q s1 f1 where m: "m (s, fs) = (q, s1, f1)" by (cases "m (s, fs)")
  with b obtain a where "q = Inr a" "f a (s1, f1) = (Inr x, w)" by (cases q) (simp_all add: bnd_def)
  with m show "P x" using givesD [OF assms(1)] givesD [OF assms(2)] by blast
qed

lemma gives_try:
  assumes "gives P m" "\<And>e. gives P (h e)"
  shows "gives P (try_catch m h)"
proof (rule givesI)
  fix s fs x w assume t: "try_catch m h (s, fs) = (Inr x, w)"
  obtain q s1 f1 where m: "m (s, fs) = (q, s1, f1)" by (cases "m (s, fs)")
  with t givesD [OF assms(1)] givesD [OF assms(2)] show "P x" by (cases q) (auto simp: try_catch_def)
qed

lemma gives_ret: "P x \<Longrightarrow> gives P (ret x)"
  by (simp add: gives_def ret_def split: prod.splits)

lemma gives_throw: "gives P (throw e)"
  by (simp add: gives_def throw_def split: prod.splits)

lemma gives_any: "gives (\<lambda>_. True) m"
  by (simp add: gives_def)

lemma gives_if: "(c \<Longrightarrow> gives P m) \<Longrightarrow> (\<not> c \<Longrightarrow> gives P n) \<Longrightarrow> gives P (if c then m else n)"
  by simp

section \<open>What server-b answers\<close>

text \<open>The \<open>status\<close> of the body, if any, is that of one of the two acceptances.\<close>

definition b_body :: "json \<Rightarrow> bool" where
  "b_body x \<longleftrightarrow> jprop ''status'' x \<in> {None, Some (JStr ''ACCEPTED''), Some (JStr ''DUPLICATE'')}"

lemma wf_failure_body [simp]: "wf_json (ApiResponses_failure e)"
  by (simp add: ApiResponses_failure_def error_json_def field_error_json_def list_all_iff split: option.split)

lemma failure_b_body: "b_body (ApiResponses_failure e)"
  by (simp add: b_body_def ApiResponses_failure_def jprop_JObj)

lemma filter_body: "\<exists>e. rp_body (filter_catch names f x) = ApiResponses_failure e"
  by (auto simp: filter_catch_def failure_response_def split: option.split exn.split)

lemma accept_gives: "gives (\<lambda>a. ac_status a \<in> {ACCEPTED, DUPLICATE}) (CouponIssueAcceptService_accept ttl tmo fires rid now u e t)"
  unfolding CouponIssueAcceptService_accept_def accept_def Let_def
  by (intro gives_bnd [OF _ gives_any] gives_if gives_ret) (simp_all add: acceptance_duplicate_def acceptance_accepted_def)

lemma controller_gives:
  "gives (\<lambda>rsp. wf_json (rp_body rsp) \<and> b_body (rp_body rsp))
    (respond names b_mapDomain (CouponIssueController_issue ttl tmo fires rid now user_header body))"
proof -
  have "gives (\<lambda>rsp. wf_json (rp_body rsp) \<and> b_body (rp_body rsp))
      (CouponIssueController_issue ttl tmo fires rid now user_header body)"
    unfolding CouponIssueController_issue_def
    by (intro gives_bnd [OF _ gives_any] gives_bnd [OF _ accept_gives] gives_ret)
      (auto simp: ok_response_def b_body_def toIssueResponse_def jprop_JObj split: option.split)
  then show ?thesis
    unfolding respond_def using filter_body [of names b_mapDomain] failure_b_body
    by (intro gives_try gives_ret) (metis wf_failure_body)+
qed

lemma on_b_gives: "gives P m \<Longrightarrow> gives P (on_b m)"
  unfolding gives_def on_b_apply by (metis prod.collapse prod.inject)

lemma over_http_gives:
  assumes "gives (\<lambda>rsp. wf_json (rp_body rsp) \<and> P (rp_body rsp)) endpoint"
  shows "gives P (over_http endpoint)"
proof (rule givesI)
  fix s fs x w assume o: "over_http endpoint (s, fs) = (Inr x, w)"
  have "\<exists>r. axios_result (reply_of (outcome (endpoint (s, r)))) = Inr x"
  proof (cases fs)
    case Nil
    with o show ?thesis
      by (intro exI [of _ "[]"]; cases "endpoint (s, [])") (simp add: over_http_def Let_def)
  next
    case (Cons d r)
    with o show ?thesis
      by (intro exI [of _ r]; cases d; cases "endpoint (s, r)") (simp_all add: over_http_def Let_def)
  qed
  then obtain q w' r where r: "endpoint (s, r) = (q, w')" "axios_result (reply_of q) = Inr x"
    by (metis prod.collapse)
  show "P x"
  proof (cases q)
    case (Inl e)
    with r show ?thesis by (simp add: reply_of_def axios_result_def)
  next
    case (Inr rsp)
    from givesD [OF assms r(1) [unfolded Inr]] r(2) show ?thesis
      by (simp add: Inr reply_of_Inr axios_result_def split: if_splits)
  qed
qed

lemma post_gives: "gives b_body (post_issue ttl sr user body)"
  unfolding post_issue_def by (intro gives_bnd [OF _ gives_any] over_http_gives on_b_gives controller_gives)

section \<open>What the client of server-a makes of it\<close>

definition client_status :: "json \<Rightarrow> bool" where
  "client_status x \<longleftrightarrow> x \<in> {JStr ''ACCEPTED'', JStr ''DUPLICATE'', JStr ''INTERNAL_ERROR''}"

lemma call_gives: "gives (\<lambda>timed. client_status (ds_status (tr_result timed))) (client_call (post_issue ttl sr) ms u e t)"
  unfolding client_call_def
  by (intro gives_bnd [OF _ post_gives] gives_if gives_ret)
    (auto simp: client_status_def downstream_of_def acceptance_internalError_def b_body_def json_or_null_def nullish_def)

lemma policy_gives:
  assumes "breaker_and_retry policy" "gives P m"
  shows "gives P (policy m)"
proof (rule givesI)
  fix s fs x w assume x: "policy m (s, fs) = (Inr x, w)"
  from assms(1) have "policy m (s, fs) \<in> {(Inl BrokenCircuitError, s, fs), try_catch m (\<lambda>e. m) (s, fs)}"
    by (simp add: breaker_and_retry_def)
  with x have "try_catch m (\<lambda>e. m) (s, fs) = (Inr x, w)" by auto
  then show "P x" by (rule givesD [OF gives_try [OF assms(2) assms(2)]])
qed

lemma client_gives:
  assumes "breaker_and_retry (sr_policy sr)"
  shows "gives (\<lambda>d. client_status (ds_status d)) (a_client ttl sr u e t)"
  unfolding a_client_def HttpCouponIssuingClient_issue_def
  by (intro gives_try gives_bnd [OF _ policy_gives [OF assms call_gives]] gives_ret)
    (simp_all add: client_fallback_def downstream_of_def acceptance_internalError_def client_status_def)

lemma mapStatus_client: "client_status x \<Longrightarrow> a_mapStatus x \<noteq> Inr LOG_SOLD_OUT \<and> (\<exists>status. a_mapStatus x = Inr status)"
  by (auto simp: client_status_def a_mapStatus_def)

section \<open>What the endpoint of server-a answers\<close>

definition response_status :: "response \<Rightarrow> json option" where
  "response_status rsp = (case jprop ''data'' (rp_body rsp) of None \<Rightarrow> None | Some d \<Rightarrow> jprop ''status'' d)"

definition issue_response :: "issue_outcome \<Rightarrow> response" where
  "issue_response out = (if isDownstreamUnavailable out
     then \<lparr>rp_status = 503, rp_headers = [(''Retry-After'', ''5'')], rp_body = ApiResponses_success (toIssueCouponView out)\<rparr>
     else \<lparr>rp_status = 200, rp_headers = [], rp_body = ApiResponses_success (toIssueCouponView out)\<rparr>)"

lemma response_status_issue [simp]: "response_status (issue_response out) = Some (io_downstreamStatus out)"
  by (simp add: response_status_def issue_response_def ApiResponses_success_def jprop_JObj toIssueCouponView_def)

lemma issue_response_parts:
  "rp_status (issue_response out) = (if isDownstreamUnavailable out then 503 else 200)"
  "rp_headers (issue_response out) = (if isDownstreamUnavailable out then [(''Retry-After'', ''5'')] else [])"
  by (simp_all add: issue_response_def)

lemma response_status_failure [simp]: "response_status (failure_response m) = None"
  by (simp add: response_status_def failure_response_def ApiResponses_failure_def jprop_JObj)

lemma endpoint_run:
  assumes "UserId user_header = Inr u" "body = Inr request"
  shows "a_endpoint ttl sr user_header body (s, fs) =
    (let (q, w) = a_issue ttl sr \<lparr>ic_userId = u, ic_eventId = cd_eventId request, ic_couponTypeId = cd_couponTypeId request\<rparr> (s, fs)
     in (Inr (case q of Inl e \<Rightarrow> filter_catch (sr_names sr) a_mapDomain e | Inr out \<Rightarrow> issue_response out), w))"
  using assms
  by (cases "a_issue ttl sr \<lparr>ic_userId = u, ic_eventId = cd_eventId request, ic_couponTypeId = cd_couponTypeId request\<rparr> (s, fs)";
      cases "outcome (a_issue ttl sr \<lparr>ic_userId = u, ic_eventId = cd_eventId request, ic_couponTypeId = cd_couponTypeId request\<rparr> (s, fs))")
    (simp_all add: a_endpoint_def IssueRequestController_issue_def respond_def try_catch_def bnd_def issue_response_def)

lemma endpoint_refused:
  assumes "UserId user_header = Inl e \<or> body = Inl e'"
  shows "\<exists>e. a_endpoint ttl sr user_header body (s, fs) = (Inr (filter_catch (sr_names sr) a_mapDomain e), s, fs)"
  using assms
  by (cases "UserId user_header")
    (auto simp: a_endpoint_def IssueRequestController_issue_def respond_def try_catch_def bnd_def)

text \<open>\<open>SOLD_OUT\<close> is told only on a hit of the cache, and server-b is not asked then.\<close>

lemma issue_sold_out_hit:
  assumes "breaker_and_retry (sr_policy sr)" "a_issue ttl sr command (s, fs) = (Inr out, s', fs')"
    and "io_downstreamStatus out = JStr ''SOLD_OUT''"
  shows "live_string (c_redis (s_c s)) (a_couponAvailable (ic_eventId command) (ic_couponTypeId command)) \<noteq> None \<and>
    s_b s' = s_b s \<and> s_c s' = s_c s"
proof (cases rule: a_isSoldOut_run [of "ic_eventId command" "ic_couponTypeId command" s fs])
  case (1 b f1)
  show ?thesis
  proof (cases b)
    case True
    with assms(2) 1 show ?thesis
      by (auto simp: a_issue_def IssueRequestService_issue_def bnd_def save_request_def a_save_run
          split: prod.splits sum.splits)
  next
    case False
    obtain q s1 f2 where c: "a_client ttl sr (ic_userId command) (ic_eventId command) (ic_couponTypeId command) (s, f1) = (q, s1, f2)"
      by (cases "a_client ttl sr (ic_userId command) (ic_eventId command) (ic_couponTypeId command) (s, f1)")
    with assms(2) 1 False obtain d where d: "q = Inr d" "io_downstreamStatus out = ds_status d"
      by (cases q) (auto simp: a_issue_def IssueRequestService_issue_def bnd_def save_request_def a_save_run
          split: prod.splits sum.splits)
    from givesD [OF client_gives [OF assms(1)] c [unfolded d(1)]] assms(3) d(2) show ?thesis
      by (simp add: client_status_def)
  qed
qed

lemma a_key_is_c_key: "a_couponAvailable e t = couponAvailable_key e t"
  by (simp add: a_couponAvailable_def couponAvailable_key_def)

lemma live_flag: "live_string r (a_couponAvailable e t) \<noteq> None \<Longrightarrow> flagged r e t"
  by (auto simp: live_string_def flagged_def a_key_is_c_key split: option.splits)

text \<open>The three ends of a call of the service, at the policy of the deployment.\<close>

lemma a_issue_cases:
  assumes "breaker_and_retry (sr_policy sr)" "a_issue ttl sr command (s, fs) = (q, s', fs')"
  obtains (answered) out status where "q = Inr out" "ir_requestId (io_issueRequest out) = sr_uuid sr"
      "a_mapStatus (io_downstreamStatus out) = Inr status" "logged log_of command (sr_uuid sr) status s s'"
  | (insert_failed) status where "q = Inl mysql_down" "log_of s' = log_of s \<or> logged log_of command (sr_uuid sr) status s s'"
  | (unknown_status) status e where "q = Inl e" "a_mapStatus status = Inl e" "log_of s' = log_of s"
  by (rule issue_service.issue_cases [where sr = sr and ttl = ttl, unfolded documented_same [OF assms(1)],
        OF assms(2) [unfolded a_issue_def]]; (erule (3) answered | erule (1) insert_failed | erule (2) unknown_status))

text \<open>The status, the text and the headers that go with a row of the log.\<close>

definition log_answer :: "issue_request_status \<Rightarrow> int \<times> json option \<times> (string \<times> string) list" where
  "log_answer status = (case status of
      LOG_ACCEPTED \<Rightarrow> (200, Some (JStr ''ACCEPTED''), [])
    | LOG_DUPLICATE \<Rightarrow> (200, Some (JStr ''DUPLICATE''), [])
    | LOG_SOLD_OUT \<Rightarrow> (200, Some (JStr ''SOLD_OUT''), [])
    | LOG_REJECTED \<Rightarrow> (503, Some (JStr ''INTERNAL_ERROR''), [(''Retry-After'', ''5'')]))"

lemma endpoint_answers:
  assumes "breaker_and_retry (sr_policy sr)" "UserId user_header = Inr u"
    and "a_endpoint ttl sr user_header (Inr request) (s, fs) = (q, s', fs')"
    and "command = \<lparr>ic_userId = u, ic_eventId = cd_eventId request, ic_couponTypeId = cd_couponTypeId request\<rparr>"
  shows "\<exists>rsp status. q = Inr rsp \<and>
    (logged log_of command (sr_uuid sr) status s s' \<and>
       log_answer status = (rp_status rsp, response_status rsp, rp_headers rsp) \<or>
     rsp = failure_response internalError \<and> (log_of s' = log_of s \<or> logged log_of command (sr_uuid sr) status s s'))"
proof -
  obtain q1 s1 f1 where i: "a_issue ttl sr command (s, fs) = (q1, s1, f1)" by (cases "a_issue ttl sr command (s, fs)")
  have q: "q = Inr (case q1 of Inl e \<Rightarrow> filter_catch (sr_names sr) a_mapDomain e | Inr out \<Rightarrow> issue_response out)" "s1 = s'"
    using assms(3) i by (simp_all add: endpoint_run [OF assms(2) refl] assms(4))
  from assms(1) i [unfolded q(2)] show ?thesis
  proof (cases rule: a_issue_cases)
    case (answered out status)
    then show ?thesis unfolding q
      by (intro exI [of _ "issue_response out"] exI [of _ status])
        (auto simp: a_mapStatus_def log_answer_def issue_response_parts isDownstreamUnavailable_def split: if_splits)
  next
    case (insert_failed status)
    then show ?thesis unfolding q by (auto simp: mysql_down_def filter_catch_def)
  next
    case (unknown_status x e)
    then show ?thesis unfolding q by (auto simp: a_mapStatus_def filter_catch_def split: if_splits)
  qed
qed

text \<open>The body of every answer is an object without a property twice.\<close>

lemma post_wf: "gives wf_json (post_issue ttl sr user body)"
proof -
  have "gives (\<lambda>rsp. wf_json (rp_body rsp) \<and> wf_json (rp_body rsp))
      (respond (sr_names sr) b_mapDomain (CouponIssueController_issue ttl (sr_b_timeout sr) (sr_b_fires sr)
        (sr_b_uuid sr b) (sr_b_now sr b) (One_Header user) (sr_validate sr body)))" for b
    using controller_gives unfolding gives_def by blast
  then show ?thesis unfolding post_issue_def by (intro gives_bnd [OF _ gives_any] over_http_gives on_b_gives)
qed

lemma wf_jprop: "wf_json x \<Longrightarrow> wf_json (json_or_null (jprop name x))"
  by (cases x) (auto simp: jprop_def json_or_null_def list_all_iff split: option.split dest: map_of_SomeD)

lemma wf_downstream_of: "wf_json (ds_status (downstream_of a)) \<and> wf_json (ds_message (downstream_of a))"
  by (simp add: downstream_of_def string_or_null_def split: option.split)

lemma client_wf:
  assumes "breaker_and_retry (sr_policy sr)"
  shows "gives (\<lambda>d. wf_json (ds_status d) \<and> wf_json (ds_message d)) (a_client ttl sr u e t)"
proof -
  have "gives (\<lambda>timed. wf_json (ds_status (tr_result timed)) \<and> wf_json (ds_message (tr_result timed)))
      (client_call (post_issue ttl sr) ms u e t)" for ms
    unfolding client_call_def
    by (intro gives_bnd [OF _ post_wf] gives_if gives_ret) (simp_all add: wf_downstream_of wf_jprop)
  then show ?thesis
    unfolding a_client_def HttpCouponIssuingClient_issue_def
    by (intro gives_try gives_bnd [OF _ policy_gives [OF assms]] gives_ret)
      (simp_all add: client_fallback_def wf_downstream_of)
qed

lemma wf_issue_response:
  "wf_json (io_downstreamStatus out) \<Longrightarrow> wf_json (io_message out) \<Longrightarrow> wf_json (rp_body (issue_response out))"
  by (simp add: issue_response_def toIssueCouponView_def)

lemma endpoint_wf:
  assumes "breaker_and_retry (sr_policy sr)"
  shows "gives (\<lambda>rsp. wf_json (rp_body rsp)) (a_endpoint ttl sr user_header body)"
proof -
  have out: "gives (\<lambda>out. wf_json (io_downstreamStatus out) \<and> wf_json (io_message out)) (a_issue ttl sr command)" for command
    unfolding a_issue_def IssueRequestService_issue_def
    by (intro gives_bnd [OF _ gives_any] gives_bnd [OF _ client_wf [OF assms]] gives_if gives_ret) simp_all
  have "gives (\<lambda>rsp. wf_json (rp_body rsp)) (IssueRequestController_issue (a_issue ttl sr) user_header body)"
    unfolding IssueRequestController_issue_def issue_response_def [symmetric]
    by (intro gives_bnd [OF _ gives_any] gives_bnd [OF _ out] gives_ret) (simp add: wf_issue_response)
  then show ?thesis
    unfolding a_endpoint_def respond_def using filter_body [of "sr_names sr" a_mapDomain]
    by (intro gives_try gives_ret) (metis wf_failure_body)+
qed

end
