(* ===== verification/Load_Test.thy ===== *)
theory Load_Test imports Vouchers Answers begin

text \<open>
  The scripts that put load on the services (\<open>load-test\<close>): what they send, and how they sort the answers
  into counters.  \<open>env\<close> is k6's \<open>__ENV\<close>; the schedule of k6 is a list of iterations, each with its
  virtual user, its clock and what surrounds the call.
\<close>

section \<open>Settings\<close>

text \<open>\<open>__ENV.NAME || default\<close>: the empty text counts as missing.\<close>

definition setting :: "env \<Rightarrow> string \<Rightarrow> string \<Rightarrow> string" where
  "setting env name dflt = (case env name of None \<Rightarrow> dflt | Some v \<Rightarrow> if v = '''' then dflt else v)"

definition setting_number :: "env \<Rightarrow> string \<Rightarrow> int \<Rightarrow> int" where
  "setting_number env name dflt = (case env name of None \<Rightarrow> dflt | Some v \<Rightarrow> if v = '''' then dflt else js_Number v)"

definition BASE_URL :: "env \<Rightarrow> string" where
  "BASE_URL env = setting env ''BASE_URL'' ''http://localhost:8080''"

definition SERVER_C_BASE_URL :: "env \<Rightarrow> string" where
  "SERVER_C_BASE_URL env = setting env ''SERVER_C_BASE_URL'' ''http://localhost:8082''"

definition ISSUE_ENDPOINT :: string where
  "ISSUE_ENDPOINT = ''/api/v1/coupons/issue-request''"

definition redeemPath :: "string \<Rightarrow> string" where
  "redeemPath code = ''/api/v1/coupons/'' @ code @ ''/redeem''"

definition EVENT_ID :: "env \<Rightarrow> int" where
  "EVENT_ID env = setting_number env ''EVENT_ID'' 1"

definition COUPON_TYPE_ID :: "env \<Rightarrow> int" where
  "COUPON_TYPE_ID env = setting_number env ''COUPON_TYPE_ID'' 1"

section \<open>What is sent\<close>

definition ONE_MONTH_MS :: int where
  "ONE_MONTH_MS = 30 * 24 * 60 * 60 * 1000"

definition load_fields :: "int \<Rightarrow> int \<Rightarrow> int \<Rightarrow> (string \<times> json) list" where
  "load_fields now eventId couponTypeId =
     [(''country'', JStr ''KR''), (''eventId'', JNum eventId), (''couponTypeId'', JNum couponTypeId),
      (''issuedAt'', JStr (toISOString now)), (''expireAt'', JStr (toISOString (now + ONE_MONTH_MS))),
      (''channel'', JStr ''APP''), (''deviceId'', JStr ''k6-device''), (''clientVersion'', JStr ''1.0.0''),
      (''language'', JStr ''ko''), (''marketingConsent'', JBool True)]"

definition buildBody :: "int \<Rightarrow> int \<Rightarrow> int \<Rightarrow> string" where
  "buildBody now eventId couponTypeId = JSON_stringify (JObj (load_fields now eventId couponTypeId))"

definition buildHeaders :: "int \<Rightarrow> (string \<times> string) list" where
  "buildHeaders userId = [(''X-User-Id'', dec userId), (''Content-Type'', ''application/json'')]"

definition buildRedeemHeaders :: "int \<Rightarrow> (string \<times> string) list" where
  "buildRedeemHeaders userId = [(''X-User-Id'', dec userId)]"

text \<open>The request that \<open>http.post\<close> makes of a path, a body and headers.\<close>

definition http_post :: "string \<Rightarrow> string \<Rightarrow> (string \<times> string) list \<Rightarrow> http_request" where
  "http_post path body headers = \<lparr>hq_method = ''POST'', hq_path = path,
     hq_user = (case map_of headers ''X-User-Id'' of None \<Rightarrow> No_Header | Some v \<Rightarrow> One_Header v),
     hq_json = (map_of headers ''Content-Type'' = Some ''application/json''), hq_text = body\<rparr>"

text \<open>The three scenarios; \<open>vu\<close> is \<open>__VU\<close> and \<open>iter\<close> is \<open>__ITER\<close>.\<close>

definition issue_userId :: "int \<Rightarrow> int \<Rightarrow> int" where
  "issue_userId vu iter = vu * 100000 + iter + 1"

definition issue_iteration_request :: "env \<Rightarrow> int \<Rightarrow> int \<Rightarrow> int \<Rightarrow> http_request" where
  "issue_iteration_request env now vu iter = http_post ISSUE_ENDPOINT
     (buildBody now (EVENT_ID env) (COUPON_TYPE_ID env)) (buildHeaders (issue_userId vu iter))"

definition smoke_request :: "env \<Rightarrow> int \<Rightarrow> http_request" where
  "smoke_request env now = http_post ISSUE_ENDPOINT (buildBody now (EVENT_ID env) (COUPON_TYPE_ID env)) (buildHeaders now)"

definition direct_userId :: "int \<Rightarrow> int \<Rightarrow> int" where
  "direct_userId vu iter = vu * 1000000 + iter + 1"

definition direct_request :: "int \<Rightarrow> int \<Rightarrow> http_request" where
  "direct_request vu iter = http_post ''/internal/v1/coupons/issue''
     (JSON_stringify (JObj [(''eventId'', JNum 1), (''couponTypeId'', JNum 1)]))
     [(''X-User-Id'', dec (direct_userId vu iter)), (''Content-Type'', ''application/json'')]"

text \<open>The constant arrival rate of the load: calls per second, seconds and virtual users.\<close>

record arrival_rate =
  ar_rate :: nat
  ar_seconds :: nat
  ar_preAllocatedVUs :: nat
  ar_maxVUs :: nat

definition steady_1k :: arrival_rate where
  "steady_1k = \<lparr>ar_rate = 1000, ar_seconds = 60, ar_preAllocatedVUs = 200, ar_maxVUs = 500\<rparr>"

section \<open>How answers are counted\<close>

record counters =
  issue_accepted :: nat
  issue_duplicate :: nat
  issue_sold_out :: nat
  issue_internal_error :: nat
  issue_other :: nat

definition no_counts :: counters where
  "no_counts = \<lparr>issue_accepted = 0, issue_duplicate = 0, issue_sold_out = 0, issue_internal_error = 0, issue_other = 0\<rparr>"

text \<open>\<open>parsed && parsed.data ? parsed.data.status : null\<close>\<close>

definition data_status :: "string \<Rightarrow> json" where
  "data_status text = (case JSON_parse text of
      None \<Rightarrow> JNull
    | Some parsed \<Rightarrow> (case jprop ''data'' parsed of None \<Rightarrow> JNull | Some d \<Rightarrow> json_or_null (jprop ''status'' d)))"

definition count_answer :: "int \<Rightarrow> string \<Rightarrow> counters \<Rightarrow> counters" where
  "count_answer status text k =
     (if status = 200 \<and> data_status text = JStr ''ACCEPTED'' then k\<lparr>issue_accepted := issue_accepted k + 1\<rparr>
      else if status = 200 \<and> data_status text = JStr ''DUPLICATE'' then k\<lparr>issue_duplicate := issue_duplicate k + 1\<rparr>
      else if status = 200 \<and> data_status text = JStr ''SOLD_OUT'' then k\<lparr>issue_sold_out := issue_sold_out k + 1\<rparr>
      else if status = 503 then k\<lparr>issue_internal_error := issue_internal_error k + 1\<rparr>
      else k\<lparr>issue_other := issue_other k + 1\<rparr>)"

definition issue_check :: "int \<Rightarrow> bool" where
  "issue_check status \<longleftrightarrow> status = 200 \<or> status = 503"

definition smoke_checks :: "int \<Rightarrow> string \<Rightarrow> bool" where
  "smoke_checks status text \<longleftrightarrow> status = 200 \<and>
     (case JSON_parse text of None \<Rightarrow> False | Some body \<Rightarrow>
        jprop ''success'' body = Some (JBool True) \<and>
        (case jprop ''data'' body of None \<Rightarrow> False | Some d \<Rightarrow>
          jprop ''status'' d \<in> {Some (JStr ''ACCEPTED''), Some (JStr ''DUPLICATE'')} \<and>
          (case jprop ''requestId'' d of Some (JStr r) \<Rightarrow> True | _ \<Rightarrow> False)))"

definition direct_check :: "int \<Rightarrow> bool" where
  "direct_check status \<longleftrightarrow> status = 200"

section \<open>A run\<close>

record iteration =
  it_vu :: int
  it_iter :: int
  it_now :: int
  it_sr :: surroundings
  it_faults :: "fault list"

definition run_iteration ::
  "env \<Rightarrow> framework \<Rightarrow> env \<Rightarrow> validator \<Rightarrow> sys monitoring \<Rightarrow> int \<Rightarrow> iteration \<Rightarrow> sys \<times> counters \<Rightarrow> sys \<times> counters" where
  "run_iteration k6 fw env va mo ttl it w = (case w of (s, k) \<Rightarrow>
     (case handle fw (bootstrap_a env va mo ttl (it_sr it)) (issue_iteration_request k6 (it_now it) (it_vu it) (it_iter it))
        (s, it_faults it) of (q, s', fs') \<Rightarrow>
       (s', case q of Inl e \<Rightarrow> count_answer 0 '''' k
            | Inr rsp \<Rightarrow> count_answer (rp_status rsp) (JSON_stringify (rp_body rsp)) k)))"

definition run_load ::
  "env \<Rightarrow> framework \<Rightarrow> env \<Rightarrow> validator \<Rightarrow> sys monitoring \<Rightarrow> int \<Rightarrow> iteration list \<Rightarrow> sys \<Rightarrow> sys \<times> counters" where
  "run_load k6 fw env va mo ttl its s = fold (run_iteration k6 fw env va mo ttl) its (s, no_counts)"

section \<open>Laws\<close>

text \<open>The scripts and the services mean the same paths, and the same port by default.\<close>

lemma load_paths: "ISSUE_ENDPOINT = issue_request_path" "redeemPath = redeem_path"
  "hq_path (direct_request vu iter) = internal_issue_path"
  by (simp_all add: ISSUE_ENDPOINT_def issue_request_path_def redeemPath_def redeem_path_def fun_eq_iff
      direct_request_def http_post_def internal_issue_path_def)

lemma load_ports:
  "BASE_URL (\<lambda>_. None) = ''http://localhost:'' @ dec (sv_port (bootstrap_a (\<lambda>_. None) va mo_a ttl sr))"
  "SERVER_C_BASE_URL (\<lambda>_. None) = ''http://localhost:'' @ dec (sv_port (bootstrap_c (\<lambda>_. None) fw mo_c ck now event_ttl))"
proof -
  have "dec 8080 = ''8080''" by (simp add: dec_def nat_dec.simps digit_char_def char_of_def bit_0)
  then show "BASE_URL (\<lambda>_. None) = ''http://localhost:'' @ dec (sv_port (bootstrap_a (\<lambda>_. None) va mo_a ttl sr))"
    "SERVER_C_BASE_URL (\<lambda>_. None) = ''http://localhost:'' @ dec (sv_port (bootstrap_c (\<lambda>_. None) fw mo_c ck now event_ttl))"
    by (simp_all add: BASE_URL_def SERVER_C_BASE_URL_def setting_def bootstrap_a_def bootstrap_c_def env_number_def dec_8081)
qed

text \<open>No two calls of a run are made for the same user, as long as no virtual user makes 100000 of them.\<close>

lemma issue_userId_inject:
  assumes "0 \<le> i" "i < 100000" "0 \<le> j" "j < 100000"
  shows "issue_userId vu i = issue_userId vu' j \<longleftrightarrow> vu = vu' \<and> i = j"
proof -
  have "(v * 100000 + k) div 100000 = v" if "0 \<le> k" "k < 100000" for v k :: int
    using that by simp
  from this [OF assms(1,2), of vu] this [OF assms(3,4), of vu'] show ?thesis
    unfolding issue_userId_def by (metis add_left_cancel add_right_cancel)
qed

text \<open>The steady load makes 60000 calls: all its users are different.\<close>

lemma steady_users_distinct:
  assumes "distinct calls" "list_all (\<lambda>(vu, iter). 0 \<le> iter \<and> iter < int (ar_rate steady_1k * ar_seconds steady_1k)) calls"
  shows "distinct (map (\<lambda>(vu, iter). issue_userId vu iter) calls)"
proof -
  have few: "0 \<le> i \<and> i < 100000" if "(v, i) \<in> set calls" for v i
    using assms(2) that by (auto simp: list_all_iff steady_1k_def)
  have "inj_on (\<lambda>(vu, iter). issue_userId vu iter) (set calls)"
  proof (rule inj_onI, clarsimp)
    fix v i v' i' assume "(v, i) \<in> set calls" "(v', i') \<in> set calls" "issue_userId v i = issue_userId v' i'"
    with few [of v i] few [of v' i'] show "v = v' \<and> i = i'" by (simp add: issue_userId_inject)
  qed
  with assms(1) show ?thesis by (simp add: distinct_map)
qed

text \<open>What else is documented of the rules: the length of a text, and that ISO 8601 accepts \<open>toISOString\<close>.\<close>

definition documented_texts :: "(rule \<Rightarrow> json option \<Rightarrow> bool) \<Rightarrow> bool" where
  "documented_texts check \<longleftrightarrow> (\<forall>n s. check (MaxLength n) (Some (JStr s)) \<longleftrightarrow> length s \<le> n) \<and>
     (\<forall>t. check IsISO8601 (Some (JStr (toISOString t))))"

lemma plain_check_texts: "documented_texts plain_check"
  by (simp add: documented_texts_def)

lemma iso_ne [simp]: "toISOString t \<noteq> []"
  by (simp add: toISOString_def)

lemma load_body_accepted:
  assumes "documented_rules check" "documented_texts check" "0 < e" "0 < t"
  shows "a_pipe check message (JObj (load_fields now e t)) = Inr \<lparr>cd_eventId = e, cd_couponTypeId = t\<rparr>"
proof -
  have "validate check message IssueCouponRequestDto (JObj (load_fields now e t)) = []"
    using assms
    by (auto simp: validate_nil IssueCouponRequestDto_def violated_nil load_fields_def jprop_JObj documented_rules_def documented_texts_def)
  then show ?thesis by (simp add: a_pipe_def the_number_def load_fields_def jprop_JObj)
qed

lemma load_fields_wf: "wf_json (JObj (load_fields now e t))"
  by (simp add: load_fields_def)

lemma data_status_body: "wf_json (rp_body rsp) \<Longrightarrow>
    data_status (JSON_stringify (rp_body rsp)) = json_or_null (response_status rsp)"
  by (simp add: data_status_def JSON_parse_stringify response_status_def json_or_null_def split: option.split)

section \<open>The counters and the log\<close>

text \<open>The rows with a status.\<close>

definition logged_as :: "issue_request_status \<Rightarrow> log_row list \<Rightarrow> nat" where
  "logged_as status rows = length (filter (\<lambda>row. l_status row = status) rows)"

fun counted_as :: "issue_request_status \<Rightarrow> counters \<Rightarrow> nat" where
  "counted_as LOG_ACCEPTED k = issue_accepted k"
| "counted_as LOG_DUPLICATE k = issue_duplicate k"
| "counted_as LOG_SOLD_OUT k = issue_sold_out k"
| "counted_as LOG_REJECTED k = issue_internal_error k"

definition all_counted :: "counters \<Rightarrow> nat" where
  "all_counted k = issue_accepted k + issue_duplicate k + issue_sold_out k + issue_internal_error k + issue_other k"

lemma count_known:
  assumes "log_answer status = (rp_status rsp, response_status rsp, rp_headers rsp)" "wf_json (rp_body rsp)"
  shows "counted_as st (count_answer (rp_status rsp) (JSON_stringify (rp_body rsp)) k) =
      counted_as st k + (if st = status then 1 else 0)"
    "issue_other (count_answer (rp_status rsp) (JSON_stringify (rp_body rsp)) k) = issue_other k"
    "all_counted (count_answer (rp_status rsp) (JSON_stringify (rp_body rsp)) k) = Suc (all_counted k)"
proof -
  have "rp_status rsp = fst (log_answer status)" "response_status rsp = fst (snd (log_answer status))"
    using assms(1) by simp_all
  then have count: "count_answer (rp_status rsp) (JSON_stringify (rp_body rsp)) k = (case status of
        LOG_ACCEPTED \<Rightarrow> k\<lparr>issue_accepted := issue_accepted k + 1\<rparr>
      | LOG_DUPLICATE \<Rightarrow> k\<lparr>issue_duplicate := issue_duplicate k + 1\<rparr>
      | LOG_SOLD_OUT \<Rightarrow> k\<lparr>issue_sold_out := issue_sold_out k + 1\<rparr>
      | LOG_REJECTED \<Rightarrow> k\<lparr>issue_internal_error := issue_internal_error k + 1\<rparr>)"
    by (cases status) (simp_all add: log_answer_def count_answer_def data_status_body [OF assms(2)] json_or_null_def)
  show "counted_as st (count_answer (rp_status rsp) (JSON_stringify (rp_body rsp)) k) =
      counted_as st k + (if st = status then 1 else 0)"
    unfolding count by (cases status; cases st) simp_all
  show "issue_other (count_answer (rp_status rsp) (JSON_stringify (rp_body rsp)) k) = issue_other k"
    unfolding count by (cases status) simp_all
  show "all_counted (count_answer (rp_status rsp) (JSON_stringify (rp_body rsp)) k) = Suc (all_counted k)"
    unfolding count by (cases status) (simp_all add: all_counted_def)
qed

lemma count_other:
  "counted_as st (count_answer 500 text k) = counted_as st k"
  "issue_other (count_answer 500 text k) = Suc (issue_other k)"
  "all_counted (count_answer 500 text k) = Suc (all_counted k)"
  by (cases st) (simp_all add: count_answer_def all_counted_def)

text \<open>A failed check of the load test is an answer that is counted as other.\<close>

lemma failed_check_counts_as_other: "\<not> issue_check status \<Longrightarrow> count_answer status text k = k\<lparr>issue_other := issue_other k + 1\<rparr>"
  by (simp add: issue_check_def count_answer_def)

text \<open>The smoke test passes exactly on the answers that say ACCEPTED or DUPLICATE.\<close>

lemma smoke_passes:
  assumes "wf_json (io_downstreamStatus out)" "wf_json (io_message out)" "a_mapStatus (io_downstreamStatus out) = Inr status"
  shows "smoke_checks (rp_status (issue_response out)) (JSON_stringify (rp_body (issue_response out))) \<longleftrightarrow>
    status \<in> {LOG_ACCEPTED, LOG_DUPLICATE}"
proof -
  note parse = JSON_parse_stringify [OF wf_issue_response [OF assms(1,2)]]
  show ?thesis
    using assms(3) unfolding smoke_checks_def parse
    by (auto simp: issue_response_def ApiResponses_success_def toIssueCouponView_def jprop_JObj a_mapStatus_def
        isDownstreamUnavailable_def split: if_splits)
qed

text \<open>What one iteration does to the log and to the counters.\<close>

lemma iteration_runs:
  assumes "documented_framework fw" "documented_rules (va_check va)" "documented_texts (va_check va)"
    and "0 < EVENT_ID k6" "0 < COUPON_TYPE_ID k6"
    and "breaker_and_retry (sr_policy (it_sr it))" "sr_names (it_sr it) = fw_names fw"
    and "length (buildBody (it_now it) (EVENT_ID k6) (COUPON_TYPE_ID k6)) \<le> body_limit"
    and "run_iteration k6 fw env va mo ttl it (s, k) = (s', k')"
  shows "(\<exists>row. log_of s' = log_of s @ [row] \<and> issue_other k' = issue_other k \<and> all_counted k' = Suc (all_counted k) \<and>
      (\<forall>st. counted_as st k' = counted_as st k + (if st = l_status row then 1 else 0))) \<or>
    (issue_other k' = Suc (issue_other k) \<and> all_counted k' = Suc (all_counted k) \<and>
      (\<forall>st. counted_as st k' = counted_as st k) \<and> (log_of s' = log_of s \<or> (\<exists>row. log_of s' = log_of s @ [row])))"
proof -
  let ?u = "issue_userId (it_vu it) (it_iter it)"
  let ?rq = "issue_iteration_request k6 (it_now it) (it_vu it) (it_iter it)"
  let ?request = "\<lparr>cd_eventId = EVENT_ID k6, cd_couponTypeId = COUPON_TYPE_ID k6\<rparr>"
  have rq: "hq_method ?rq = ''POST''" "hq_path ?rq = issue_request_path" "hq_user ?rq = One_Header (dec ?u)" "hq_json ?rq"
    "hq_text ?rq = JSON_stringify (JObj (load_fields (it_now it) (EVENT_ID k6) (COUPON_TYPE_ID k6)))"
    by (simp_all add: issue_iteration_request_def http_post_def buildHeaders_def buildBody_def ISSUE_ENDPOINT_def issue_request_path_def)
  note parsed = documentedD(3) [OF assms(1) rq(4,5) load_fields_wf assms(8) [unfolded buildBody_def]]
  have h: "handle fw (bootstrap_a env va mo ttl (it_sr it)) ?rq = a_endpoint ttl (it_sr it) (One_Header (dec ?u)) (Inr ?request)"
    unfolding a_issue_handled [OF documentedD(1) [OF assms(1)] parsed rq(1,2)] a_endpoint_def assms(7)
    by (simp add: rq(3) load_body_accepted [OF assms(2-5)])
  obtain q s1 f1 where run: "a_endpoint ttl (it_sr it) (One_Header (dec ?u)) (Inr ?request) (s, it_faults it) = (q, s1, f1)"
    by (cases "a_endpoint ttl (it_sr it) (One_Header (dec ?u)) (Inr ?request) (s, it_faults it)")
  from endpoint_answers [OF assms(6) UserId_dec run refl] obtain rsp status where
    q: "q = Inr rsp" and ends: "logged log_of \<lparr>ic_userId = ?u, ic_eventId = EVENT_ID k6, ic_couponTypeId = COUPON_TYPE_ID k6\<rparr>
          (sr_uuid (it_sr it)) status s s1 \<and> log_answer status = (rp_status rsp, response_status rsp, rp_headers rsp) \<or>
        rsp = failure_response internalError \<and> (log_of s1 = log_of s \<or> logged log_of
          \<lparr>ic_userId = ?u, ic_eventId = EVENT_ID k6, ic_couponTypeId = COUPON_TYPE_ID k6\<rparr> (sr_uuid (it_sr it)) status s s1)"
    by auto
  have wf: "wf_json (rp_body rsp)" using givesD [OF endpoint_wf [OF assms(6)]] run q by blast
  have res: "s' = s1" "k' = count_answer (rp_status rsp) (JSON_stringify (rp_body rsp)) k"
    using assms(9) run q by (simp_all add: run_iteration_def h)
  from ends show ?thesis
  proof
    assume l: "logged log_of \<lparr>ic_userId = ?u, ic_eventId = EVENT_ID k6, ic_couponTypeId = COUPON_TYPE_ID k6\<rparr>
        (sr_uuid (it_sr it)) status s s1 \<and> log_answer status = (rp_status rsp, response_status rsp, rp_headers rsp)"
    then show ?thesis by (auto simp: res logged_def count_known [OF _ wf])
  next
    assume r: "rsp = failure_response internalError \<and> (log_of s1 = log_of s \<or> logged log_of
        \<lparr>ic_userId = ?u, ic_eventId = EVENT_ID k6, ic_couponTypeId = COUPON_TYPE_ID k6\<rparr> (sr_uuid (it_sr it)) status s s1)"
    then have "rp_status rsp = 500" by (simp add: failure_response_def internalError_def mapped_def)
    with r show ?thesis by (auto simp: res logged_def count_other)
  qed
qed


definition load_settings :: env where
  "load_settings name = (if name = ''EVENT_ID'' then Some ''7'' else if name = ''COUPON_TYPE_ID'' then Some ''3'' else None)"

definition load_iterations :: "iteration list" where
  "load_iterations =
     [\<lparr>it_vu = 1, it_iter = 0, it_now = 0, it_sr = demo_sr, it_faults = []\<rparr>,
      \<lparr>it_vu = 1, it_iter = 1, it_now = 0, it_sr = broken_sr, it_faults = [NoFault, FailAfter]\<rparr>]"

lemma load_ids: "EVENT_ID load_settings = 7" "COUPON_TYPE_ID load_settings = 3"
proof -
  have "''7'' = dec 7" "''3'' = dec 3" by (simp_all add: dec_def nat_dec.simps digit_char_def char_of_def bit_0)
  then show "EVENT_ID load_settings = 7" "COUPON_TYPE_ID load_settings = 3"
    by (simp_all add: EVENT_ID_def COUPON_TYPE_ID_def setting_number_def load_settings_def)
qed

lemma load_dates: "toISOString 0 = ''1970-01-01T00:00:00.000Z''" "toISOString 2592000000 = ''1970-01-31T00:00:00.000Z''"
  by code_simp+

lemma load_body_fits: "length (buildBody 0 7 3) \<le> body_limit"
  by (simp add: buildBody_def load_fields_def ONE_MONTH_MS_def load_dates JSON_stringify.simps body_limit_def quote_def esc_char_def
      dec_def nat_dec.simps)


end
