(* ===== verification/Spec2Isabelle.thy ===== *)
theory Spec2Isabelle imports C_Race C_Contended C_Pollers B_Interleaved Lifecycle Load_Test begin

text \<open>
  A verification development for the three services that issue limited coupons.

  \<^bold>\<open>The program.\<close>  \<open>server-a\<close> (\<open>apps/server-a\<close>) takes the request of a user, refuses it at once when the
  sold-out cache says so, else asks \<open>server-b\<close> over HTTP behind a circuit breaker with one retry, and
  writes one row of its request log.  \<open>server-b\<close> (\<open>apps/server-b\<close>) reserves the pair of user and coupon
  type in Redis, sends the request to a Kafka topic and answers ACCEPTED or DUPLICATE; its scheduler
  asks \<open>server-c\<close> about stale requests, takes over results, publishes again or gives up; its consumer
  takes over result messages.  \<open>server-c\<close> (\<open>apps/server-c\<close>) consumes the requests, decides each in one
  MySQL transaction (inventory, result row, outbox row), publishes the outbox, writes the sold-out
  cache, redeems coupons and answers queries.  \<open>libs/common\<close> holds what they share.

  \<^bold>\<open>The theories.\<close>
  \<^item> \<open>Prelude\<close>: effects.  \<open>('s, exn, 'a) eff\<close> maps a state and a list of fault decisions to a result, a state
    and the decisions that are left.  Every external command takes one decision: it succeeds, fails
    before its effect or fails after it; \<open>[]\<close> means that nothing fails any more.  The collection
    \<open>keeps\<close> proves that an operation keeps an invariant; \<open>fair\<close> bounds how many decisions it takes.
  \<^item> \<open>Js_Lib\<close>, \<open>Js_Date\<close>, \<open>Json\<close>: numbers in decimal, \<open>Number\<close>, white space; ISO renderings of dates with the civil
    calendar; \<open>JSON.stringify\<close> and \<open>JSON.parse\<close> on text, with their round trip.
  \<^item> \<open>Errors\<close>, \<open>Wire\<close>: the error classes; the payloads, their checks and the coupon code of \<open>libs/common/src/coupon\<close>.
  \<^item> \<open>Config\<close>: what is read from the environment (topics, databases, Redis, time limits, the policy of the client).
  \<^item> \<open>Redis\<close>: the commands used, with expiry.  \<open>Kafka_Consumer\<close>: the discipline the two consumers share when they
    deliver a batch under the options of \<open>run\<close>.  \<open>Kafka_Lifecycle\<close>: the broker as the clients see it, the creation of the
    topics, and the life of a consumer (start loop, shutdown) as the step relation \<open>lifecycle_step\<close>; \<open>Lifecycle\<close>:
    its properties for the set-ups of both services.
  \<^item> \<open>Http\<close>: envelope, pipes, exception filters (\<open>libs/common/src/api\<close>), and what axios makes of an answer.
  \<^item> server-c: \<open>C_Model\<close> (domain), \<open>C_Database\<close> (schema, unique keys, transactions, repositories), \<open>C_Issue\<close>
    (processor), \<open>C_Redeem\<close> and \<open>C_Race\<close> (redeem, alone and interleaved statement by statement), \<open>C_Outbox\<close>
    (poller), \<open>C_Consumer\<close>, \<open>C_Query\<close> (views, event cache, queries), \<open>C_System\<close> (all entry points as one step
    relation), \<open>C_Api\<close> (controllers).  \<open>C_Invariant\<close>, \<open>C_Issue_Facts\<close> and \<open>C_Truth\<close> hold the invariants.
    \<open>C_Contention\<close> cuts the issue transaction at its statements and interleaves any number of them with row locks,
    waits on unique keys and faults; \<open>C_Serial\<close> has the invariant, \<open>C_Contended\<close> what it yields.
    \<open>C_Pollers\<close> cuts a poll of the outbox at its statements and interleaves any number of pollers.
  \<^item> server-b: \<open>B_Store\<close> and \<open>B_Stale\<close> (the store, command by command), \<open>B_Port\<close> (the contract of the store as a
    locale and its proof), \<open>B_Accept\<close>, \<open>B_Scheduler\<close>, \<open>B_Cycles\<close> (several runs), \<open>B_Results\<close>, \<open>B_System\<close>, \<open>B_Truth\<close>, \<open>B_Api\<close>.
    \<open>B_Traffic\<close> cuts the methods of the store into their commands and interleaves those of any number of accept
    calls, consumers and scheduler runs; \<open>B_Interleaved\<close> shows what survives it, and what does not.
  \<^item> server-a: \<open>A_Issue\<close> (log, cache, client, service, controller), \<open>A_Service\<close> (what follows from the
    contracts of cache, client and repository, as the locale \<open>issuing\<close>).
  \<^item> at the edge: \<open>Dto\<close> (the rules of the request bodies and the validation pipes of server-a and server-b),
    \<open>Operations\<close> (health endpoints, registry of the counters), \<open>Routes\<close> (body parser, table of routes,
    how a request reaches a handler) and \<open>Apps\<close> (the routes of the controllers, \<open>bootstrap_a\<close>, \<open>bootstrap_b\<close>
    and \<open>bootstrap_c\<close> for \<open>main.ts\<close>, the paths on which the services call each other).
  \<^item> all three: \<open>System\<close> (wiring, the step relation \<open>sys_step\<close>, its invariant), \<open>Journey\<close> (one request from end to
    end), \<open>Example\<close> (the input of the witnesses), \<open>Answers\<close> (what server-a can answer, with \<open>log_answer\<close>, the
    answer that belongs to a status of the log), \<open>Requests\<close> (requests on the wire are steps of the system),
    \<open>Vouchers\<close> (a held coupon is used over HTTP), \<open>Load_Test\<close> (the scripts of \<open>load-test\<close> and their counters).

  \<^bold>\<open>State.\<close>  \<open>cdb\<close> is the schema of server-c as lists of rows, \<open>adb\<close> the table of server-a, \<open>redis\<close> a key space with
  expiry times; \<open>cstate\<close>, \<open>bstate\<close> and \<open>sys\<close> add the topics (lists of key and text) and the in-memory fields.
  BIGINT columns are decimal strings, as the driver returns them; numbers of the program are integers.
  The services are written against their ports where the code is; the locales \<open>pending_store\<close>,
  \<open>accepting\<close>, \<open>scheduling\<close>, \<open>record_handler\<close> and \<open>issuing\<close> carry the contracts and are interpreted on the code's own operations.

  \<^bold>\<open>What the lemmas show.\<close>  Per operation: its behaviour on every branch, errors included, and under every
  pattern of faults that it commits what its specification computes or leaves the committed tables
  alone (\<open>committed_or_untouched\<close>).  Per service: an invariant of all reachable states.  Liveness is stated by counting:
  an operation that has more attempts than there are faults left gets through.  Over all services
  (here and in \<open>System\<close>): what one service tells of another is true.  At the edge: which request on the wire
  runs which handler, that every such request is a step of the system and that all others change nothing.

  \<^bold>\<open>Parameters and hypotheses.\<close>  The collation of the code column is a function \<open>ck\<close>; \<open>randomInt\<close>, \<open>randomUUID\<close>, the
  clock and timers are arguments (\<open>valid_rnd\<close>: \<open>randomInt(n)\<close> is below \<open>n\<close>).  The policy that cockatiel builds
  is an argument; \<open>breaker_and_retry\<close> states its documented behaviour.  The outcome of validation is
  an argument of the controllers; in \<open>Dto\<close> it is computed from the rules of the fields, where what one rule
  accepts is a parameter with the documented behaviour of class-validator (\<open>documented_rules\<close>) as hypothesis.  What
  express and Nest do with the text of a body, with a path and with a numeric parameter of a path are the fields
  of \<open>framework\<close>, and \<open>documented_framework\<close> is what their documentation promises of them; the check of Terminus is
  an argument of the health endpoints, which \<open>pings\<close> says to leave the state alone.  The load tests also rely on
  \<open>documented_texts\<close>, what class-validator does with the length of a text and
  that it takes the rendering of a date for ISO 8601.  Loops run over lists or over the number of delivery
  attempts, and the start loop of a consumer, which may run for ever, is a step relation, so no fuel is needed.

  \<^bold>\<open>Bounds of the model.\<close>  Numbers are exact, so identifiers above \<open>2 ^ 53\<close> are outside of it (\<open>safe_integer\<close>), as are column widths.
  A request is its method, path, user header and body text; query strings, other headers and HEAD or OPTIONS
  are left out, and a body is at most \<open>body_limit\<close> long where it must be accepted.
  A step of \<open>sys_step\<close> is one message, call or run; the look-ups of one scheduler run see one state of
  server-c, and a call that server-a has given up is over before its retry starts.  The interleaving
  of database statements is modelled for redeem (\<open>C_Race\<close>), issue transactions (\<open>C_Contention\<close>) and polls (\<open>C_Pollers\<close>), and that
  of Redis commands for server-b (\<open>B_Traffic\<close>), which is what several consumers, or one with
  \<open>KAFKA_CONSUMER_CONCURRENCY\<close> above 1, do; in the systems \<open>C_System\<close> and \<open>System\<close> a delivery is
  one step.  A restart of a producer (\<open>restart_b\<close>, \<open>restart_c\<close>) is a step of the systems, the life of a consumer is its own
  relation.  Locks are those of the inventory row and of unique keys; MySQL may abort a transaction at any
  point, which covers deadlocks it would find elsewhere and lock wait timeouts.  Redis is one instance of which
  server-b and server-c use disjoint keys, each kept as its own part.  A message on a topic may be delivered in any order, any
  number of times or never.

  \<^bold>\<open>Not modelled.\<close>  The mechanics of dependency injection (the wiring it yields is that of \<open>System\<close> and \<open>Apps\<close>);
  logging; the options that only tune a library (pool sizes and time limits are read in \<open>Config\<close>, their effect is
  the library's); the text format of the metrics; the thresholds and the schedule of k6, which only decide
  when an iteration of a load test starts and how its counters are judged; files that only export, and
  the configuration of the test runner.
\<close>

section \<open>What the services tell each other is true\<close>

text \<open>C3. What server-b holds of a pair is true: in every state the three services can reach, under any
  faults, losses, redeliveries and replays, a status SUCCESS rests on a coupon of that user and type in
  the database of server-c, and SOLD_OUT on a result row that says so.\<close>

theorem server_b_tells_the_truth:
  assumes "sys_reachable ck ttl s0 s" "b_held (s_b s) u t = Some en"
  shows "(pi_status (en_item en) = ''SUCCESS'' \<longrightarrow> (\<exists>r \<in> set (d_user_coupons (c_db (s_c s))).
      same_user_type (dec u) (dec t) r \<and> u_status r \<in> {UC_SUCCESS, UC_USED})) \<and>
    (pi_status (en_item en) = ''SOLD_OUT'' \<longrightarrow> (\<exists>r \<in> set (d_user_coupons (c_db (s_c s))).
      same_user_type (dec u) (dec t) r \<and> u_status r = UC_SOLD_OUT))"
proof -
  have "status_ok (tells_true (c_db (s_c s))) (b_redis (s_b s))"
    using sys_reachable_inv [OF assms(1)] by (simp add: sys_inv_def)
  from status_ok_held [OF this assms(2)] show ?thesis by (simp add: tells_true_def)
qed

theorem server_b_tells_the_truth_witness:
  "list_ex (\<lambda>r. same_user_type (dec 11) (dec 3) r \<and> u_status r \<in> {UC_SUCCESS, UC_USED}) (d_user_coupons (c_db (s_c demo_end)))"
proof -
  from demo_facts obtain en where "b_held (s_b demo_end) 11 3 = Some en" "pi_status (en_item en) = ''SUCCESS''" by blast
  with server_b_tells_the_truth [OF demo_reachable, of 11 3 en] show ?thesis by (auto simp: list_ex_iff)
qed

text \<open>C24. Nobody gets a result he has not asked for: for every result row of server-c the request topic holds a
  message, under the key of the user, that asks for this event and coupon type.\<close>

theorem no_result_without_request:
  assumes "sys_reachable ck ttl s0 s" "row \<in> set (d_user_coupons (c_db (s_c s)))"
  shows "\<exists>(k, v) \<in> set (b_topic (s_b s)). \<exists>p. parse_request (Some v) = Some p \<and> k = dec (rq_userId p) \<and>
    u_userId row = dec (rq_userId p) \<and> u_eventId row = dec (rq_eventId p) \<and> u_couponTypeId row = dec (rq_couponTypeId p)"
  using sys_reachable_inv [OF assms(1)] assms(2) by (simp add: sys_inv_def requested_def asked_by_def)

theorem no_result_without_request_witness:
  "list_ex (\<lambda>(k, v). k = dec 11 \<and> (case parse_request (Some v) of None \<Rightarrow> False | Some p \<Rightarrow> rq_couponTypeId p = 3))
     (b_topic (s_b demo_end))"
proof -
  from demo_facts obtain row where row: "row \<in> set (d_user_coupons (c_db (s_c demo_end)))" "same_user_type (dec 11) (dec 3) row"
    by blast
  from no_result_without_request [OF demo_reachable row(1)] row(2) show ?thesis
    by (auto simp: list_ex_iff same_user_type_def split: option.splits intro!: bexI)
qed



section \<open>From the request to the coupon\<close>

text \<open>C11. A request becomes a coupon: a user posts the text of a JSON body that passes the validation of
  server-a to the public path; when nothing fails, the circuit is closed, the pair is free and server-c
  has an active event with stock, the answer is ACCEPTED, and once the message, the poll and the result have
  run the user holds a coupon with the generated code, server-b tells SUCCESS with that code and
  no longer tracks the request, and the list that server-c sends the user contains the coupon.\<close>

theorem request_becomes_coupon:
  assumes "0 < ttl" "documented_framework fw" "documented_rules (va_check va)" "0 < u"
    and "rq = \<lparr>hq_method = ''POST'', hq_path = issue_request_path, hq_user = One_Header (dec u), hq_json = True,
      hq_text = JSON_stringify (JObj kvs)\<rparr>" "wf_json (JObj kvs)" "length (JSON_stringify (JObj kvs)) \<le> body_limit"
    and "a_pipe (va_check va) (va_message va) (JObj kvs) = Inr \<lparr>cd_eventId = e, cd_couponTypeId = t\<rparr>"
    and "closed_circuit sr s" "sr_validate sr = b_pipe (va_check va) (va_message va)" "sr_names sr = fw_names fw"
    and "\<not> b_taken (s_b s) u t" "live_string (c_redis (s_c s)) (a_couponAvailable e t) = None"
    and "serves ck (clock 1) (CouponCode_generate (rnd 1)) (sent_request sr s u e t) (c_db (s_c s))"
    and "\<not> c_polling (s_c s)" "filter (\<lambda>row. o_status row = OB_PENDING) (d_outbox (c_db (s_c s))) = []"
    and "0 < n" "0 < batchSize" "0 < m"
    and "s' = after_result ttl m (after_poll batchSize now (after_process ck sold_out_ttl n clock rnd
      (final (handle fw (bootstrap_a env va mo_a ttl sr) rq (s, [])))))"
  shows "outcome (handle fw (bootstrap_a env va mo_a ttl sr) rq (s, [])) =
      Inr \<lparr>rp_status = 200, rp_headers = [], rp_body = ApiResponses_success
        (JObj [(''requestId'', JStr (sr_uuid sr)), (''status'', JStr ''ACCEPTED'')])\<rparr> \<and>
    (\<exists>row \<in> set (d_user_coupons (c_db (s_c s'))). same_user_type (dec u) (dec t) row \<and> u_status row = UC_SUCCESS \<and>
      u_code row = CouponCode_generate (rnd 1)) \<and>
    (\<exists>en. b_held (s_b s') u t = Some en \<and> pi_status (en_item en) = ''SUCCESS'' \<and> en_score en = None) \<and>
    hash_field (b_redis (s_b s')) (pendingHash u t) ''code'' = Some (CouponCode_generate (rnd 1)) \<and>
    (\<exists>views view. handle fw (bootstrap_c env fw mo_c ck later event_ttl) (call ''GET'' my_coupons_path u) (s_c s', []) =
        (Inr (ok_response (ApiResponses_success (JArr views))), s_c s', []) \<and> view \<in> set views \<and>
      jprop ''code'' view = Some (JStr (CouponCode_generate (rnd 1))) \<and> jprop ''status'' view = Some (JStr ''SUCCESS''))"
proof -
  have pos: "0 < e" "0 < t" using pipe_numbers(1,2) [OF assms(3,8)] by simp_all
  have through: "gets_through sr s e t" by (rule closed_circuit_through [OF assms(9,10,3,8)])
  have h: "handle fw (bootstrap_a env va mo_a ttl sr) rq = a_endpoint ttl sr (One_Header (dec u)) (Inr \<lparr>cd_eventId = e, cd_couponTypeId = t\<rparr>)"
    using a_issue_handled [OF documentedD(1) [OF assms(2)], of rq "JObj kvs" env va mo_a ttl sr]
      documentedD(3) [OF assms(2), of rq kvs] assms(5-8,11) by (simp add: a_endpoint_def)
  obtain b' where answer: "outcome (a_endpoint ttl sr (One_Header (dec u)) (Inr \<lparr>cd_eventId = e, cd_couponTypeId = t\<rparr>) (s, [])) =
      Inr \<lparr>rp_status = 200, rp_headers = [], rp_body = ApiResponses_success
        (JObj [(''requestId'', JStr (sr_uuid sr)), (''status'', JStr ''ACCEPTED'')])\<rparr>"
    by (rule endpoint_nil [OF assms(1) through assms(12,4) pos assms(13)]) simp
  note way = journey [where ck = ck and clock = clock and rnd = rnd and sold_out_ttl = sold_out_ttl and now = now,
      OF assms(1) through assms(12,4) pos assms(13-19), folded assms(20) [unfolded h, folded after_issue_def]]
  then obtain row where row: "row \<in> set (d_user_coupons (c_db (s_c s')))" "same_user_type (dec u) (dec t) row"
      "u_status row = UC_SUCCESS" "u_code row = CouponCode_generate (rnd 1)" by blast
  note views = shown_to_holder [OF assms(2), of row "s_c s'" u env fw mo_c ck later event_ttl]
  from row views have "\<exists>views view. handle fw (bootstrap_c env fw mo_c ck later event_ttl) (call ''GET'' my_coupons_path u) (s_c s', []) =
        (Inr (ok_response (ApiResponses_success (JArr views))), s_c s', []) \<and> view \<in> set views \<and>
      jprop ''code'' view = Some (JStr (CouponCode_generate (rnd 1))) \<and> jprop ''status'' view = Some (JStr ''SUCCESS'')"
    by (simp add: same_user_type_def)
  with way answer show ?thesis by (simp add: h)
qed

theorem request_becomes_coupon_witness:
  "list_ex (\<lambda>row. same_user_type (dec 11) (dec 3) row \<and> u_code row = CouponCode_generate (\<lambda>_. 0)) (d_user_coupons (c_db (s_c
    (after_result 86400 10 (after_poll 100 6500 (after_process id 86400 10 (\<lambda>_. 6000) (\<lambda>_ _. 0) (final (handle plain_framework
      (bootstrap_a (\<lambda>_. None) plain_validator quiet_monitoring 86400 demo_sr) demo_request (demo, [])))))))))"
proof -
  have c: "filter (\<lambda>row. o_status row = OB_PENDING) (d_outbox (c_db (s_c demo))) = []" by (simp add: demo_quiet)
  note th = request_becomes_coupon [where ck = id and clock = "\<lambda>_. 6000" and rnd = "\<lambda>_ _. 0" and sr = demo_sr and
      va = plain_validator and s = demo and u = 11 and e = 7 and t = 3 and n = 10 and m = 10 and batchSize = 100 and ttl = 86400 and
      sold_out_ttl = 86400 and now = 6500 and env = "\<lambda>_. None" and mo_a = quiet_monitoring and mo_c = quiet_monitoring,
      OF _ plain_framework_documented _ _ demo_request_def [unfolded demo_body_def] demo_body_wf demo_body_fits demo_body_accepted
        demo_closed demo_validates_all demo_names _ _ _ _ c _ _ _ refl]
  show ?thesis
    using th by (auto simp: plain_check_documented new_b_free shop_cache_empty demo_quiet demo_serves list_ex_iff)
qed

section \<open>What server-a answers and logs\<close>

text \<open>C23. Every valid request is answered under every pattern of faults: either with the status that the
  one row appended to the request log holds (503 with \<open>Retry-After\<close> exactly for a rejected one), or
  with the fixed 500 when the row could not be written for sure.\<close>

theorem issue_request_answers:
  assumes "breaker_and_retry (sr_policy sr)" "UserId user_header = Inr u"
    and "a_endpoint ttl sr user_header (Inr request) (s, fs) = (q, s', fs')"
    and "command = \<lparr>ic_userId = u, ic_eventId = cd_eventId request, ic_couponTypeId = cd_couponTypeId request\<rparr>"
  shows "\<exists>rsp status. q = Inr rsp \<and>
    (logged log_of command (sr_uuid sr) status s s' \<and>
       log_answer status = (rp_status rsp, response_status rsp, rp_headers rsp) \<or>
     rsp = failure_response internalError \<and> (log_of s' = log_of s \<or> logged log_of command (sr_uuid sr) status s s'))"
  by (rule endpoint_answers [OF assms])

theorem issue_request_answers_witness:
  "let (q, s', _) = a_endpoint 86400 broken_sr (One_Header (dec 11)) (Inr \<lparr>cd_eventId = 7, cd_couponTypeId = 3\<rparr>) (demo, [FailBefore])
   in q \<noteq> Inl mysql_down \<and> length (log_of s') \<le> 1"
proof -
  obtain q s' fs' where w: "a_endpoint 86400 broken_sr (One_Header (dec 11)) (Inr \<lparr>cd_eventId = 7, cd_couponTypeId = 3\<rparr>)
      (demo, [FailBefore]) = (q, s', fs')"
    by (cases "a_endpoint 86400 broken_sr (One_Header (dec 11)) (Inr \<lparr>cd_eventId = 7, cd_couponTypeId = 3\<rparr>) (demo, [FailBefore])")
  from issue_request_answers [OF demo_policy(2) UserId_dec w refl] show ?thesis
    unfolding w by (auto simp: logged_def log_of_def)
qed

text \<open>When server-b is out of reach (the circuit is open, or both attempts fail before they arrive) the user
  is told so at once: 503 with \<open>Retry-After\<close>, a REJECTED row in the log, and nothing changed elsewhere.\<close>

lemma unreachable_b_answers_503:
  assumes "UserId user_header = Inr u"
    and "live_string (c_redis (s_c s)) (a_couponAvailable (cd_eventId request) (cd_couponTypeId request)) = None"
    and "(\<forall>m fs. sr_policy sr m (s, fs) = (Inl BrokenCircuitError, s, fs)) \<and> fs = [] \<or>
      (\<forall>m fs. sr_policy sr m (s, fs) = try_catch m (\<lambda>e. m) (s, fs)) \<and> fs = [NoFault, FailBefore, FailBefore]"
  shows "\<exists>rsp s'. a_endpoint ttl sr user_header (Inr request) (s, fs) = (Inr rsp, s', []) \<and>
    rp_status rsp = 503 \<and> rp_headers rsp = [(''Retry-After'', ''5'')] \<and>
    response_status rsp = Some (JStr ''INTERNAL_ERROR'') \<and> s_b s' = s_b s \<and> s_c s' = s_c s \<and>
    logged log_of \<lparr>ic_userId = u, ic_eventId = cd_eventId request, ic_couponTypeId = cd_couponTypeId request\<rparr>
      (sr_uuid sr) LOG_REJECTED s s'"
proof -
  let ?e = "cd_eventId request" and ?t = "cd_couponTypeId request"
  have "\<exists>d f1. a_isSoldOut ?e ?t (s, fs) = (Inr False, s, f1) \<and> a_client ttl sr u ?e ?t (s, f1) = (Inr d, s, []) \<and>
      ds_status d = JStr ''INTERNAL_ERROR''"
    using assms(3)
    by (elim disjE conjE; simp add: a_isSoldOut_def on_cache_apply CouponAvailabilityCache_isSoldOut_def redis_exists_def
        try_catch_def bnd_def assms(2) a_client_def HttpCouponIssuingClient_issue_def client_call_def post_issue_def
        over_http_def client_fallback_def downstream_of_def acceptance_internalError_def)
  then obtain d f1 where "a_isSoldOut ?e ?t (s, fs) = (Inr False, s, f1)" "a_client ttl sr u ?e ?t (s, f1) = (Inr d, s, [])"
      "ds_status d = JStr ''INTERNAL_ERROR''" by blast
  then show ?thesis
    by (simp add: endpoint_run [OF assms(1) refl] a_issue_def IssueRequestService_issue_def bnd_def a_mapStatus_def
        save_request_def a_save_run IssueRequestRepository_save_def issue_response_parts isDownstreamUnavailable_def
        logged_def log_of_def sql_insert_request_def new_log_row_def IssueRequestMapper_toInsertValues_def log_values.defs
        IssueRequest_of_def IssueRequest_reconstitute_def)
qed

lemma unreachable_b_answers_503_witness:
  "\<exists>rsp s'. a_endpoint 86400 broken_sr (One_Header (dec 11)) (Inr \<lparr>cd_eventId = 7, cd_couponTypeId = 3\<rparr>) (demo, []) =
     (Inr rsp, s', []) \<and> rp_status rsp = 503"
  using unreachable_b_answers_503 [OF UserId_dec, of demo "\<lparr>cd_eventId = 7, cd_couponTypeId = 3\<rparr>" broken_sr "[]" 86400 11]
  by (auto simp: shop_cache_empty broken_sr_def)



section \<open>What goes over the wires\<close>

text \<open>C30. Every message on a topic is readable by its consumer: the parser of server-c reads each message of
  server-b back, with the user as its key, and the parser of server-b each message of server-c, with the
  request as its key.\<close>

theorem messages_are_readable:
  assumes "sys_reachable ck ttl s0 s"
  shows "list_all (\<lambda>(k, v). \<exists>p. parse_request (Some v) = Some p \<and> k = dec (rq_userId p) \<and> v = JSON_stringify (request_json p))
      (b_topic (s_b s)) \<and>
    list_all (\<lambda>(k, v). \<exists>p. parse_result (Some v) = Some p \<and> k = rs_requestId p \<and> v = JSON_stringify (result_json p))
      (c_topic (s_c s))"
proof -
  have inv: "topic_ok (s_b s)" "told (c_db (s_c s))" "topic_told (s_c s)"
    using sys_reachable_inv [OF assms] by (simp_all add: sys_inv_def b_inv_def truthful_def)
  have "\<exists>p. parse_result (Some v) = Some p \<and> k = rs_requestId p \<and> v = JSON_stringify (result_json p)"
    if kv: "(k, v) \<in> set (c_topic (s_c s))" for k v
  proof -
    from inv(3) kv have "(k, v) \<in> message_of ` set (d_outbox (c_db (s_c s)))" by (auto simp: topic_told_def)
    then obtain o' where "o' \<in> set (d_outbox (c_db (s_c s)))" "(k, v) = message_of o'" by blast
    moreover from this(1) inv(2) obtain r where "announces o' r" by (auto simp: told_def)
    ultimately obtain p where "k = rs_requestId p" "v = JSON_stringify (result_json p)"
        "rs_couponCode p = (if rs_status p = R_SUCCESS then Some (u_code r) else None)"
      by (auto simp: announces_def message_of_def)
    then show ?thesis by (intro exI [of _ p]) (auto intro: parse_result_json)
  qed
  moreover have "\<exists>p. parse_request (Some v) = Some p \<and> k = dec (rq_userId p) \<and> v = JSON_stringify (request_json p)"
    if kv: "(k, v) \<in> set (b_topic (s_b s))" for k v
  proof -
    from inv(1) kv obtain p where "good_request p" "k = dec (rq_userId p)" "v = JSON_stringify (request_json p)"
      by (auto simp: topic_ok_def)
    then show ?thesis by (intro exI [of _ p]) (simp add: good_request_def parse_request_json)
  qed
  ultimately show ?thesis by (auto simp: list_all_iff)
qed

theorem messages_are_readable_witness:
  "\<exists>k v p. c_topic (s_c demo_end) \<noteq> [] \<and> hd (c_topic (s_c demo_end)) = (k, v) \<and> parse_result (Some v) = Some p"
proof -
  obtain kv kvs where "c_topic (s_c demo_end) = kv # kvs" using demo_facts by (cases "c_topic (s_c demo_end)") auto
  with messages_are_readable [OF demo_reachable] show ?thesis by (cases kv) auto
qed

text \<open>The look-up of server-b over HTTP is a query of the database of server-c: it answers with the status and
  code of the row of the pair, with nothing when there is none, and fails exactly when the call is
  lost or the database does not answer (then with the status 500).\<close>

lemma lookup_is_a_query:
  "UserCouponClient_findOne (c_lookup names c lost fss) u t =
    (if lost (lookup_path u t) then Inl (Connection_Error ''http'')
     else if fss (lookup_path u t) = [] \<or> hd (fss (lookup_path u t)) = NoFault
     then Inr (map_option (\<lambda>row. \<lparr>lk_status = Some (user_coupon_wire (u_status row)), lk_code = Some (u_code row)\<rparr>)
       (find (same_user_type (dec u) (dec t)) (d_user_coupons (c_db c))))
     else Inl (ResponseError 500))"
  by (simp add: findOne_answers found_row_def)

text \<open>C35. Every coupon that is issued has a well-formed code, in every reachable state.\<close>

theorem issued_codes_are_valid:
  assumes "sys_reachable ck ttl s0 s" "row \<in> set (d_user_coupons (c_db (s_c s)))" "u_status row \<in> {UC_SUCCESS, UC_USED}"
  shows "CouponCode_of (Some (u_code row)) = Inr (u_code row)"
  using sys_reachable_inv [OF assms(1)] assms(2,3) by (auto simp: sys_inv_def truthful_def told_def coded_def)

theorem issued_codes_are_valid_witness:
  "CouponCode_of (Some (CouponCode_generate (\<lambda>_. 0))) = Inr (CouponCode_generate (\<lambda>_. 0))"
proof -
  from demo_facts obtain row where "row \<in> set (d_user_coupons (c_db (s_c demo_end)))" "u_status row = UC_SUCCESS"
      "u_code row = CouponCode_generate (\<lambda>_. 0)" by blast
  with issued_codes_are_valid [OF demo_reachable, of row] show ?thesis by simp
qed

end
